(* ===== verification/PyBase.thy ===== *)
theory PyBase
  imports Main
begin

text \<open>
  The prelude of the development: the values and effects of Python that every component
  of the service uses.

  \<^item> Text. A Python \<open>str\<close> is a list of Unicode code points (\<open>pystr\<close>), so that \<open>len\<close>
    counts code points and the UTF-8 encoding, which the password rules measure, is a
    function of its own. The part of the Unicode Character Database that \<open>str.lower\<close>,
    \<open>str.strip\<close>, \<open>str.isdigit\<close>, \<open>int\<close>, \<open>repr\<close> and the regular expression \<open>\w\<close> consult
    for code points beyond ASCII is a parameter, the record \<open>unicode\<close>; everything on
    ASCII is written out.
  \<^item> Errors. \<open>exn\<close> has one constructor for each exception class the service raises or
    lets through; a fallible function returns \<open>exn + 'a\<close>.
  \<^item> Effects. \<open>('s, 'a) act\<close> is a Python coroutine over a state: it returns a value or
    raises, and the state it has changed stays changed when it raises.
\<close>

named_theorems act_simps \<open>unfolding rules of the effect combinators\<close>
named_theorems lit_simps \<open>evaluation of string literals\<close>

section \<open>Text\<close>

type_synonym pystr = "nat list"

text \<open>A source literal, as its code points.\<close>

definition lit :: "string \<Rightarrow> pystr" where
  "lit s = map of_char s"

declare lit_def [lit_simps]

record unicode =
  u_lower :: "nat \<Rightarrow> pystr"
  u_final_sigma :: "pystr \<Rightarrow> pystr \<Rightarrow> bool"
  u_space :: "nat \<Rightarrow> bool"
  u_digit :: "nat \<Rightarrow> bool"
  u_decimal :: "nat \<Rightarrow> nat option"
  u_printable :: "nat \<Rightarrow> bool"
  u_alnum :: "nat \<Rightarrow> bool"

text \<open>
  What the code relies on in the Unicode tables (\<open>UnicodeData.txt\<close> and \<open>SpecialCasing.txt\<close>):
  a code point beyond ASCII is lowered to code points beyond ASCII or to lower-case ASCII
  letters (U+0130 and U+212A give \<open>i\<close> and \<open>k\<close>); white space lowers to itself, anything
  else to something that is not empty and holds no white space; the sigmas are no white
  space.
\<close>

definition unicode_ok :: "unicode \<Rightarrow> bool" where
  "unicode_ok U \<longleftrightarrow>
     (\<forall>c\<ge>128. \<forall>d\<in>set (u_lower U c). 128 \<le> d \<or> (97 \<le> d \<and> d \<le> 122)) \<and>
     (\<forall>c\<ge>128. u_space U c \<longrightarrow> u_lower U c = [c]) \<and>
     (\<forall>c\<ge>128. \<not> u_space U c \<longrightarrow>
        u_lower U c \<noteq> [] \<and> (\<forall>d\<in>set (u_lower U c). 128 \<le> d \<longrightarrow> \<not> u_space U d)) \<and>
     \<not> u_space U 0x3A3 \<and> \<not> u_space U 0x3C2 \<and> \<not> u_space U 0x3C3"

text \<open>
  Tables for Latin-1, the Kelvin sign and the dotted capital I: a concrete value of the
  parameter.
\<close>

definition latin_unicode :: unicode where
  "latin_unicode =
     \<lparr>u_lower = (\<lambda>c. if c = 0x212A then [107] else if c = 0x130 then [105, 0x307]
                     else if 0xC0 \<le> c \<and> c \<le> 0xDE \<and> c \<noteq> 0xD7 then [c + 32] else [c]),
      u_final_sigma = (\<lambda>pre post. post = []),
      u_space = (\<lambda>c. c = 0x85 \<or> c = 0xA0),
      u_digit = (\<lambda>c. c = 0xB2 \<or> c = 0xB3 \<or> c = 0xB9),
      u_decimal = (\<lambda>c. None),
      u_printable = (\<lambda>c. 0xA1 \<le> c \<and> c \<noteq> 0xAD),
      u_alnum = (\<lambda>c. 0xC0 \<le> c \<and> c \<noteq> 0xD7 \<and> c \<noteq> 0xF7)\<rparr>"

lemma latin_unicode_ok: "unicode_ok latin_unicode"
  by (auto simp: unicode_ok_def latin_unicode_def)

subsection \<open>Classes of code points\<close>

definition py_isspace :: "unicode \<Rightarrow> nat \<Rightarrow> bool" where
  "py_isspace U c \<longleftrightarrow>
     (if c < 128 then (9 \<le> c \<and> c \<le> 13) \<or> (28 \<le> c \<and> c \<le> 32) else u_space U c)"

definition py_isdigit :: "unicode \<Rightarrow> nat \<Rightarrow> bool" where
  "py_isdigit U c \<longleftrightarrow> (if c < 128 then 48 \<le> c \<and> c \<le> 57 else u_digit U c)"

definition ascii_upper :: "nat \<Rightarrow> bool" where
  "ascii_upper c \<longleftrightarrow> 65 \<le> c \<and> c \<le> 90"

definition ascii_letter :: "nat \<Rightarrow> bool" where
  "ascii_letter c \<longleftrightarrow> (65 \<le> c \<and> c \<le> 90) \<or> (97 \<le> c \<and> c \<le> 122)"

definition ascii_digit :: "nat \<Rightarrow> bool" where
  "ascii_digit c \<longleftrightarrow> 48 \<le> c \<and> c \<le> 57"

text \<open>The class \<open>\w\<close> of the module \<open>re\<close>.\<close>

definition py_isword :: "unicode \<Rightarrow> nat \<Rightarrow> bool" where
  "py_isword U c \<longleftrightarrow>
     (if c < 128 then ascii_letter c \<or> ascii_digit c \<or> c = 95 else u_alnum U c)"

subsection \<open>Methods of str\<close>

definition py_lstrip :: "unicode \<Rightarrow> pystr \<Rightarrow> pystr" where
  "py_lstrip U s = dropWhile (py_isspace U) s"

definition py_rstrip :: "unicode \<Rightarrow> pystr \<Rightarrow> pystr" where
  "py_rstrip U s = rev (dropWhile (py_isspace U) (rev s))"

definition py_strip :: "unicode \<Rightarrow> pystr \<Rightarrow> pystr" where
  "py_strip U s = py_rstrip U (py_lstrip U s)"

text \<open>
  Lower-casing is code point by code point; only the capital sigma looks at its context.
\<close>

definition lower_at :: "unicode \<Rightarrow> pystr \<Rightarrow> nat \<Rightarrow> pystr \<Rightarrow> pystr" where
  "lower_at U pre c post =
     (if c < 128 then [if ascii_upper c then c + 32 else c]
      else if c = 0x3A3 then [if u_final_sigma U pre post then 0x3C2 else 0x3C3]
      else u_lower U c)"

fun py_lower_from :: "unicode \<Rightarrow> pystr \<Rightarrow> pystr \<Rightarrow> pystr" where
  "py_lower_from U pre [] = []"
| "py_lower_from U pre (c # cs) = lower_at U pre c cs @ py_lower_from U (pre @ [c]) cs"

definition py_lower :: "unicode \<Rightarrow> pystr \<Rightarrow> pystr" where
  "py_lower U s = py_lower_from U [] s"

definition py_startswith :: "pystr \<Rightarrow> pystr \<Rightarrow> bool" where
  "py_startswith s p \<longleftrightarrow> take (length p) s = p"

definition py_removeprefix :: "pystr \<Rightarrow> pystr \<Rightarrow> pystr" where
  "py_removeprefix s p = (if py_startswith s p then drop (length p) s else s)"

text \<open>\<open>s.split(sep, 1)\<close> for a one-character separator: one part, or two.\<close>

definition py_split1 :: "nat \<Rightarrow> pystr \<Rightarrow> pystr list" where
  "py_split1 sep s =
     (if sep \<in> set s
      then [takeWhile (\<lambda>c. c \<noteq> sep) s, tl (dropWhile (\<lambda>c. c \<noteq> sep) s)]
      else [s])"

text \<open>\<open>s.replace(sub, "")\<close> for a non-empty \<open>sub\<close>: occurrences from the left, none overlapping.\<close>

function py_remove_all :: "pystr \<Rightarrow> pystr \<Rightarrow> pystr" where
  "py_remove_all sub s =
     (if s = [] \<or> sub = [] then s
      else if py_startswith s sub then py_remove_all sub (drop (length sub) s)
      else hd s # py_remove_all sub (tl s))"
  by pat_completeness auto
termination
  by (relation "measure (\<lambda>(sub, s). length s)") (auto simp: neq_Nil_conv)

declare py_remove_all.simps [simp del]

text \<open>The truth value of an optional string: \<open>None\<close> and the empty string are false.\<close>

fun truthy :: "pystr option \<Rightarrow> bool" where
  "truthy None = False"
| "truthy (Some s) = (s \<noteq> [])"

text \<open>\<open>a or b\<close> on optional strings.\<close>

definition py_or :: "pystr option \<Rightarrow> pystr option \<Rightarrow> pystr option" where
  "py_or a b = (if truthy a then a else b)"

definition hex_digit :: "nat \<Rightarrow> nat" where
  "hex_digit n = (if n < 10 then 48 + n else 87 + n)"

text \<open>\<open>n\<close> in lower-case hexadecimal, padded to \<open>k\<close> digits.\<close>

fun hex_pad :: "nat \<Rightarrow> nat \<Rightarrow> pystr" where
  "hex_pad 0 n = []"
| "hex_pad (Suc k) n = hex_pad k (n div 16) @ [hex_digit (n mod 16)]"

text \<open>\<open>repr\<close> of a string, which the message of \<open>InvalidEmailError\<close> shows.\<close>

definition repr_char :: "unicode \<Rightarrow> nat \<Rightarrow> nat \<Rightarrow> pystr" where
  "repr_char U q c =
     (if c = q \<or> c = 92 then [92, c]
      else if c = 9 then [92, 116] else if c = 10 then [92, 110] else if c = 13 then [92, 114]
      else if c < 32 \<or> c = 127 then [92, 120] @ hex_pad 2 c
      else if c < 127 then [c]
      else if u_printable U c then [c]
      else if c < 256 then [92, 120] @ hex_pad 2 c
      else if c < 65536 then [92, 117] @ hex_pad 4 c
      else [92, 85] @ hex_pad 8 c)"

definition py_repr :: "unicode \<Rightarrow> pystr \<Rightarrow> pystr" where
  "py_repr U s =
     (let q = (if 39 \<in> set s \<and> 34 \<notin> set s then 34 else 39)
      in [q] @ concat (map (repr_char U q) s) @ [q])"

text \<open>\<open>str(n)\<close> of an integer.\<close>

fun str_nat :: "nat \<Rightarrow> pystr" where
  "str_nat n = (if n < 10 then [48 + n] else str_nat (n div 10) @ [48 + n mod 10])"

declare str_nat.simps [simp del]

definition str_int :: "int \<Rightarrow> pystr" where
  "str_int i = (if i < 0 then 45 # str_nat (nat (- i)) else str_nat (nat i))"

text \<open>The value of a run of decimal digits.\<close>

definition digits_val :: "pystr \<Rightarrow> nat" where
  "digits_val s = foldl (\<lambda>a c. 10 * a + (c - 48)) 0 s"

section \<open>Exceptions\<close>

text \<open>
  The nine classes of \<open>auth_service/domain/exceptions.py\<close> carry their message, which the
  GraphQL resolvers show; then the rate limiter's exception, the built-in ones the code can
  raise, and \<open>ExternalError\<close> for whatever a library or a server reports.
\<close>

datatype exn =
    InvalidEmailError pystr
  | WeakPasswordError pystr
  | UserAlreadyExistsError pystr
  | UserNotFoundError pystr
  | InvalidCredentialsError pystr
  | TokenExpiredError pystr
  | TokenAlreadyUsedError pystr
  | TokenNotFoundError pystr
  | InvalidTokenError pystr
  | RateLimitExceededError int pystr
  | StrawberryGraphQLError pystr
  | ValueError
  | UnicodeEncodeError
  | KeyError
  | TypeError
  | AttributeError
  | RuntimeError pystr
  | MultipleResultsFound
  | ExternalError pystr

text \<open>\<open>UnicodeEncodeError\<close> is a subclass of \<open>ValueError\<close>.\<close>

definition is_ValueError :: "exn \<Rightarrow> bool" where
  "is_ValueError e \<longleftrightarrow> e = ValueError \<or> e = UnicodeEncodeError"

section \<open>UTF-8\<close>

definition is_surrogate :: "nat \<Rightarrow> bool" where
  "is_surrogate c \<longleftrightarrow> 0xD800 \<le> c \<and> c \<le> 0xDFFF"

definition utf8_char :: "nat \<Rightarrow> nat list" where
  "utf8_char c =
     (if c < 0x80 then [c]
      else if c < 0x800 then [0xC0 + c div 64, 0x80 + c mod 64]
      else if c < 0x10000 then [0xE0 + c div 4096, 0x80 + (c div 64) mod 64, 0x80 + c mod 64]
      else [0xF0 + c div 262144, 0x80 + (c div 4096) mod 64, 0x80 + (c div 64) mod 64,
            0x80 + c mod 64])"

text \<open>The code point a lead byte and its continuation bytes stand for, and how many they are.\<close>

definition utf8_lead :: "nat \<Rightarrow> nat list \<Rightarrow> nat \<times> nat" where
  "utf8_lead b bs =
     (if b < 0x80 then (b, 0)
      else if b < 0xE0 then ((b - 0xC0) * 64 + (bs ! 0 - 0x80), 1)
      else if b < 0xF0 then ((b - 0xE0) * 4096 + (bs ! 0 - 0x80) * 64 + (bs ! 1 - 0x80), 2)
      else ((b - 0xF0) * 262144 + (bs ! 0 - 0x80) * 4096 + (bs ! 1 - 0x80) * 64 + (bs ! 2 - 0x80), 3))"

text \<open>\<open>s.encode()\<close>: a lone surrogate cannot be encoded.\<close>

definition py_encode :: "pystr \<Rightarrow> exn + nat list" where
  "py_encode s =
     (if \<exists>c\<in>set s. is_surrogate c then Inl UnicodeEncodeError
      else Inr (concat (map utf8_char s)))"

text \<open>Text that can be encoded, and text that a truth test takes for true as well.\<close>

definition py_text :: "pystr \<Rightarrow> bool" where
  "py_text s \<longleftrightarrow> list_all (\<lambda>c. \<not> is_surrogate c) s"

definition token_text :: "pystr \<Rightarrow> bool" where
  "token_text s \<longleftrightarrow> s \<noteq> [] \<and> py_text s"

section \<open>Coroutines over a state\<close>

type_synonym ('s, 'a) act = "'s \<Rightarrow> (exn + 'a) \<times> 's"

definition ret :: "'a \<Rightarrow> ('s, 'a) act" where
  "ret x s = (Inr x, s)"

definition raise_exn :: "exn \<Rightarrow> ('s, 'a) act" where
  "raise_exn e s = (Inl e, s)"

definition bnd :: "('s, 'a) act \<Rightarrow> ('a \<Rightarrow> ('s, 'b) act) \<Rightarrow> ('s, 'b) act" where
  "bnd m f s = (case m s of (Inl e, s') \<Rightarrow> (Inl e, s') | (Inr x, s') \<Rightarrow> f x s')"

text \<open>A pure fallible computation.\<close>

definition lift_res :: "exn + 'a \<Rightarrow> ('s, 'a) act" where
  "lift_res r s = (r, s)"

text \<open>\<open>try: m / except Exception: pass\<close>\<close>

definition swallow :: "('s, unit) act \<Rightarrow> ('s, unit) act" where
  "swallow m s = (Inr (), snd (m s))"

text \<open>\<open>try: m / except ...\<close>, with the clauses as a function of the exception.\<close>

definition catch :: "('s, 'a) act \<Rightarrow> (exn \<Rightarrow> ('s, 'a) act) \<Rightarrow> ('s, 'a) act" where
  "catch m h s = (case m s of (Inl e, s') \<Rightarrow> h e s' | (Inr x, s') \<Rightarrow> (Inr x, s'))"

text \<open>\<open>for x in xs: m(x)\<close>, stopped by the first exception.\<close>

fun for_each :: "('b \<Rightarrow> ('s, unit) act) \<Rightarrow> 'b list \<Rightarrow> ('s, unit) act" where
  "for_each m [] = ret ()"
| "for_each m (x # xs) = bnd (m x) (\<lambda>_. for_each m xs)"

declare ret_def [act_simps] raise_exn_def [act_simps] lift_res_def [act_simps] swallow_def [act_simps]


section \<open>Laws of the effect combinators\<close>

lemma bnd_Inr [simp]: "m s = (Inr x, s') \<Longrightarrow> bnd m f s = f x s'"
  by (simp add: bnd_def)

lemma bnd_Inl [simp]: "m s = (Inl e, s') \<Longrightarrow> bnd m f s = (Inl e, s')"
  by (simp add: bnd_def)

lemma catch_Inr [simp]: "m s = (Inr x, s') \<Longrightarrow> catch m h s = (Inr x, s')"
  by (simp add: catch_def)

lemma catch_Inl [simp]: "m s = (Inl e, s') \<Longrightarrow> catch m h s = h e s'"
  by (simp add: catch_def)

lemma bnd_ret [simp]: "bnd (ret x) f = f x"
  by (rule ext) (simp add: bnd_def ret_def)

lemma bnd_raise [simp]: "bnd (raise_exn e) f = raise_exn e"
  by (rule ext) (simp add: bnd_def raise_exn_def)

lemma bnd_lift_Inr [simp]: "bnd (lift_res (Inr x)) f = f x"
  by (rule ext) (simp add: bnd_def lift_res_def)

lemma bnd_lift_Inl [simp]: "bnd (lift_res (Inl e)) f = raise_exn e"
  by (rule ext) (simp add: bnd_def lift_res_def raise_exn_def)

lemma bnd_assoc: "bnd (bnd m f) g = bnd m (\<lambda>x. bnd (f x) g)"
  by (rule ext) (simp add: bnd_def split: prod.splits sum.splits)

lemma bnd_InrE:
  assumes "bnd m f s = (Inr y, t)"
  obtains x s' where "m s = (Inr x, s')" and "f x s' = (Inr y, t)"
  using assms by (auto simp: bnd_def split: prod.splits sum.splits)

lemma bnd_InlE:
  assumes "bnd m f s = (Inl e, t)"
  obtains "m s = (Inl e, t)" | x s' where "m s = (Inr x, s')" and "f x s' = (Inl e, t)"
  using assms by (auto simp: bnd_def split: prod.splits sum.splits)

text \<open>A loop keeps what each round keeps, whether or not it is cut short.\<close>

lemma for_each_inv:
  assumes "P s" and "\<And>x s. x \<in> set xs \<Longrightarrow> P s \<Longrightarrow> P (snd (m x s))"
  shows "P (snd (for_each m xs s))"
  using assms
proof (induction xs arbitrary: s)
  case Nil
  then show ?case by (simp add: ret_def)
next
  case (Cons x xs)
  have "P (snd (m x s))" using Cons.prems by simp
  then show ?case using Cons.IH Cons.prems(2)
    by (auto simp: bnd_def split: prod.splits sum.splits)
qed

text \<open>A loop of rounds that never raise ends normally.\<close>

lemma for_each_total:
  assumes "\<And>x s. x \<in> set xs \<Longrightarrow> Q s \<Longrightarrow> fst (m x s) = Inr () \<and> Q (snd (m x s))" and "Q s"
  shows "fst (for_each m xs s) = Inr ()"
  using assms
proof (induction xs arbitrary: s)
  case Nil
  then show ?case by (simp add: ret_def)
next
  case (Cons x xs)
  obtain s' where "m x s = (Inr (), s')" "Q s'"
    using Cons.prems(1)[of x s] Cons.prems(2) by (cases "m x s") auto
  then show ?case using Cons.IH[of s'] Cons.prems(1) by simp
qed

section \<open>Laws of strings\<close>

lemma lit_append: "lit (a @ b) = lit a @ lit b"
  by (simp add: lit_def)

lemma length_lit [simp]: "length (lit s) = length s"
  by (simp add: lit_def)

lemma lit_Nil [simp]: "lit [] = []"
  by (simp add: lit_def)

lemma inj_of_char_nat: "inj (of_char :: char \<Rightarrow> nat)"
  by (rule injI) simp

lemma lit_inj [simp]: "lit a = lit b \<longleftrightarrow> a = b"
  by (simp add: lit_def inj_map_eq_map[OF inj_of_char_nat])

lemma strip_no_space:
  assumes "\<forall>c\<in>set s. \<not> py_isspace U c"
  shows "py_strip U s = s"
proof -
  have "dropWhile (py_isspace U) t = t" if "\<forall>c\<in>set t. \<not> py_isspace U c" for t
    using that by (cases t) auto
  from this[of s] this[of "rev s"] show ?thesis
    using assms by (simp add: py_strip_def py_rstrip_def py_lstrip_def)
qed

lemma dropWhile_eq_suffix: "\<exists>p. s = p @ dropWhile P s \<and> (\<forall>c\<in>set p. P c)"
  by (metis set_takeWhileD takeWhile_dropWhile_id)

text \<open>Stripping cuts white space off both ends and nothing else.\<close>

lemma strip_decomp:
  obtains l r where "s = l @ py_strip U s @ r"
    and "\<forall>c\<in>set l. py_isspace U c" and "\<forall>c\<in>set r. py_isspace U c"
proof -
  obtain l where l: "s = l @ py_lstrip U s" "\<forall>c\<in>set l. py_isspace U c"
    using dropWhile_eq_suffix[of s "py_isspace U"] by (auto simp: py_lstrip_def)
  obtain r where r: "rev (py_lstrip U s) = r @ dropWhile (py_isspace U) (rev (py_lstrip U s))"
      "\<forall>c\<in>set r. py_isspace U c"
    using dropWhile_eq_suffix[of "rev (py_lstrip U s)" "py_isspace U"] by blast
  have "py_lstrip U s = py_strip U s @ rev r"
    using arg_cong[OF r(1), of rev] by (simp add: py_strip_def py_rstrip_def)
  then show thesis using that[of l "rev r"] l r(2) by simp
qed

lemma strip_subset: "set (py_strip U s) \<subseteq> set s"
  using strip_decomp[of s U] by (metis Un_upper1 Un_upper2 order.trans set_append)

lemma last_dropWhile: "dropWhile P xs \<noteq> [] \<Longrightarrow> last (dropWhile P xs) = last xs"
  by (metis dropWhile_eq_suffix last_appendR)

lemma strip_ends:
  assumes "py_strip U s \<noteq> []"
  shows "\<not> py_isspace U (hd (py_strip U s))" and "\<not> py_isspace U (last (py_strip U s))"
proof -
  let ?t = "py_lstrip U s" and ?d = "dropWhile (py_isspace U) (rev (py_lstrip U s))"
  have d: "?d \<noteq> []" using assms by (simp add: py_strip_def py_rstrip_def)
  then have t: "?t \<noteq> []" by auto
  have "hd (py_strip U s) = hd ?t"
    using d t last_dropWhile[OF d] by (simp add: py_strip_def py_rstrip_def hd_rev last_rev)
  then show "\<not> py_isspace U (hd (py_strip U s))"
    using hd_dropWhile[of "py_isspace U" s] t by (simp add: py_lstrip_def)
  show "\<not> py_isspace U (last (py_strip U s))"
    using hd_dropWhile[OF d] by (simp add: py_strip_def py_rstrip_def last_rev)
qed

lemma lower_from_cases:
  assumes "d \<in> set (py_lower_from U pre s)"
  shows "\<exists>c\<in>set s. \<exists>p q. d \<in> set (lower_at U p c q)"
  using assms by (induction s arbitrary: pre) auto

text \<open>The laws of the tables, one at a time.\<close>

lemma unicode_lower_range:
  "unicode_ok U \<Longrightarrow> 128 \<le> c \<Longrightarrow> d \<in> set (u_lower U c) \<Longrightarrow> 128 \<le> d \<or> (97 \<le> d \<and> d \<le> 122)"
  unfolding unicode_ok_def by blast

lemma unicode_lower_space: "unicode_ok U \<Longrightarrow> 128 \<le> c \<Longrightarrow> u_space U c \<Longrightarrow> u_lower U c = [c]"
  unfolding unicode_ok_def by blast

lemma unicode_lower_not_space:
  "unicode_ok U \<Longrightarrow> 128 \<le> c \<Longrightarrow> \<not> u_space U c \<Longrightarrow> d \<in> set (u_lower U c) \<Longrightarrow> 128 \<le> d \<Longrightarrow>
   \<not> u_space U d"
  unfolding unicode_ok_def by blast

lemma unicode_lower_nonempty:
  "unicode_ok U \<Longrightarrow> 128 \<le> c \<Longrightarrow> u_lower U c \<noteq> []"
  unfolding unicode_ok_def by (metis list.distinct(1))

lemma unicode_sigma_not_space:
  "unicode_ok U \<Longrightarrow> \<not> u_space U 0x3A3 \<and> \<not> u_space U 0x3C2 \<and> \<not> u_space U 0x3C3"
  unfolding unicode_ok_def by blast

lemma lower_at_no_upper:
  "unicode_ok U \<Longrightarrow> d \<in> set (lower_at U p c q) \<Longrightarrow> \<not> ascii_upper d"
  by (auto simp: lower_at_def ascii_upper_def split: if_splits dest: unicode_lower_range[OF _ leI])

lemma lower_no_upper:
  "unicode_ok U \<Longrightarrow> d \<in> set (py_lower U s) \<Longrightarrow> \<not> ascii_upper d"
  unfolding py_lower_def by (blast dest: lower_from_cases lower_at_no_upper)

text \<open>Lower-casing neither makes white space nor loses any.\<close>

lemma lower_at_space:
  "unicode_ok U \<Longrightarrow> py_isspace U c \<Longrightarrow> lower_at U p c q = [c]"
  using unicode_sigma_not_space[of U]
  by (auto simp: lower_at_def py_isspace_def unicode_lower_space ascii_upper_def split: if_splits)

lemma lower_at_not_space:
  assumes "unicode_ok U" and "\<not> py_isspace U c" and "d \<in> set (lower_at U p c q)"
  shows "\<not> py_isspace U d"
proof (cases "c < 128 \<or> c = 0x3A3")
  case True
  then show ?thesis using assms unicode_sigma_not_space[of U]
    by (auto simp: lower_at_def py_isspace_def ascii_upper_def split: if_splits)
next
  case False
  then have "d \<in> set (u_lower U c)" "\<not> u_space U c" "128 \<le> c"
    using assms(2,3) by (auto simp: lower_at_def py_isspace_def)
  then have "128 \<le> d \<and> \<not> u_space U d \<or> 97 \<le> d \<and> d \<le> 122"
    using assms(1) unicode_lower_range unicode_lower_not_space by blast
  then show ?thesis by (auto simp: py_isspace_def)
qed

lemma lower_at_nonempty: "unicode_ok U \<Longrightarrow> lower_at U p c q \<noteq> []"
  by (simp add: lower_at_def unicode_lower_nonempty)

lemma lower_from_fixed:
  "(\<forall>c\<in>set s. c < 128 \<and> \<not> ascii_upper c) \<Longrightarrow> py_lower_from U pre s = s"
  by (induction s arbitrary: pre) (auto simp: lower_at_def)

lemma lower_fixed:
  "(\<forall>c\<in>set s. c < 128 \<and> \<not> ascii_upper c) \<Longrightarrow> py_lower U s = s"
  by (simp add: py_lower_def lower_from_fixed)

lemma split1_join:
  "sep \<notin> set a \<Longrightarrow> py_split1 sep (a @ sep # b) = [a, b]"
  by (auto simp: py_split1_def takeWhile_append dropWhile_append)

lemma split1_none: "sep \<notin> set s \<Longrightarrow> py_split1 sep s = [s]"
  by (simp add: py_split1_def)

lemma startswith_append [simp]: "py_startswith (p @ s) p"
  by (simp add: py_startswith_def)

lemma startswith_iff: "py_startswith s p \<longleftrightarrow> (\<exists>t. s = p @ t)"
  by (metis append_eq_conv_conj py_startswith_def append_take_drop_id)

lemma removeprefix_append [simp]: "py_removeprefix (p @ s) p = s"
  by (simp add: py_removeprefix_def)

lemma remove_all_absent:
  assumes "c \<notin> set s"
  shows "py_remove_all (c # sub) s = s"
  using assms
proof (induction s)
  case Nil
  then show ?case by (simp add: py_remove_all.simps)
next
  case (Cons d s)
  then show ?case
    by (subst py_remove_all.simps) (simp add: py_startswith_def)
qed

lemma remove_all_single: "py_remove_all [c] s = filter (\<lambda>d. d \<noteq> c) s"
proof (induction s)
  case Nil
  then show ?case by (simp add: py_remove_all.simps)
next
  case (Cons d s)
  then show ?case
    by (subst py_remove_all.simps) (simp add: py_startswith_def)
qed

text \<open>A list is split in one way at the first occurrence of an element.\<close>

lemma split_first:
  assumes "x \<notin> set a" and "x \<notin> set b" and "a @ x # s = b @ x # t"
  shows "a = b \<and> s = t"
proof -
  have "x \<notin> set y \<Longrightarrow> takeWhile (\<lambda>c. c \<noteq> x) (y @ x # z) = y" for y z by (induction y) auto
  then have "a = b" using assms by metis
  then show ?thesis using assms(3) by simp
qed

section \<open>Laws of numerals and encodings\<close>

lemma str_nat_digits: "c \<in> set (str_nat n) \<Longrightarrow> 48 \<le> c \<and> c \<le> 57"
proof (induction n rule: str_nat.induct)
  case (1 n)
  then show ?case by (subst (asm) (2) str_nat.simps) (auto split: if_splits)
qed

lemma digits_val_append: "digits_val (s @ [48 + d]) = 10 * digits_val s + d"
  by (simp add: digits_val_def)

lemma digits_val_str_nat: "digits_val (str_nat n) = n"
proof (induction n rule: str_nat.induct)
  case (1 n)
  show ?case
  proof (cases "n < 10")
    case True
    then show ?thesis by (subst str_nat.simps) (simp add: digits_val_def)
  next
    case False
    then show ?thesis using 1 by (subst str_nat.simps) (simp add: digits_val_append)
  qed
qed

lemma str_nat_nonempty: "str_nat n \<noteq> []"
  by (subst str_nat.simps) simp

lemma length_hex_pad [simp]: "length (hex_pad k n) = k"
  by (induction k arbitrary: n) simp_all

definition is_hex :: "nat \<Rightarrow> bool" where
  "is_hex c \<longleftrightarrow> (48 \<le> c \<and> c \<le> 57) \<or> (97 \<le> c \<and> c \<le> 102)"

lemma hex_digit_is_hex: "n < 16 \<Longrightarrow> is_hex (hex_digit n)"
  by (auto simp: is_hex_def hex_digit_def)

lemma hex_pad_is_hex: "c \<in> set (hex_pad k n) \<Longrightarrow> is_hex c"
  by (induction k arbitrary: n) (auto simp: hex_digit_is_hex)

lemma utf8_char_ascii: "c < 128 \<Longrightarrow> utf8_char c = [c]"
  by (simp add: utf8_char_def)

lemma encode_ascii:
  assumes "\<forall>c\<in>set s. c < 128"
  shows "py_encode s = Inr s"
proof -
  have "concat (map utf8_char s) = s" using assms by (induction s) (auto simp: utf8_char_ascii)
  moreover have "\<not> (\<exists>c\<in>set s. is_surrogate c)" using assms by (auto simp: is_surrogate_def)
  ultimately show ?thesis by (simp add: py_encode_def)
qed

lemma py_text_iff: "py_text s \<longleftrightarrow> (\<exists>b. py_encode s = Inr b)"
  by (auto simp: py_text_def py_encode_def list_all_iff)

lemma py_text_append [simp]: "py_text (s @ t) \<longleftrightarrow> py_text s \<and> py_text t"
  by (simp add: py_text_def)

lemma py_text_simps [simp]: "py_text []" "py_text (c # s) \<longleftrightarrow> \<not> is_surrogate c \<and> py_text s"
  by (simp_all add: py_text_def)

lemma py_text_ascii: "(\<And>c. c \<in> set s \<Longrightarrow> c < 128) \<Longrightarrow> py_text s"
  by (fastforce simp: py_text_def list_all_iff is_surrogate_def)

lemma py_text_lit [simp]: "py_text (lit s)"
proof -
  have "(of_char c :: nat) < 256" for c :: char by simp
  then have "(of_char c :: nat) < 55296" for c :: char by (rule order.strict_trans) simp
  then show ?thesis by (simp add: py_text_def lit_def list_all_iff is_surrogate_def not_le)
qed

lemma token_textD: "token_text s \<Longrightarrow> s \<noteq> []" "token_text s \<Longrightarrow> py_text s"
  by (simp_all add: token_text_def)

lemma utf8_char_nonempty: "utf8_char c \<noteq> []"
  by (simp add: utf8_char_def)

lemma length_encode_ge:
  assumes "py_encode s = Inr b"
  shows "length s \<le> length b"
proof -
  have "length s \<le> length (concat (map utf8_char s))"
  proof (induction s)
    case (Cons c s)
    have "1 \<le> length (utf8_char c)" by (simp add: utf8_char_def)
    then show ?case using Cons by (simp del: One_nat_def)
  qed simp
  then show ?thesis using assms by (auto simp: py_encode_def split: if_splits)
qed

text \<open>UTF-8 is a prefix code, so different strings have different encodings.\<close>

lemma div_mod_eq64: "(c::nat) div 64 = d div 64 \<Longrightarrow> c mod 64 = d mod 64 \<Longrightarrow> c = d"
  by (metis div_mult_mod_eq)

lemma div_mod_eq4096:
  "(c::nat) div 4096 = d div 4096 \<Longrightarrow> c div 64 mod 64 = d div 64 mod 64 \<Longrightarrow>
   c mod 64 = d mod 64 \<Longrightarrow> c = d"
  by (rule div_mod_eq64) (auto intro: div_mod_eq64 simp: div_mult2_eq[symmetric])

lemma div_mod_eq262144:
  "(c::nat) div 262144 = d div 262144 \<Longrightarrow> c div 4096 mod 64 = d div 4096 mod 64 \<Longrightarrow>
   c div 64 mod 64 = d div 64 mod 64 \<Longrightarrow> c mod 64 = d mod 64 \<Longrightarrow> c = d"
  by (rule div_mod_eq4096) (auto intro: div_mod_eq64 simp: div_mult2_eq[symmetric])

lemma utf8_char_prefix_code:
  assumes "c < 0x110000" and "d < 0x110000" and "utf8_char c @ xs = utf8_char d @ ys"
  shows "c = d \<and> xs = ys"
  using assms
  by (auto simp: utf8_char_def split: if_splits
      intro: div_mod_eq64 div_mod_eq4096 div_mod_eq262144)

lemma concat_utf8_inj:
  assumes "\<forall>c\<in>set s. c < 0x110000" and "\<forall>c\<in>set t. c < 0x110000"
    and "concat (map utf8_char s) = concat (map utf8_char t)"
  shows "s = t"
  using assms
proof (induction s arbitrary: t)
  case Nil
  then show ?case by (cases t) (auto simp: utf8_char_nonempty)
next
  case (Cons c s)
  have "t \<noteq> []" using Cons.prems(3) by (auto simp: utf8_char_nonempty)
  then obtain d t' where t: "t = d # t'" by (cases t) simp_all
  have cd: "c < 0x110000" "d < 0x110000"
    using Cons.prems(1,2) unfolding t by (meson list.set_intros(1))+
  have "utf8_char c @ concat (map utf8_char s) = utf8_char d @ concat (map utf8_char t')"
    using Cons.prems(3) unfolding t by (simp only: list.map concat.simps)
  from utf8_char_prefix_code[OF cd this]
  have "c = d \<and> concat (map utf8_char s) = concat (map utf8_char t')" .
  then show ?case using Cons.IH[of t'] Cons.prems(1,2) unfolding t by simp
qed

lemma encode_inj:
  assumes "\<forall>c\<in>set s. c < 0x110000" and "\<forall>c\<in>set t. c < 0x110000"
    and "py_encode s = Inr b" and "py_encode t = Inr b"
  shows "s = t"
  using assms by (auto simp: py_encode_def split: if_splits intro: concat_utf8_inj)

end
