(* ===== verification/PyUuid.thy ===== *)
theory PyUuid
  imports PyBase "HOL-Library.Word"
begin

text \<open>
  The module \<open>uuid\<close> as far as the service uses it: the canonical text of a UUID and the
  constructor \<open>UUID(text)\<close> with its normalisation and its call of \<open>int(text, 16)\<close>. The
  service writes the canonical text into Redis keys, payloads and JWT claims and reads it
  back with the constructor, so the round trip carries every lookup.
\<close>

type_synonym uuid = "128 word"

definition str_uuid :: "uuid \<Rightarrow> pystr" where
  "str_uuid u =
     (let h = hex_pad 32 (unat u)
      in take 8 h @ [45] @ take 4 (drop 8 h) @ [45] @ take 4 (drop 12 h) @ [45]
           @ take 4 (drop 16 h) @ [45] @ drop 20 h)"

subsection \<open>int(text, 16)\<close>

definition int_ascii :: "unicode \<Rightarrow> nat \<Rightarrow> nat" where
  "int_ascii U c =
     (if c < 127 then c else if py_isspace U c then 32
      else (case u_decimal U c of Some d \<Rightarrow> 48 + d | None \<Rightarrow> 63))"

definition c_space :: "nat \<Rightarrow> bool" where
  "c_space c \<longleftrightarrow> c = 32 \<or> (9 \<le> c \<and> c \<le> 13)"

definition strip_if :: "(nat \<Rightarrow> bool) \<Rightarrow> pystr \<Rightarrow> pystr" where
  "strip_if P s = rev (dropWhile P (rev (dropWhile P s)))"

definition hex_val :: "nat \<Rightarrow> nat option" where
  "hex_val c =
     (if 48 \<le> c \<and> c \<le> 57 then Some (c - 48)
      else if 97 \<le> c \<and> c \<le> 102 then Some (c - 87)
      else if 65 \<le> c \<and> c \<le> 70 then Some (c - 55) else None)"

text \<open>Digits with single underscores between them; \<open>ok\<close>: the last character was a digit.\<close>

fun digits16 :: "bool \<Rightarrow> nat \<Rightarrow> pystr \<Rightarrow> nat option" where
  "digits16 ok acc [] = (if ok then Some acc else None)"
| "digits16 ok acc (c # cs) =
     (if c = 95 then (if ok then digits16 False acc cs else None)
      else (case hex_val c of Some v \<Rightarrow> digits16 True (16 * acc + v) cs | None \<Rightarrow> None))"

definition drop_sign :: "pystr \<Rightarrow> pystr" where
  "drop_sign t = (if t \<noteq> [] \<and> (hd t = 43 \<or> hd t = 45) then tl t else t)"

definition drop_base :: "pystr \<Rightarrow> pystr" where
  "drop_base t =
     (if py_startswith t [48, 120] \<or> py_startswith t [48, 88]
      then (if py_startswith (drop 2 t) [95] then drop 3 t else drop 2 t) else t)"

definition int16 :: "unicode \<Rightarrow> pystr \<Rightarrow> int option" where
  "int16 U s =
     (let t = strip_if c_space (map (int_ascii U) s)
      in (case digits16 False 0 (drop_base (drop_sign t)) of
            None \<Rightarrow> None
          | Some n \<Rightarrow> Some (if t \<noteq> [] \<and> hd t = 45 then - int n else int n)))"

subsection \<open>UUID(text)\<close>

definition UUID :: "unicode \<Rightarrow> pystr \<Rightarrow> exn + uuid" where
  "UUID U s =
     (let h0 = py_remove_all (lit ''uuid:'') (py_remove_all (lit ''urn:'') s);
          h = py_remove_all [45] (strip_if (\<lambda>c. c = 123 \<or> c = 125) h0)
      in if length h \<noteq> 32 then Inl ValueError
         else (case int16 U h of
                 None \<Rightarrow> Inl ValueError
               | Some i \<Rightarrow> if 0 \<le> i \<and> i < 2 ^ 128 then Inr (word_of_int i) else Inl ValueError))"

subsection \<open>The round trip\<close>

lemma hex_val_digit: "n < 16 \<Longrightarrow> hex_val (hex_digit n) = Some n"
  by (auto simp: hex_val_def hex_digit_def)

lemma is_hex_hex_val: "is_hex c \<Longrightarrow> \<exists>v. hex_val c = Some v \<and> c \<noteq> 95"
  by (auto simp: is_hex_def hex_val_def)

lemma is_hex_lt: "is_hex c \<Longrightarrow> c < 127"
  by (auto simp: is_hex_def)

lemma digits16_append:
  assumes "\<forall>c\<in>set xs. is_hex c" and "xs \<noteq> [] \<or> ok"
  shows "digits16 ok acc (xs @ ys) = digits16 True (the (digits16 True acc xs)) ys"
  using assms
proof (induction xs arbitrary: ok acc)
  case Nil
  then show ?case by simp
next
  case (Cons c xs)
  obtain v where v: "hex_val c = Some v" "c \<noteq> 95" using is_hex_hex_val Cons.prems(1) by fastforce
  then show ?case using Cons.IH[of True "16 * acc + v"] Cons.prems by simp
qed

lemma digits16_hex_pad: "digits16 True acc (hex_pad k n) = Some (acc * 16 ^ k + n mod 16 ^ k)"
proof (induction k arbitrary: n)
  case 0
  then show ?case by simp
next
  case (Suc k)
  have hex: "\<forall>c\<in>set (hex_pad k (n div 16)). is_hex c" using hex_pad_is_hex by blast
  have v: "hex_val (hex_digit (n mod 16)) = Some (n mod 16)" by (simp add: hex_val_digit)
  have n95: "hex_digit (n mod 16) \<noteq> 95" by (auto simp: hex_digit_def)
  have "16 * (n div 16 mod 16 ^ k) + n mod 16 = n mod 16 ^ Suc k"
    by (simp add: mod_mult2_eq)
  then show ?case
    using Suc[of "n div 16"] v n95 by (simp add: digits16_append[OF hex] algebra_simps)
qed

lemma digits16_hex_pad_start:
  assumes "0 < k"
  shows "digits16 False 0 (hex_pad k n) = Some (n mod 16 ^ k)"
proof -
  have "\<forall>c\<in>set (hex_pad k n). is_hex c" using hex_pad_is_hex by blast
  moreover have "hex_pad k n \<noteq> []" using assms by (metis length_hex_pad length_greater_0_conv)
  ultimately have "digits16 False 0 (hex_pad k n @ []) = digits16 True (the (digits16 True 0 (hex_pad k n))) []"
    by (intro digits16_append) auto
  then show ?thesis by (simp add: digits16_hex_pad)
qed

lemma strip_if_none: "(\<forall>c\<in>set s. \<not> P c) \<Longrightarrow> strip_if P s = s"
proof -
  have "dropWhile P t = t" if "\<forall>c\<in>set t. \<not> P c" for t
    using that by (cases t) auto
  from this[of s] this[of "rev s"] show "(\<forall>c\<in>set s. \<not> P c) \<Longrightarrow> strip_if P s = s"
    by (simp add: strip_if_def)
qed

lemma int16_hex_pad:
  assumes "1 < k"
  shows "int16 U (hex_pad k n) = Some (int (n mod 16 ^ k))"
proof -
  let ?h = "hex_pad k n"
  have hex: "is_hex c" if "c \<in> set ?h" for c using that hex_pad_is_hex by blast
  have "map (int_ascii U) ?h = ?h"
    by (rule map_idI) (use hex in \<open>simp add: int_ascii_def is_hex_lt\<close>)
  moreover have "strip_if c_space ?h = ?h"
    by (rule strip_if_none) (use hex in \<open>fastforce simp: c_space_def is_hex_def\<close>)
  moreover obtain a b t where abt: "?h = a # b # t"
    using assms length_hex_pad[of k n] by (cases ?h; cases "tl ?h") auto
  have "is_hex a" "is_hex b" using hex abt by auto
  then have sg: "a \<noteq> 43 \<and> a \<noteq> 45" and bx: "b \<noteq> 120 \<and> b \<noteq> 88" by (auto simp: is_hex_def)
  then have "drop_base (drop_sign ?h) = ?h"
    by (simp add: abt drop_sign_def drop_base_def py_startswith_def)
  ultimately show ?thesis using sg abt digits16_hex_pad_start[of k n] assms
    by (simp add: int16_def Let_def)
qed

lemma str_uuid_chars: "c \<in> set (str_uuid u) \<Longrightarrow> is_hex c \<or> c = 45"
  by (auto simp: str_uuid_def Let_def dest!: in_set_takeD in_set_dropD dest: hex_pad_is_hex)

lemma str_uuid_no_colon: "58 \<notin> set (str_uuid u)"
  using str_uuid_chars by (fastforce simp: is_hex_def)

lemma str_uuid_ascii: "c \<in> set (str_uuid u) \<Longrightarrow> c < 128"
  using str_uuid_chars by (fastforce simp: is_hex_def)

lemma length_str_uuid [simp]: "length (str_uuid u) = 36"
  by (simp add: str_uuid_def Let_def)

lemma py_text_uuid [simp]: "py_text (str_uuid u)"
  by (rule py_text_ascii) (rule str_uuid_ascii)

lemma str_uuid_nonempty [simp]: "str_uuid u \<noteq> []"
  by (metis length_str_uuid length_0_conv zero_neq_numeral)

lemma token_text_uuid [simp]: "token_text (str_uuid u)"
  by (simp add: token_text_def)

lemma take_drop_join: "take n (drop m xs) @ drop (m + n) xs = drop m xs"
  by (metis append_take_drop_id drop_drop add.commute)

lemma str_uuid_no_hyphens: "filter (\<lambda>d. d \<noteq> 45) (str_uuid u) = hex_pad 32 (unat u)"
proof -
  let ?h = "hex_pad 32 (unat u)"
  have keep: "filter (\<lambda>d. d \<noteq> 45) xs = xs" if "set xs \<subseteq> set ?h" for xs
    using that hex_pad_is_hex by (fastforce simp: filter_id_conv is_hex_def)
  have sub: "set (take n (drop m ?h)) \<subseteq> set ?h" for n m
    by (meson order.trans set_drop_subset set_take_subset)
  have "filter (\<lambda>d. d \<noteq> 45) (str_uuid u) =
      take 8 ?h @ take 4 (drop 8 ?h) @ take 4 (drop 12 ?h) @ take 4 (drop 16 ?h) @ drop 20 ?h"
    using keep[OF sub[of 8 0]] keep[OF sub[of 4 8]] keep[OF sub[of 4 12]] keep[OF sub[of 4 16]]
      keep[OF set_drop_subset[of 20 ?h]]
    by (simp add: str_uuid_def Let_def)
  also have "\<dots> = ?h"
    using take_drop_join[of 8 0 ?h] take_drop_join[of 4 8 ?h] take_drop_join[of 4 12 ?h]
      take_drop_join[of 4 16 ?h] by simp
  finally show ?thesis .
qed

theorem UUID_str: "UUID U (str_uuid u) = Inr u"
proof -
  have no: "117 \<notin> set (str_uuid u)" using str_uuid_chars by (fastforce simp: is_hex_def)
  have "py_remove_all (lit ''uuid:'') (py_remove_all (lit ''urn:'') (str_uuid u)) = str_uuid u"
    using no by (simp add: lit_def remove_all_absent)
  moreover have "strip_if (\<lambda>c. c = 123 \<or> c = 125) (str_uuid u) = str_uuid u"
    by (rule strip_if_none) (use str_uuid_chars in \<open>fastforce simp: is_hex_def\<close>)
  moreover have "unat u < 16 ^ 32" using unsigned_less[of u] by simp
  moreover have "uint u < 2 ^ 128" using uint_lt2p[of u] by simp
  ultimately show ?thesis
    by (simp add: UUID_def Let_def remove_all_single str_uuid_no_hyphens int16_hex_pad)
qed

lemma str_uuid_inj [simp]: "str_uuid u = str_uuid v \<longleftrightarrow> u = v"
  by (metis UUID_str sum.inject(2))

end
