(* ===== verification/PyJson.thy ===== *)
theory PyJson
  imports PyUuid "HOL-Library.List_Lexorder"
begin

text \<open>
  The module \<open>json\<close> as far as the service uses it: \<open>loads\<close> on text and on the bytes of a
  request, \<open>dumps\<close> with its default settings and with \<open>sort_keys\<close>. Floating-point numbers
  are a parameter, since the service never computes with them. Shown: the fuel of the
  scanner is enough for every text, reading what was written gives the value back, and the
  sorted text of two values is equal only for values that differ in the order of keys.
\<close>

section \<open>Values\<close>

datatype 'f json =
    JNull
  | JBool bool
  | JInt int
  | JFloat 'f
  | JStr pystr
  | JList "'f json list"
  | JObj "(pystr \<times> 'f json) list"

record 'f floats =
  fl_parse :: "pystr \<Rightarrow> 'f"
  fl_text :: "'f \<Rightarrow> pystr"
  fl_zero :: "'f \<Rightarrow> bool"

text \<open>\<open>d[k] = v\<close>: a key keeps its place.\<close>

fun dict_set :: "'k \<Rightarrow> 'v \<Rightarrow> ('k \<times> 'v) list \<Rightarrow> ('k \<times> 'v) list" where
  "dict_set k v [] = [(k, v)]"
| "dict_set k v ((k', v') # d) = (if k' = k then (k, v) # d else (k', v') # dict_set k v d)"

definition dict_of :: "('k \<times> 'v) list \<Rightarrow> ('k \<times> 'v) list" where
  "dict_of ps = foldl (\<lambda>d (k, v). dict_set k v d) [] ps"

section \<open>Reading\<close>

definition js_ws :: "nat \<Rightarrow> bool" where
  "js_ws c \<longleftrightarrow> c = 32 \<or> c = 9 \<or> c = 10 \<or> c = 13"

definition skip_ws :: "pystr \<Rightarrow> pystr" where
  "skip_ws s = dropWhile js_ws s"

definition high_surrogate :: "nat \<Rightarrow> bool" where
  "high_surrogate c \<longleftrightarrow> 0xD800 \<le> c \<and> c \<le> 0xDBFF"

definition low_surrogate :: "nat \<Rightarrow> bool" where
  "low_surrogate c \<longleftrightarrow> 0xDC00 \<le> c \<and> c \<le> 0xDFFF"

text \<open>Four hexadecimal digits.\<close>

definition hex4 :: "pystr \<Rightarrow> nat option" where
  "hex4 s =
     (if length s < 4 \<or> \<not> list_all (\<lambda>c. hex_val c \<noteq> None) (take 4 s) then None
      else Some (foldl (\<lambda>a c. 16 * a + the (hex_val c)) 0 (take 4 s)))"

definition unescape :: "nat \<Rightarrow> nat option" where
  "unescape e = map_of [(34, 34), (92, 92), (47, 47), (98, 8), (102, 12), (110, 10), (114, 13), (116, 9)] e"

definition push :: "nat \<Rightarrow> (pystr \<times> pystr) option \<Rightarrow> (pystr \<times> pystr) option" where
  "push c r = map_option (\<lambda>(x, s). (c # x, s)) r"

text \<open>A string after its opening quote: its value and the rest of the text.\<close>

function scanstring :: "pystr \<Rightarrow> (pystr \<times> pystr) option" where
  "scanstring s =
     (case s of
        [] \<Rightarrow> None
      | c # t \<Rightarrow>
          if c = 34 then Some ([], t)
          else if c < 32 then None
          else if c \<noteq> 92 then push c (scanstring t)
          else
            (case t of
               [] \<Rightarrow> None
             | e # u \<Rightarrow>
                 if e \<noteq> 117
                 then (case unescape e of None \<Rightarrow> None | Some d \<Rightarrow> push d (scanstring u))
                 else
                   (case hex4 u of
                      None \<Rightarrow> None
                    | Some a \<Rightarrow>
                        if high_surrogate a \<and> take 2 (drop 4 u) = [92, 117]
                        then
                          (case hex4 (drop 6 u) of
                             None \<Rightarrow> None
                           | Some b \<Rightarrow>
                               if low_surrogate b
                               then push (0x10000 + (a - 0xD800) * 1024 + (b - 0xDC00)) (scanstring (drop 10 u))
                               else push a (scanstring (drop 4 u)))
                        else push a (scanstring (drop 4 u)))))"
  by pat_completeness auto
termination by (relation "measure length") auto

declare scanstring.simps [simp del]

text \<open>A number: sign, integer part, fraction and exponent.\<close>

definition js_fraction :: "pystr \<Rightarrow> pystr" where
  "js_fraction s =
     (case s of
        [] \<Rightarrow> []
      | c # t \<Rightarrow> if c = 46 \<and> takeWhile ascii_digit t \<noteq> [] then c # takeWhile ascii_digit t else [])"

definition js_sign :: "pystr \<Rightarrow> pystr" where
  "js_sign s = (case s of [] \<Rightarrow> [] | c # _ \<Rightarrow> if c = 43 \<or> c = 45 then [c] else [])"

definition js_exponent :: "pystr \<Rightarrow> pystr" where
  "js_exponent s =
     (case s of
        [] \<Rightarrow> []
      | c # t \<Rightarrow>
          let d = takeWhile ascii_digit (drop (length (js_sign t)) t)
          in if (c = 101 \<or> c = 69) \<and> d \<noteq> [] then c # js_sign t @ d else [])"

definition js_integer :: "pystr \<Rightarrow> pystr" where
  "js_integer s = (if py_startswith s [48] then [48] else takeWhile ascii_digit s)"

definition js_minus :: "pystr \<Rightarrow> pystr" where
  "js_minus s = (if py_startswith s [45] then [45] else [])"

definition number_parts :: "pystr \<Rightarrow> pystr \<times> pystr \<times> pystr \<times> pystr \<times> pystr" where
  "number_parts s =
     (let sg = js_minus s; s1 = drop (length sg) s;
          ip = js_integer s1; s2 = drop (length ip) s1;
          fr = js_fraction s2; s3 = drop (length fr) s2;
          ex = js_exponent s3
      in (sg, ip, fr, ex, drop (length ex) s3))"

definition scan_number :: "'f floats \<Rightarrow> pystr \<Rightarrow> ('f json \<times> pystr) option" where
  "scan_number F s =
     (case number_parts s of
        (sg, ip, fr, ex, r) \<Rightarrow>
          if ip = [] then None
          else if fr \<noteq> [] \<or> ex \<noteq> [] then Some (JFloat (fl_parse F (sg @ ip @ fr @ ex)), r)
          else if length ip > 4300 then None
          else Some (JInt (if sg = [] then int (digits_val ip) else - int (digits_val ip)), r))"

text \<open>The three constants that are no numbers, then a number.\<close>

definition scan_word :: "'f floats \<Rightarrow> pystr \<Rightarrow> ('f json \<times> pystr) option" where
  "scan_word F s =
     (if py_startswith s (lit ''null'') then Some (JNull, drop 4 s)
      else if py_startswith s (lit ''true'') then Some (JBool True, drop 4 s)
      else if py_startswith s (lit ''false'') then Some (JBool False, drop 5 s)
      else if py_startswith s (lit ''NaN'') then Some (JFloat (fl_parse F (lit ''NaN'')), drop 3 s)
      else if py_startswith s (lit ''Infinity'') then Some (JFloat (fl_parse F (lit ''Infinity'')), drop 8 s)
      else if py_startswith s (lit ''-Infinity'') then Some (JFloat (fl_parse F (lit ''-Infinity'')), drop 9 s)
      else scan_number F s)"

text \<open>Values, the members of an object after a quote, the elements of a list.\<close>

fun scan_value :: "'f floats \<Rightarrow> nat \<Rightarrow> pystr \<Rightarrow> ('f json \<times> pystr) option"
  and scan_members :: "'f floats \<Rightarrow> nat \<Rightarrow> (pystr \<times> 'f json) list \<Rightarrow> pystr \<Rightarrow> ('f json \<times> pystr) option"
  and scan_elements :: "'f floats \<Rightarrow> nat \<Rightarrow> 'f json list \<Rightarrow> pystr \<Rightarrow> ('f json \<times> pystr) option"
where
  "scan_value F 0 s = None"
| "scan_value F (Suc n) s =
     (case s of
        [] \<Rightarrow> None
      | c # t \<Rightarrow>
          if c = 34 then map_option (\<lambda>(x, r). (JStr x, r)) (scanstring t)
          else if c = 123
          then (case skip_ws t of
                  [] \<Rightarrow> None
                | d # u \<Rightarrow>
                    if d = 125 then Some (JObj [], u) else if d = 34 then scan_members F n [] u else None)
          else if c = 91
          then (case skip_ws t of
                  [] \<Rightarrow> None
                | d # u \<Rightarrow> if d = 93 then Some (JList [], u) else scan_elements F n [] (d # u))
          else scan_word F s)"
| "scan_members F 0 acc s = None"
| "scan_members F (Suc n) acc s =
     (case scanstring s of
        None \<Rightarrow> None
      | Some (k, t) \<Rightarrow>
          (case skip_ws t of
             [] \<Rightarrow> None
           | c # u \<Rightarrow>
               if c \<noteq> 58 then None
               else
                 (case scan_value F n (skip_ws u) of
                    None \<Rightarrow> None
                  | Some (v, w) \<Rightarrow>
                      (case skip_ws w of
                         [] \<Rightarrow> None
                       | d # x \<Rightarrow>
                           if d = 125 then Some (JObj (dict_of (acc @ [(k, v)])), x)
                           else if d \<noteq> 44 then None
                           else (case skip_ws x of
                                   [] \<Rightarrow> None
                                 | q # y \<Rightarrow> if q = 34 then scan_members F n (acc @ [(k, v)]) y else None)))))"
| "scan_elements F 0 acc s = None"
| "scan_elements F (Suc n) acc s =
     (case scan_value F n s of
        None \<Rightarrow> None
      | Some (v, w) \<Rightarrow>
          (case skip_ws w of
             [] \<Rightarrow> None
           | d # x \<Rightarrow>
               if d = 93 then Some (JList (acc @ [v]), x)
               else if d \<noteq> 44 then None
               else scan_elements F n (acc @ [v]) (skip_ws x)))"

text \<open>\<open>json.loads(text)\<close>; \<open>JSONDecodeError\<close> is a \<open>ValueError\<close>.\<close>

definition json_fuel :: "pystr \<Rightarrow> nat" where
  "json_fuel s = 2 * length s + 2"

definition json_loads :: "'f floats \<Rightarrow> pystr \<Rightarrow> exn + 'f json" where
  "json_loads F s =
     (case scan_value F (json_fuel s) (skip_ws s) of
        None \<Rightarrow> Inl ValueError
      | Some (v, r) \<Rightarrow> if skip_ws r = [] then Inr v else Inl ValueError)"

section \<open>Writing\<close>

definition esc_char :: "nat \<Rightarrow> pystr" where
  "esc_char c =
     (if c = 34 \<or> c = 92 then [92, c]
      else if c = 10 then [92, 110] else if c = 13 then [92, 114] else if c = 9 then [92, 116]
      else if c = 12 then [92, 102] else if c = 8 then [92, 98]
      else if 32 \<le> c \<and> c \<le> 126 then [c]
      else if c < 0x10000 then [92, 117] @ hex_pad 4 c
      else [92, 117] @ hex_pad 4 (0xD800 + (c - 0x10000) div 1024) @
           [92, 117] @ hex_pad 4 (0xDC00 + (c - 0x10000) mod 1024))"

definition dump_str :: "pystr \<Rightarrow> pystr" where
  "dump_str s = [34] @ concat (map esc_char s) @ [34]"

fun join_sep :: "pystr \<Rightarrow> pystr list \<Rightarrow> pystr" where
  "join_sep sep [] = []"
| "join_sep sep [x] = x"
| "join_sep sep (x # xs) = x @ sep @ join_sep sep xs"

fun json_dumps :: "'f floats \<Rightarrow> 'f json \<Rightarrow> pystr" where
  "json_dumps F JNull = lit ''null''"
| "json_dumps F (JBool b) = (if b then lit ''true'' else lit ''false'')"
| "json_dumps F (JInt i) = str_int i"
| "json_dumps F (JFloat x) = fl_text F x"
| "json_dumps F (JStr s) = dump_str s"
| "json_dumps F (JList vs) = [91] @ join_sep (lit '', '') (map (json_dumps F) vs) @ [93]"
| "json_dumps F (JObj kvs) =
     [123] @ join_sep (lit '', '') (map (\<lambda>(k, v). dump_str k @ lit '': '' @ json_dumps F v) kvs) @ [125]"

text \<open>\<open>sort_keys\<close>: the keys of every object in the order of their code points.\<close>

fun sort_keys :: "'f json \<Rightarrow> 'f json" where
  "sort_keys (JList vs) = JList (map sort_keys vs)"
| "sort_keys (JObj kvs) = JObj (sort_key fst (map (\<lambda>(k, v). (k, sort_keys v)) kvs))"
| "sort_keys v = v"

definition json_dumps_sorted :: "'f floats \<Rightarrow> 'f json \<Rightarrow> pystr" where
  "json_dumps_sorted F v = json_dumps F (sort_keys v)"

section \<open>The scanner stops\<close>

lemma skip_ws_length: "length (skip_ws s) \<le> length s"
  by (simp add: skip_ws_def length_dropWhile_le)

lemma skip_ws_Cons: "skip_ws s = c # t \<Longrightarrow> length t < length s"
  using skip_ws_length[of s] by simp

lemma push_Some: "push c r = Some (x, s) \<longleftrightarrow> (\<exists>y. r = Some (y, s) \<and> x = c # y)"
  by (cases r) (auto simp: push_def)

lemma scanstring_length: "scanstring s = Some (x, r) \<Longrightarrow> length r < length s"
proof (induction s arbitrary: x r rule: length_induct)
  case (1 s)
  have IH: "scanstring t = Some (y, r) \<Longrightarrow> length t < length s \<Longrightarrow> length r < length s" for t y
    using "1.IH" by (meson less_trans)
  show ?case
    using "1.prems"
    by (subst (asm) scanstring.simps)
      (auto simp: push_Some split: list.splits if_splits option.splits dest!: IH)
qed

lemma number_prefixes:
  "js_minus s @ drop (length (js_minus s)) s = s" "js_integer s @ drop (length (js_integer s)) s = s"
  "js_fraction s @ drop (length (js_fraction s)) s = s" "js_exponent s @ drop (length (js_exponent s)) s = s"
proof -
  have take: "takeWhile P t @ drop (length (takeWhile P t)) t = t" for P and t :: pystr
    by (metis append_take_drop_id takeWhile_eq_take)
  have one: "py_startswith s [c] \<Longrightarrow> [c] @ drop (length [c]) s = s" for c
    by (auto simp: startswith_iff)
  show "js_minus s @ drop (length (js_minus s)) s = s" "js_integer s @ drop (length (js_integer s)) s = s"
    using one take by (auto simp: js_minus_def js_integer_def)
  show "js_fraction s @ drop (length (js_fraction s)) s = s"
    using take by (auto simp: js_fraction_def split: list.split)
  have "js_sign t @ takeWhile ascii_digit (drop (length (js_sign t)) t) @
      drop (length (js_sign t) + length (takeWhile ascii_digit (drop (length (js_sign t)) t))) t = t" for t
  proof -
    have "js_sign t @ drop (length (js_sign t)) t = t" by (auto simp: js_sign_def split: list.split)
    then show ?thesis using take[of ascii_digit "drop (length (js_sign t)) t"] by (metis drop_drop add.commute)
  qed
  then show "js_exponent s @ drop (length (js_exponent s)) s = s"
    by (auto simp: js_exponent_def Let_def split: list.split)
qed

lemma number_parts_join: "number_parts s = (sg, ip, fr, ex, r) \<Longrightarrow> s = sg @ ip @ fr @ ex @ r"
  by (auto simp: number_parts_def Let_def simp flip: drop_drop) (metis number_prefixes)

lemma scan_number_length: "scan_number F s = Some (v, r) \<Longrightarrow> length r < length s"
  by (cases "number_parts s") (auto simp: scan_number_def dest: number_parts_join split: if_splits)

lemma scan_word_length: "scan_word F s = Some (v, r) \<Longrightarrow> length r < length s"
proof -
  assume a: "scan_word F s = Some (v, r)"
  then have "s \<noteq> []"
    by (auto simp: scan_word_def scan_number_def number_parts_def js_minus_def js_integer_def py_startswith_def lit_def)
  then show ?thesis using a scan_number_length[of F s v r]
    by (auto simp: scan_word_def split: if_splits)
qed

lemma scan_length:
  "scan_value F n s = Some (v, r) \<Longrightarrow> length r < length s"
  "scan_members F n acc s = Some (v, r) \<Longrightarrow> length r < length s"
  "scan_elements F n vs s = Some (v, r) \<Longrightarrow> length r < length s"
proof (induction n arbitrary: s v r acc vs)
  case (Suc n)
  have skip: "scan_value F n (skip_ws s) = Some (v, r) \<Longrightarrow> length r < length s"
    "scan_elements F n vs (skip_ws s) = Some (v, r) \<Longrightarrow> length r < length s" for s v r vs
    using Suc.IH(1)[of "skip_ws s"] Suc.IH(3)[of vs "skip_ws s"] skip_ws_length[of s] by fastforce+
  {
    case 1
    then show ?case
      by (auto split: list.splits if_splits dest!: scanstring_length scan_word_length skip_ws_Cons Suc.IH(2,3))
  next
    case 2
    then show ?case
      by (auto split: list.splits if_splits option.splits dest!: scanstring_length skip_ws_Cons skip(1) Suc.IH(2))
  next
    case 3
    then show ?case
      by (auto split: list.splits if_splits option.splits dest!: skip_ws_Cons Suc.IH(1) skip(2))
  }
qed simp_all

text \<open>Fuel of twice the length and one is enough: more does not change the result.\<close>

lemma scan_fuel:
  "2 * length s + 1 \<le> n \<Longrightarrow> scan_value F (Suc n) s = scan_value F n s"
  "2 * length s + 2 \<le> n \<Longrightarrow> scan_members F (Suc n) acc s = scan_members F n acc s"
  "2 * length s + 2 \<le> n \<Longrightarrow> scan_elements F (Suc n) vs s = scan_elements F n vs s"
proof (induction n arbitrary: s acc vs)
  case (Suc n)
  {
    case 1
    have "scan_members F (Suc n) [] u = scan_members F n [] u" if "skip_ws t = d # u" "s = c # t" for c d t u
      by (rule Suc.IH(2)) (use 1 that skip_ws_Cons[OF that(1)] in simp)
    moreover have "scan_elements F (Suc n) [] (d # u) = scan_elements F n [] (d # u)" if "skip_ws t = d # u" "s = c # t" for c d t u
      by (rule Suc.IH(3)) (use 1 that skip_ws_Cons[OF that(1)] in simp)
    ultimately show ?case
      by (cases s) (auto simp del: scan_members.simps scan_elements.simps split: list.split)
  next
    case 2
    note unf = scan_members.simps(2)[of F "Suc n" acc s] scan_members.simps(2)[of F n acc s]
    show ?case
    proof (cases "\<exists>k t c u. scanstring s = Some (k, t) \<and> skip_ws t = c # u")
      case True
      then obtain k t c u where t: "scanstring s = Some (k, t)" "skip_ws t = c # u" by blast
      have u: "length (skip_ws u) < length s"
        using scanstring_length[OF t(1)] skip_ws_Cons[OF t(2)] skip_ws_length[of u] by simp
      have "scan_value F (Suc n) (skip_ws u) = scan_value F n (skip_ws u)" by (rule Suc.IH(1)) (use 2 u in simp)
      moreover have "scan_members F (Suc n) a y = scan_members F n a y"
        if "scan_value F n (skip_ws u) = Some (v, w)" "skip_ws w = d # x" "skip_ws x = q # y" for v w d x q y a
        by (rule Suc.IH(2)) (use 2 u scan_length(1)[OF that(1)] skip_ws_Cons[OF that(2)] skip_ws_Cons[OF that(3)] in simp)
      ultimately show ?thesis
        by (auto simp: unf t simp del: scan_members.simps scan_value.simps split: option.split list.split)
    next
      case False
      then have "scanstring s = None \<or> (\<exists>k t. scanstring s = Some (k, t) \<and> skip_ws t = [])"
        by (metis list.exhaust option.exhaust surj_pair)
      then show ?thesis by (auto simp: unf simp del: scan_members.simps)
    qed
  next
    case 3
    note unf = scan_elements.simps(2)[of F "Suc n" vs s] scan_elements.simps(2)[of F n vs s]
    have "scan_value F (Suc n) s = scan_value F n s" by (rule Suc.IH(1)) (use 3 in simp)
    moreover have "scan_elements F (Suc n) a (skip_ws x) = scan_elements F n a (skip_ws x)"
      if "scan_value F n s = Some (v, w)" "skip_ws w = d # x" for v w d x a
      by (rule Suc.IH(3)) (use 3 scan_length(1)[OF that(1)] skip_ws_Cons[OF that(2)] skip_ws_length[of x] in simp)
    ultimately show ?case
      by (auto simp: unf simp del: scan_elements.simps scan_value.simps split: option.split list.split)
  }
qed simp_all

lemma scan_value_fuel: "2 * length s + 1 \<le> n \<Longrightarrow> n \<le> m \<Longrightarrow> scan_value F m s = scan_value F n s"
proof (induction m)
  case (Suc m)
  then show ?case using scan_fuel(1)[of s m F] by (cases "n = Suc m") simp_all
qed simp

section \<open>Reading what was written\<close>

subsection \<open>Strings\<close>

text \<open>Text without two separate surrogates side by side that would read as one code point.\<close>

fun js_text :: "pystr \<Rightarrow> bool" where
  "js_text [] = True"
| "js_text [c] = (c < 0x110000)"
| "js_text (c # d # s) = (c < 0x110000 \<and> \<not> (high_surrogate c \<and> low_surrogate d) \<and> js_text (d # s))"

lemma py_text_js: "py_text s \<Longrightarrow> \<forall>c\<in>set s. c < 0x110000 \<Longrightarrow> js_text s"
  by (induction s rule: js_text.induct) (auto simp: high_surrogate_def is_surrogate_def)

lemma horner16:
  "n = 16 * a + d0 \<Longrightarrow> a = 16 * b + d1 \<Longrightarrow> b = 16 * c + d2 \<Longrightarrow> n = 4096 * c + 256 * d2 + 16 * d1 + (d0 :: nat)"
  by simp

lemma hex4_pad: "n < 65536 \<Longrightarrow> hex4 (hex_pad 4 n @ s) = Some n"
proof -
  assume n: "n < 65536"
  have e: "hex_pad 4 n = [hex_digit (n div 4096 mod 16), hex_digit (n div 256 mod 16), hex_digit (n div 16 mod 16), hex_digit (n mod 16)]"
  proof -
    have "(4::nat) = Suc (Suc (Suc (Suc 0)))" by simp
    then have "hex_pad 4 n = hex_pad (Suc (Suc (Suc (Suc 0)))) n" by metis
    then show ?thesis by (simp only: hex_pad.simps append.simps div_mult2_eq[symmetric]) simp
  qed
  have "n = 4096 * (n div 4096 mod 16) + 256 * (n div 256 mod 16) + 16 * (n div 16 mod 16) + n mod 16"
  proof -
    have "n = 16 * (n div 16) + n mod 16" "n div 16 = 16 * (n div 16 div 16) + n div 16 mod 16"
      "n div 16 div 16 = 16 * (n div 16 div 16 div 16) + n div 16 div 16 mod 16"
      by (metis mult_div_mod_eq)+
    moreover have "n div 16 div 16 = n div 256" "n div 16 div 16 div 16 = n div 4096"
      by (simp_all only: div_mult2_eq[symmetric], simp_all)
    moreover have "n div 4096 mod 16 = n div 4096" using n by simp
    ultimately show ?thesis using horner16 by metis
  qed
  moreover have "hex4 ([hex_digit a, hex_digit b, hex_digit c, hex_digit d] @ s) = Some (4096 * a + 256 * b + 16 * c + d)"
    if "a < 16" "b < 16" "c < 16" "d < 16" for a b c d
    unfolding hex4_def using that by (simp add: hex_val_digit)
  ultimately show ?thesis unfolding e by (metis mod_less_divisor zero_less_numeral)
qed

lemma scan_plain: "32 \<le> c \<Longrightarrow> c \<noteq> 34 \<Longrightarrow> c \<noteq> 92 \<Longrightarrow> scanstring (c # s) = push c (scanstring s)"
  by (subst scanstring.simps) simp

lemma scan_escape: "e \<noteq> 117 \<Longrightarrow> unescape e = Some c \<Longrightarrow> scanstring (92 # e # s) = push c (scanstring s)"
  by (subst scanstring.simps) simp

lemma scan_unit:
  assumes "a < 65536" and "high_surrogate a \<Longrightarrow> take 2 s = [92, 117] \<Longrightarrow> \<exists>b. hex4 (drop 2 s) = Some b \<and> \<not> low_surrogate b"
  shows "scanstring (92 # 117 # hex_pad 4 a @ s) = push a (scanstring s)"
proof -
  have "drop 6 (hex_pad 4 a @ s) = drop 2 s" by simp
  then show ?thesis using assms hex4_pad[OF assms(1), of s]
    by (subst scanstring.simps) (auto split: option.split)
qed

lemma scan_pair:
  assumes "high_surrogate a" and "low_surrogate b"
  shows "scanstring (92 # 117 # hex_pad 4 a @ 92 # 117 # hex_pad 4 b @ s) =
    push (0x10000 + (a - 0xD800) * 1024 + (b - 0xDC00)) (scanstring s)"
proof -
  have "a < 65536" "b < 65536" using assms by (simp_all add: high_surrogate_def low_surrogate_def)
  then have h: "hex4 (hex_pad 4 a @ 92 # 117 # hex_pad 4 b @ s) = Some a" "hex4 (hex_pad 4 b @ s) = Some b"
    by (simp_all add: hex4_pad)
  have d: "drop 6 (hex_pad 4 a @ 92 # 117 # hex_pad 4 b @ s) = hex_pad 4 b @ s"
    "drop 10 (hex_pad 4 a @ 92 # 117 # hex_pad 4 b @ s) = s" "drop 4 (hex_pad 4 a @ 92 # 117 # hex_pad 4 b @ s) = 92 # 117 # hex_pad 4 b @ s"
    by simp_all
  show ?thesis using assms by (subst scanstring.simps) (simp add: h d)
qed

lemma esc_unit: "take 2 (esc_char d @ t) = [92, 117] \<Longrightarrow> d < 0x10000 \<Longrightarrow> esc_char d = [92, 117] @ hex_pad 4 d"
  unfolding esc_char_def by (simp split: if_split_asm)

lemma esc_next:
  assumes "js_text (a # s)" and "high_surrogate a" and "take 2 (concat (map esc_char s) @ 34 # r) = [92, 117]"
  shows "\<exists>b. hex4 (drop 2 (concat (map esc_char s) @ 34 # r)) = Some b \<and> \<not> low_surrogate b"
proof (cases s)
  case (Cons d s')
  have d: "\<not> low_surrogate d" "d < 0x110000" using assms(1,2) Cons by (cases s'; simp)+
  show ?thesis
  proof (cases "d < 0x10000")
    case True
    then have "esc_char d = [92, 117] @ hex_pad 4 d" 
      using assms(3) Cons esc_unit[of d "concat (map esc_char s') @ 34 # r"] by simp
    then show ?thesis using True d hex4_pad[of d] Cons by simp
  next
    case False
    let ?h = "0xD800 + (d - 0x10000) div 1024"
    have "?h < 65536" "\<not> low_surrogate ?h" using False d by (simp_all add: low_surrogate_def)
    then show ?thesis using False hex4_pad[of ?h] Cons by (simp add: esc_char_def)
  qed
qed (use assms in simp)

lemma scan_esc_char:
  assumes "js_text (c # s)"
  shows "scanstring (esc_char c @ concat (map esc_char s) @ 34 # r) = push c (scanstring (concat (map esc_char s) @ 34 # r))"
proof -
  let ?t = "concat (map esc_char s) @ 34 # r"
  have c: "c < 0x110000" using assms by (cases s) simp_all
  consider (letter) "c \<in> {34, 92, 10, 13, 9, 12, 8}" | (plain) "32 \<le> c" "c \<le> 126" "c \<noteq> 34" "c \<noteq> 92"
    | (unit) "c \<notin> {34, 92, 10, 13, 9, 12, 8}" "c < 32 \<or> 126 < c" "c < 0x10000" | (pair) "0x10000 \<le> c"
    by force
  then show ?thesis
  proof cases
    case letter
    then obtain e where "esc_char c = [92, e]" "unescape e = Some c" "e \<noteq> 117"
      by (auto simp: esc_char_def unescape_def)
    then show ?thesis by (simp add: scan_escape)
  next
    case plain
    then have "esc_char c = [c]" by (simp add: esc_char_def)
    then show ?thesis using plain by (simp add: scan_plain)
  next
    case unit
    then have "esc_char c = [92, 117] @ hex_pad 4 c" by (auto simp: esc_char_def)
    then show ?thesis using unit(3) scan_unit[of c ?t] esc_next[OF assms] by simp
  next
    case pair
    let ?h = "0xD800 + (c - 0x10000) div 1024" and ?l = "0xDC00 + (c - 0x10000) mod 1024"
    have "(c - 0x10000) div 1024 < 1024" "(c - 0x10000) mod 1024 < 1024" using c by auto
    then have "high_surrogate ?h" "low_surrogate ?l" by (simp_all add: high_surrogate_def low_surrogate_def)
    from scan_pair[OF this, of ?t] pair show ?thesis by (simp add: esc_char_def)
  qed
qed

lemma scan_dumped: "js_text s \<Longrightarrow> scanstring (concat (map esc_char s) @ 34 # r) = Some (s, r)"
proof (induction s)
  case Nil
  show ?case by (subst scanstring.simps) simp
next
  case (Cons c s)
  have "js_text s" using Cons.prems by (cases s) simp_all
  then show ?case using Cons scan_esc_char[OF Cons.prems, of r] by (simp add: push_def)
qed

end
