(* ===== verification/JsonRoundtrip.thy ===== *)
theory JsonRoundtrip
  imports PyJson
begin

text \<open>
  Reading back what \<open>json.dumps\<close> wrote: numbers, values, and the sorted text that the
  idempotency extension hashes.
\<close>

section \<open>Numbers\<close>

text \<open>A number as the grammar of JSON has it, and what may follow a value.\<close>

definition is_number :: "pystr \<Rightarrow> pystr \<Rightarrow> pystr \<Rightarrow> pystr \<Rightarrow> bool" where
  "is_number sg ip fr ex \<longleftrightarrow>
     (sg = [] \<or> sg = [45]) \<and> ip \<noteq> [] \<and> list_all ascii_digit ip \<and> (hd ip = 48 \<longrightarrow> ip = [48]) \<and>
     (fr = [] \<or> (\<exists>d. d \<noteq> [] \<and> list_all ascii_digit d \<and> fr = 46 # d)) \<and>
     (ex = [] \<or> (\<exists>e sgn d. (e = 101 \<or> e = 69) \<and> (sgn = [] \<or> sgn = [43] \<or> sgn = [45]) \<and> d \<noteq> [] \<and>
        list_all ascii_digit d \<and> ex = e # sgn @ d))"

definition js_stop :: "pystr \<Rightarrow> bool" where
  "js_stop r \<longleftrightarrow> r = [] \<or> hd r = 44 \<or> hd r = 93 \<or> hd r = 125"

text \<open>What the writer of floats promises: the text of a float is read as that float.\<close>

definition floats_ok :: "'f floats \<Rightarrow> bool" where
  "floats_ok F \<longleftrightarrow>
     (\<forall>x. fl_parse F (fl_text F x) = x \<and>
        (fl_text F x = lit ''NaN'' \<or> fl_text F x = lit ''Infinity'' \<or> fl_text F x = lit ''-Infinity'' \<or>
         (\<exists>sg ip fr ex. is_number sg ip fr ex \<and> (fr \<noteq> [] \<or> ex \<noteq> []) \<and> fl_text F x = sg @ ip @ fr @ ex)))"

definition no_digit :: "pystr \<Rightarrow> bool" where
  "no_digit s \<longleftrightarrow> s = [] \<or> \<not> ascii_digit (hd s)"

lemma take_digits: "list_all ascii_digit d \<Longrightarrow> no_digit r \<Longrightarrow> takeWhile ascii_digit (d @ r) = d"
  by (cases r) (auto simp: no_digit_def list_all_iff takeWhile_append)

lemma stop_no_digit [simp]: "js_stop r \<Longrightarrow> no_digit r"
  by (auto simp: js_stop_def no_digit_def ascii_digit_def)

lemma exponent_part:
  assumes "is_number sg ip fr ex" and "js_stop r"
  shows "js_exponent (ex @ r) = ex" and "no_digit (ex @ r)" and "ex @ r = [] \<or> hd (ex @ r) \<noteq> 46"
proof -
  consider "ex = []" | e sgn d where "e = 101 \<or> e = 69" "sgn = [] \<or> sgn = [43] \<or> sgn = [45]" "d \<noteq> []"
      "list_all ascii_digit d" "ex = e # sgn @ d"
    using assms(1) unfolding is_number_def by blast
  then have "js_exponent (ex @ r) = ex \<and> no_digit (ex @ r) \<and> (ex @ r = [] \<or> hd (ex @ r) \<noteq> 46)"
  proof cases
    case 1
    then show ?thesis using assms(2) by (cases r) (auto simp: js_stop_def js_exponent_def no_digit_def ascii_digit_def)
  next
    case (2 e sgn d)
    have "\<not> (hd d = 43 \<or> hd d = 45)" using 2 by (cases d) (auto simp: ascii_digit_def)
    then have "js_sign (sgn @ d @ r) = sgn" using 2 by (cases d) (auto simp: js_sign_def)
    then have "js_exponent (ex @ r) = ex"
      using 2 take_digits[of d r] assms(2) by (simp add: js_exponent_def Let_def)
    then show ?thesis using 2 by (auto simp: no_digit_def ascii_digit_def)
  qed
  then show "js_exponent (ex @ r) = ex" "no_digit (ex @ r)" "ex @ r = [] \<or> hd (ex @ r) \<noteq> 46" by simp_all
qed

lemma fraction_part:
  assumes "is_number sg ip fr ex" and "js_stop r"
  shows "js_fraction (fr @ ex @ r) = fr" and "no_digit (fr @ ex @ r)"
proof -
  note e = exponent_part[OF assms]
  consider "fr = []" | d where "d \<noteq> []" "list_all ascii_digit d" "fr = 46 # d"
    using assms(1) unfolding is_number_def by blast
  then show "js_fraction (fr @ ex @ r) = fr" "no_digit (fr @ ex @ r)"
    using e(2,3) take_digits[OF _ e(2)]
    by (cases; auto simp: js_fraction_def no_digit_def ascii_digit_def split: list.split)+
qed

lemma number_parts_of:
  assumes n: "is_number sg ip fr ex" and r: "js_stop r"
  shows "number_parts (sg @ ip @ fr @ ex @ r) = (sg, ip, fr, ex, r)"
proof -
  let ?t = "fr @ ex @ r"
  have ip: "ip \<noteq> []" "list_all ascii_digit ip" "hd ip = 48 \<longrightarrow> ip = [48]" and sg: "sg = [] \<or> sg = [45]"
    using n by (simp_all add: is_number_def)
  have "hd ip \<noteq> 45" using ip(1,2) by (cases ip) (auto simp: ascii_digit_def)
  then have m: "js_minus (sg @ ip @ ?t) = sg" using ip(1) sg by (cases ip) (auto simp: js_minus_def py_startswith_def)
  have i: "js_integer (ip @ ?t) = ip"
    using ip take_digits[OF ip(2) fraction_part(2)[OF n r]] by (cases ip) (auto simp: js_integer_def py_startswith_def)
  have d: "drop (length a) (a @ b) = b" for a b :: pystr by simp
  show ?thesis
    by (simp only: number_parts_def Let_def m i d fraction_part(1)[OF n r] exponent_part(1)[OF n r])
qed

lemma number_heads:
  assumes "is_number sg ip fr ex"
  obtains c ip' where "ip = c # ip'" "48 \<le> c" "c \<le> 57" "sg = [] \<or> sg = [45]"
proof -
  have "sg = [] \<or> sg = [45]" "ip \<noteq> []" "list_all ascii_digit ip" using assms by (simp_all add: is_number_def)
  then show thesis using that by (cases ip) (auto simp: ascii_digit_def)
qed

lemma scan_word_number:
  assumes n: "is_number sg ip fr ex"
  shows "scan_word F (sg @ ip @ t) = scan_number F (sg @ ip @ t)"
proof -
  obtain c ip' where "ip = c # ip'" "48 \<le> c" "c \<le> 57" "sg = [] \<or> sg = [45]" by (rule number_heads[OF n])
  then show ?thesis by (elim disjE) (simp_all add: scan_word_def startswith_iff lit_def)
qed

lemma str_nat_zero: "hd (str_nat n) = 48 \<Longrightarrow> n = 0"
proof (induction n rule: str_nat.induct)
  case (1 n)
  show ?case
  proof (cases "n < 10")
    case False
    then have "hd (str_nat n) = hd (str_nat (n div 10))"
      using str_nat_nonempty[of "n div 10"] by (subst str_nat.simps) simp
    then show ?thesis using 1 False by simp
  qed (use "1.prems" in \<open>subst (asm) str_nat.simps, simp\<close>)
qed

lemma str_nat_number: "is_number [] (str_nat n) [] []" "is_number [45] (str_nat n) [] []"
proof -
  have "list_all ascii_digit (str_nat n)" using str_nat_digits[of _ n] by (auto simp: list_all_iff ascii_digit_def)
  moreover have "hd (str_nat n) = 48 \<longrightarrow> str_nat n = [48]" 
    using str_nat_zero[of n] by (auto, subst str_nat.simps, simp)
  ultimately show "is_number [] (str_nat n) [] []" "is_number [45] (str_nat n) [] []"
    using str_nat_nonempty[of n] by (simp_all add: is_number_def)
qed

lemma scan_int:
  assumes "length (str_nat (nat \<bar>i\<bar>)) \<le> 4300" and "js_stop r"
  shows "scan_word F (str_int i @ r) = Some (JInt i, r)"
proof -
  let ?n = "nat \<bar>i\<bar>" and ?sg = "if i < 0 then [45] else []"
  have n: "is_number ?sg (str_nat ?n) [] []" using str_nat_number by simp
  have "str_int i @ r = ?sg @ str_nat ?n @ r" by (simp add: str_int_def)
  then show ?thesis
    using scan_word_number[OF n, of F r] number_parts_of[OF n assms(2)] assms(1) str_nat_nonempty[of ?n]
    by (simp add: scan_number_def digits_val_str_nat split: if_splits)
qed

lemma float_text_cases [consumes 1, case_names nan inf neg_inf number]:
  assumes "floats_ok F"
  obtains "fl_text F x = lit ''NaN''" | "fl_text F x = lit ''Infinity''" | "fl_text F x = lit ''-Infinity''"
  | sg ip fr ex where "is_number sg ip fr ex" "fr \<noteq> [] \<or> ex \<noteq> []" "fl_text F x = sg @ ip @ fr @ ex"
  using assms unfolding floats_ok_def by metis

lemma scan_float:
  assumes "floats_ok F" and "js_stop r"
  shows "scan_word F (fl_text F x @ r) = Some (JFloat x, r)"
proof -
  have p: "fl_parse F (fl_text F x) = x" using assms(1) by (simp add: floats_ok_def)
  show ?thesis using assms(1)
  proof (cases rule: float_text_cases[where x = x])
    case (number sg ip fr ex)
    have "ip \<noteq> []" using number(1) by (simp add: is_number_def)
    then show ?thesis
      using scan_word_number[OF number(1), of F "fr @ ex @ r"] number_parts_of[OF number(1) assms(2)] number(2,3) p
      by (simp add: scan_number_def)
  qed (use p in \<open>simp_all add: scan_word_def py_startswith_def lit_def\<close>)
qed

section \<open>Values\<close>

text \<open>The values that come back unchanged: as Python has them when they were read from JSON.\<close>

fun json_ok :: "'f json \<Rightarrow> bool" where
  "json_ok (JInt i) = (length (str_nat (nat \<bar>i\<bar>)) \<le> 4300)"
| "json_ok (JStr s) = js_text s"
| "json_ok (JList vs) = list_all json_ok vs"
| "json_ok (JObj kvs) = (distinct (map fst kvs) \<and> list_all (\<lambda>(k, v). js_text k \<and> json_ok v) kvs)"
| "json_ok v = True"

definition from_some :: "(nat \<Rightarrow> bool) \<Rightarrow> bool" where
  "from_some P \<longleftrightarrow> (\<exists>n0. \<forall>n\<ge>n0. P n)"

lemma from_some_Suc: "from_some (\<lambda>n. P (Suc n)) \<Longrightarrow> from_some P"
  unfolding from_some_def by (metis Suc_le_D Suc_le_mono)

lemma from_some_mono: "from_some P \<Longrightarrow> (\<And>n. P n \<Longrightarrow> Q n) \<Longrightarrow> from_some Q"
  unfolding from_some_def by blast

lemma from_some_conj: "from_some P \<Longrightarrow> from_some Q \<Longrightarrow> from_some (\<lambda>n. P n \<and> Q n)"
  unfolding from_some_def by (metis le_trans nle_le)

lemma from_some_all: "(\<And>n. P n) \<Longrightarrow> from_some P"
  by (simp add: from_some_def)

text \<open>What a writer produced starts with no white space and no closing bracket.\<close>

definition starts_ok :: "pystr \<Rightarrow> bool" where
  "starts_ok t \<longleftrightarrow> t \<noteq> [] \<and> \<not> js_ws (hd t) \<and> hd t \<noteq> 93"

lemma starts_ok_append: "starts_ok t \<Longrightarrow> skip_ws (t @ r) = t @ r"
  by (cases t) (auto simp: starts_ok_def skip_ws_def)

lemma number_starts: "is_number sg ip fr ex \<Longrightarrow> starts_ok (sg @ ip @ t)"
proof -
  assume n: "is_number sg ip fr ex"
  obtain c ip' where "ip = c # ip'" "48 \<le> c" "c \<le> 57" "sg = [] \<or> sg = [45]" by (rule number_heads[OF n])
  then show ?thesis by (auto simp: starts_ok_def js_ws_def)
qed

lemma dumps_starts:
  assumes "floats_ok F"
  shows "starts_ok (json_dumps F v)"
proof (cases v)
  case (JInt i)
  then show ?thesis
    using number_starts[OF str_nat_number(1)[of "nat i"], of "[]"] number_starts[OF str_nat_number(2)[of "nat (- i)"], of "[]"]
    by (auto simp: str_int_def)
next
  case (JFloat x)
  show ?thesis using assms
  proof (cases rule: float_text_cases[where x = x])
    case (number sg ip fr ex)
    then show ?thesis using number_starts[OF number(1), of "fr @ ex"] JFloat by simp
  qed (use JFloat in \<open>simp_all add: starts_ok_def lit_def js_ws_def\<close>)
qed (auto simp: starts_ok_def lit_def js_ws_def dump_str_def)

abbreviation reads :: "'f floats \<Rightarrow> 'f json \<Rightarrow> bool" where
  "reads F v \<equiv> (\<forall>r. js_stop r \<longrightarrow> from_some (\<lambda>n. scan_value F n (json_dumps F v @ r) = Some (v, r)))"

lemma reads_elements:
  assumes F: "floats_ok F" and "vs \<noteq> []" and "\<forall>v\<in>set vs. reads F v"
  shows "from_some (\<lambda>n. scan_elements F n acc (join_sep (lit '', '') (map (json_dumps F) vs) @ 93 # r) = Some (JList (acc @ vs), r))"
  using assms(2,3)
proof (induction vs arbitrary: acc rule: list_nonempty_induct)
  case (single v)
  have "from_some (\<lambda>n. scan_value F n (json_dumps F v @ 93 # r) = Some (v, 93 # r))"
    using single by (auto simp: js_stop_def)
  then show ?case
    by (rule from_some_Suc[OF from_some_mono]) (simp add: skip_ws_def js_ws_def)
next
  case (cons v vs)
  let ?t = "join_sep (lit '', '') (map (json_dumps F) vs) @ 93 # r"
  have j: "join_sep (lit '', '') (map (json_dumps F) (v # vs)) @ 93 # r = json_dumps F v @ 44 # 32 # ?t"
    using cons.hyps by (cases vs) (simp_all add: lit_def)
  have "from_some (\<lambda>n. scan_value F n (json_dumps F v @ 44 # 32 # ?t) = Some (v, 44 # 32 # ?t))"
    using cons.prems by (auto simp: js_stop_def)
  moreover have "from_some (\<lambda>n. scan_elements F n (acc @ [v]) ?t = Some (JList ((acc @ [v]) @ vs), r))"
    using cons.IH[of "acc @ [v]"] cons.prems by simp
  ultimately have both: "from_some (\<lambda>n. scan_value F n (json_dumps F v @ 44 # 32 # ?t) = Some (v, 44 # 32 # ?t) \<and>
      scan_elements F n (acc @ [v]) ?t = Some (JList ((acc @ [v]) @ vs), r))"
    by (rule from_some_conj)
  have "starts_ok (join_sep (lit '', '') (map (json_dumps F) vs))"
    using cons.hyps dumps_starts[OF F, of "hd vs"] by (cases vs rule: remdups_adj.cases) (auto simp: starts_ok_def)
  then have s: "skip_ws (32 # ?t) = ?t" using starts_ok_append by (simp add: skip_ws_def js_ws_def)
  show ?case unfolding j
    by (rule from_some_Suc, rule from_some_mono[OF both]) (simp add: s skip_ws_def[of "44 # t" for t] js_ws_def)
qed

abbreviation dump_member :: "'f floats \<Rightarrow> pystr \<times> 'f json \<Rightarrow> pystr" where
  "dump_member F \<equiv> (\<lambda>(k, v). dump_str k @ lit '': '' @ json_dumps F v)"

text \<open>The members of an object, after the quote that opens the first key.\<close>

lemma reads_members:
  assumes F: "floats_ok F" and "kvs \<noteq> []" and "\<forall>(k, v)\<in>set kvs. js_text k \<and> reads F v"
  shows "from_some (\<lambda>n. scan_members F n acc (tl (join_sep (lit '', '') (map (dump_member F) kvs)) @ 125 # r) =
    Some (JObj (dict_of (acc @ kvs)), r))"
  using assms(2,3)
proof (induction kvs arbitrary: acc rule: list_nonempty_induct)
  case (single kv)
  obtain k v where kv: "kv = (k, v)" by fastforce
  have k: "js_text k" and v: "from_some (\<lambda>n. scan_value F n (json_dumps F v @ 125 # r) = Some (v, 125 # r))"
    using single kv by (auto simp: js_stop_def)
  have "tl (join_sep (lit '', '') (map (dump_member F) [kv])) @ 125 # r =
      concat (map esc_char k) @ 34 # 58 # 32 # json_dumps F v @ 125 # r"
    by (simp add: kv dump_str_def lit_def)
  moreover have "skip_ws (32 # json_dumps F v @ 125 # r) = json_dumps F v @ 125 # r"
    using starts_ok_append[OF dumps_starts[OF F]] by (simp add: skip_ws_def js_ws_def)
  ultimately show ?case
    by (intro from_some_Suc[OF from_some_mono[OF v]])
      (simp add: scan_dumped[OF k] kv skip_ws_def[of "58 # t" for t] skip_ws_def[of "125 # t" for t] js_ws_def)
next
  case (cons kv kvs)
  obtain k v where kv: "kv = (k, v)" by fastforce
  let ?u = "join_sep (lit '', '') (map (dump_member F) kvs)"
  let ?t = "44 # 32 # ?u @ 125 # r"
  have k: "js_text k" and v: "from_some (\<lambda>n. scan_value F n (json_dumps F v @ ?t) = Some (v, ?t))"
    using cons.prems kv by (auto simp: js_stop_def)
  have m: "from_some (\<lambda>n. scan_members F n (acc @ [(k, v)]) (tl ?u @ 125 # r) = Some (JObj (dict_of ((acc @ [(k, v)]) @ kvs)), r))"
    using cons.IH[of "acc @ [(k, v)]"] cons.prems by simp
  have u: "?u = 34 # tl ?u"
    using cons.hyps by (cases kvs rule: remdups_adj.cases) (auto simp: dump_str_def)
  have "tl (join_sep (lit '', '') (map (dump_member F) (kv # kvs))) @ 125 # r =
      concat (map esc_char k) @ 34 # 58 # 32 # json_dumps F v @ ?t"
    using cons.hyps by (cases kvs) (simp_all add: kv dump_str_def lit_def)
  moreover have "skip_ws (32 # json_dumps F v @ ?t) = json_dumps F v @ ?t"
    using starts_ok_append[OF dumps_starts[OF F]] by (simp add: skip_ws_def js_ws_def)
  moreover have "skip_ws (32 # ?u @ 125 # r) = 34 # tl ?u @ 125 # r"
    by (subst u) (simp add: skip_ws_def js_ws_def)
  ultimately show ?case
    by (intro from_some_Suc[OF from_some_mono[OF from_some_conj[OF v m]]])
      (simp add: scan_dumped[OF k] kv skip_ws_def[of "58 # t" for t] skip_ws_def[of "44 # t" for t] js_ws_def)
qed

lemma dict_set_new: "k \<notin> fst ` set d \<Longrightarrow> dict_set k v d = d @ [(k, v)]"
  by (induction d) auto

lemma dict_of_distinct: "distinct (map fst kvs) \<Longrightarrow> dict_of kvs = kvs"
proof (induction kvs rule: rev_induct)
  case (snoc kv kvs)
  then show ?case by (cases kv) (simp add: dict_of_def dict_set_new)
qed (simp add: dict_of_def)

text \<open>A text that opens no string, object or list is a constant or a number.\<close>

definition plain_start :: "pystr \<Rightarrow> bool" where
  "plain_start t \<longleftrightarrow> t \<noteq> [] \<and> hd t \<noteq> 34 \<and> hd t \<noteq> 123 \<and> hd t \<noteq> 91"

lemma scan_plain_value: "plain_start t \<Longrightarrow> scan_value F (Suc n) (t @ r) = scan_word F (t @ r)"
  by (cases t) (auto simp: plain_start_def)

lemma plain_number: "is_number sg ip fr ex \<Longrightarrow> plain_start (sg @ ip @ t)"
proof -
  assume n: "is_number sg ip fr ex"
  obtain c ip' where "ip = c # ip'" "48 \<le> c" "c \<le> 57" "sg = [] \<or> sg = [45]" by (rule number_heads[OF n])
  then show ?thesis by (auto simp: plain_start_def)
qed

lemma plain_int: "plain_start (str_int i)"
  using plain_number[OF str_nat_number(1)[of "nat i"], of "[]"] plain_number[OF str_nat_number(2)[of "nat (- i)"], of "[]"]
  by (simp add: str_int_def)

lemma plain_float:
  assumes "floats_ok F"
  shows "plain_start (fl_text F x)"
  using assms
proof (cases rule: float_text_cases[where x = x])
  case (number sg ip fr ex)
  then show ?thesis using plain_number[OF number(1), of "fr @ ex"] by simp
qed (simp_all add: plain_start_def lit_def)

lemma reads_word: "plain_start (json_dumps F v) \<Longrightarrow> (\<And>r. js_stop r \<Longrightarrow> scan_word F (json_dumps F v @ r) = Some (v, r)) \<Longrightarrow> reads F v"
  by (auto simp del: scan_value.simps simp: scan_plain_value intro!: from_some_Suc[OF from_some_all])

lemma reads_list:
  assumes F: "floats_ok F" and vs: "\<forall>v\<in>set vs. reads F v"
  shows "reads F (JList vs)"
proof (intro allI impI)
  fix r assume "js_stop r"
  show "from_some (\<lambda>n. scan_value F n (json_dumps F (JList vs) @ r) = Some (JList vs, r))"
  proof (cases "vs = []")
    case False
    let ?u = "join_sep (lit '', '') (map (json_dumps F) vs)"
    have "starts_ok ?u"
      using False dumps_starts[OF F, of "hd vs"] by (cases vs rule: remdups_adj.cases) (auto simp: starts_ok_def)
    then obtain c t where u: "skip_ws (c # t) = c # t" "?u @ 93 # r = c # t" "c \<noteq> 93"
      using starts_ok_append[of ?u "93 # r"] by (cases ?u) (auto simp: starts_ok_def)
    show ?thesis
      by (rule from_some_Suc[OF from_some_mono[OF reads_elements[OF F False vs, of "[]" r]]])
        (simp add: u)
  qed (auto simp: skip_ws_def js_ws_def intro!: from_some_Suc[OF from_some_all])
qed

lemma reads_object:
  assumes F: "floats_ok F" and kvs: "\<forall>(k, v)\<in>set kvs. js_text k \<and> reads F v" and d: "distinct (map fst kvs)"
  shows "reads F (JObj kvs)"
proof (intro allI impI)
  fix r assume "js_stop r"
  show "from_some (\<lambda>n. scan_value F n (json_dumps F (JObj kvs) @ r) = Some (JObj kvs, r))"
  proof (cases "kvs = []")
    case False
    let ?u = "join_sep (lit '', '') (map (dump_member F) kvs)"
    have u: "?u = 34 # tl ?u"
      using False by (cases kvs rule: remdups_adj.cases) (auto simp: dump_str_def)
    have "skip_ws (?u @ 125 # r) = 34 # tl ?u @ 125 # r" by (subst u) (simp add: skip_ws_def js_ws_def)
    then show ?thesis
      by (intro from_some_Suc[OF from_some_mono[OF reads_members[OF F False kvs, of "[]" r]]])
        (simp add: dict_of_distinct[OF d])
  qed (auto simp: skip_ws_def js_ws_def intro!: from_some_Suc[OF from_some_all])
qed

lemma reads_dumped:
  assumes F: "floats_ok F"
  shows "json_ok v \<Longrightarrow> reads F v"
proof (induction v)
  case (JStr s)
  then show ?case
    by (auto simp: dump_str_def scan_dumped intro!: from_some_Suc[OF from_some_all])
next
  case (JInt i)
  then show ?case by (intro reads_word) (simp_all add: plain_int scan_int)
next
  case (JFloat x)
  then show ?case by (intro reads_word) (simp_all add: plain_float[OF F] scan_float[OF F])
next
  case (JList vs)
  then show ?case by (intro reads_list[OF F]) (simp add: list_all_iff)
next
  case (JObj kvs)
  then show ?case by (intro reads_object[OF F]) (fastforce simp: list_all_iff)+
qed (auto simp: lit_def scan_word_def py_startswith_def intro!: from_some_Suc[OF from_some_all])

lemma json_loads_dumps:
  assumes F: "floats_ok F" and v: "json_ok v"
  shows "json_loads F (json_dumps F v) = Inr v"
proof -
  let ?t = "json_dumps F v"
  obtain n0 where n0: "\<forall>n\<ge>n0. scan_value F n (?t @ []) = Some (v, [])"
    using reads_dumped[OF F v] unfolding from_some_def by (auto simp: js_stop_def)
  have "scan_value F (json_fuel ?t) ?t = scan_value F (max n0 (json_fuel ?t)) ?t"
    by (rule scan_value_fuel[symmetric]) (simp_all add: json_fuel_def)
  also have "\<dots> = Some (v, [])" using n0 by simp
  finally have r: "scan_value F (json_fuel ?t) ?t = Some (v, [])" .
  have w: "skip_ws ?t = ?t" using starts_ok_append[OF dumps_starts[OF F], of v "[]"] by simp
  show ?thesis unfolding json_loads_def w r by (simp add: skip_ws_def)
qed

section \<open>The sorted text\<close>

lemma json_ok_sort: "json_ok v \<Longrightarrow> json_ok (sort_keys v)"
proof (induction v)
  case (JObj kvs)
  let ?m = "map (\<lambda>(k, v). (k, sort_keys v)) kvs"
  have "map fst ?m = map fst kvs" by (induction kvs) auto
  then have "distinct (map fst ?m)" using JObj.prems by (metis json_ok.simps(4))
  then have "distinct (map fst (sort_key fst ?m))"
    by (simp only: distinct_map distinct_sort set_sort)
  moreover have "js_text k \<and> json_ok v" if "(k, v) \<in> set ?m" for k v
    using that JObj by (fastforce simp: list_all_iff)
  ultimately show ?case unfolding sort_keys.simps json_ok.simps list_all_iff set_sort by blast
qed (auto simp: list_all_iff)

text \<open>Two values have the same sorted text only when they differ at most in the order of keys.\<close>

lemma sorted_text_inj:
  assumes "floats_ok F" and "json_ok v" and "json_ok w"
  shows "json_dumps_sorted F v = json_dumps_sorted F w \<longleftrightarrow> sort_keys v = sort_keys w"
  unfolding json_dumps_sorted_def
  using json_loads_dumps[OF assms(1) json_ok_sort[OF assms(2)]] json_loads_dumps[OF assms(1) json_ok_sort[OF assms(3)]]
  by (metis Inr_inject)

text \<open>The writer escapes everything beyond ASCII, and the null character.\<close>

definition ascii_text :: "pystr \<Rightarrow> bool" where
  "ascii_text t \<longleftrightarrow> list_all (\<lambda>c. 0 < c \<and> c < 128) t"

lemma ascii_text_simps [simp]:
  "ascii_text []" "ascii_text (c # t) \<longleftrightarrow> 0 < c \<and> c < 128 \<and> ascii_text t" "ascii_text (s @ t) \<longleftrightarrow> ascii_text s \<and> ascii_text t"
  by (auto simp: ascii_text_def)

lemma ascii_digits: "list_all ascii_digit d \<Longrightarrow> ascii_text d"
  by (auto simp: ascii_text_def list_all_iff ascii_digit_def)

lemma ascii_number: "is_number sg ip fr ex \<Longrightarrow> ascii_text (sg @ ip @ fr @ ex)"
  unfolding is_number_def using ascii_digits by (elim conjE disjE exE) simp_all

lemma ascii_float:
  assumes "floats_ok F"
  shows "ascii_text (fl_text F x)"
  using assms
proof (cases rule: float_text_cases[where x = x])
  case (number sg ip fr ex)
  then show ?thesis using ascii_number[OF number(1)] by simp
qed (simp_all add: lit_def)

lemma ascii_hex_pad: "ascii_text (hex_pad k n)"
  using hex_pad_is_hex[of _ k n] by (fastforce simp: ascii_text_def list_all_iff is_hex_def)

lemma ascii_dump_str: "ascii_text (dump_str s)"
proof -
  have "ascii_text (esc_char c)" for c by (simp add: esc_char_def ascii_hex_pad)
  then have "ascii_text (concat (map esc_char s))" by (induction s) simp_all
  then show ?thesis by (simp add: dump_str_def)
qed

lemma ascii_join: "ascii_text sep \<Longrightarrow> \<forall>t\<in>set ts. ascii_text t \<Longrightarrow> ascii_text (join_sep sep ts)"
  by (induction sep ts rule: join_sep.induct) auto

lemma ascii_dumps:
  assumes "floats_ok F"
  shows "ascii_text (json_dumps F v)"
proof (induction v)
  case (JInt i)
  then show ?case
    using ascii_number[OF str_nat_number(1)[of "nat i"]] ascii_number[OF str_nat_number(1)[of "nat (- i)"]]
    by (simp add: str_int_def)
next
  case (JList vs)
  have "ascii_text (join_sep (lit '', '') (map (json_dumps F) vs))"
    by (rule ascii_join) (use JList in \<open>auto simp: lit_def\<close>)
  then show ?case by simp
next
  case (JObj kvs)
  have "ascii_text (join_sep (lit '', '') (map (\<lambda>(k, v). dump_str k @ lit '': '' @ json_dumps F v) kvs))"
    by (rule ascii_join) (use JObj ascii_dump_str in \<open>fastforce simp: lit_def\<close>)+
  then show ?case by simp
qed (simp_all add: lit_def ascii_dump_str ascii_float[OF assms])

lemma py_text_dumps: "floats_ok F \<Longrightarrow> py_text (json_dumps F v)"
  using ascii_dumps[of F v] by (intro py_text_ascii) (auto simp: ascii_text_def list_all_iff)

text \<open>A concrete value of the parameter: the floats of integral value.\<close>

definition ref_floats :: "int floats" where
  "ref_floats =
     \<lparr>fl_parse = (\<lambda>s. case number_parts s of (sg, ip, _) \<Rightarrow> if sg = [] then int (digits_val ip) else - int (digits_val ip)),
      fl_text = (\<lambda>i. str_int i @ lit ''.0''), fl_zero = (\<lambda>i. i = 0)\<rparr>"

lemma ref_floats_ok: "floats_ok ref_floats"
proof -
  have "\<exists>sg ip fr ex. is_number sg ip fr ex \<and> fr \<noteq> [] \<and> fl_text ref_floats i = sg @ ip @ fr @ ex \<and>
      fl_parse ref_floats (sg @ ip @ fr @ ex) = i" for i
  proof -
    let ?sg = "if i < 0 then [45] else []" and ?ip = "str_nat (nat \<bar>i\<bar>)"
    have n: "is_number ?sg ?ip [46, 48] []"
      using str_nat_number[of "nat \<bar>i\<bar>"] by (auto simp: is_number_def ascii_digit_def)
    have "fl_text ref_floats i = ?sg @ ?ip @ [46, 48] @ []" by (simp add: ref_floats_def str_int_def lit_def)
    moreover have "fl_parse ref_floats (?sg @ ?ip @ [46, 48] @ []) = i"
      using number_parts_of[OF n, of "[]"] by (simp add: ref_floats_def digits_val_str_nat js_stop_def)
    ultimately show ?thesis using n by blast
  qed
  then show ?thesis unfolding floats_ok_def by metis
qed

end
