(* ===== verification/Redis.thy ===== *)
theory Redis
  imports PyUuid
begin

text \<open>
  The interface to the Redis server. The server is not part of the repository, so it is a
  parameter of every definition that talks to it: a function \<open>exec\<close> from a command and the
  server's state to a reply and the next state. The locale \<open>redis_server\<close> names what the
  code relies on: the documented effect (\<open>redis_effect\<close>) and reply (\<open>redis_reply_ok\<close>) of
  each command the service sends, in terms of the visible key space (key to value and
  remaining time to live in milliseconds), and expiry as time passes. Text stands for its
  UTF-8 encoding, in which the client sends and the code decodes it.

  The client's own layer is modelled: an error reply is raised as an exception, and a
  pipeline with \<open>transaction=True\<close> runs all its commands with nothing in between and raises
  the first error after the run.
\<close>

datatype redis_value =
    RStr pystr
  | RHash "pystr \<rightharpoonup> pystr"
  | RSet "pystr set"

type_synonym redis_view = "pystr \<rightharpoonup> redis_value \<times> nat option"

datatype redis_cmd =
    SETEX pystr int pystr
  | SETNXEX pystr pystr int
  | GET pystr
  | GETDEL pystr
  | DEL pystr
  | EXISTS pystr
  | INCR pystr
  | TTL pystr
  | EXPIRE pystr int
  | HSET pystr "(pystr \<times> pystr) list"
  | HGETALL pystr
  | SADD pystr pystr
  | SREM pystr pystr
  | SMEMBERS pystr

datatype redis_reply =
    ROk
  | RNil
  | RInt int
  | RBulk pystr
  | RMap "(pystr \<times> pystr) list"
  | RArray "pystr list"
  | RError pystr

type_synonym 'r redis_exec = "redis_cmd \<Rightarrow> 'r \<Rightarrow> redis_reply \<times> 'r"

section \<open>Documented behaviour\<close>

text \<open>Seconds of a time to live, in milliseconds.\<close>

definition ms :: "int \<Rightarrow> nat" where
  "ms t = 1000 * nat t"

text \<open>The integer a string value holds for \<open>INCR\<close>: the canonical decimal text only.\<close>

definition redis_int :: "pystr \<Rightarrow> int option" where
  "redis_int s =
     (let i = (if py_startswith s [45] then - int (digits_val (tl s)) else int (digits_val s))
      in if str_int i = s \<and> i < 2 ^ 63 - 1 then Some i else None)"

fun redis_effect :: "redis_cmd \<Rightarrow> redis_view \<Rightarrow> redis_view" where
  "redis_effect (SETEX k t v) V = (if t \<le> 0 then V else V(k \<mapsto> (RStr v, Some (ms t))))"
| "redis_effect (SETNXEX k v t) V =
     (if t \<le> 0 \<or> V k \<noteq> None then V else V(k \<mapsto> (RStr v, Some (ms t))))"
| "redis_effect (GET k) V = V"
| "redis_effect (GETDEL k) V = (case V k of Some (RStr s, e) \<Rightarrow> V(k := None) | _ \<Rightarrow> V)"
| "redis_effect (DEL k) V = V(k := None)"
| "redis_effect (EXISTS k) V = V"
| "redis_effect (INCR k) V =
     (case V k of
        None \<Rightarrow> V(k \<mapsto> (RStr (str_int 1), None))
      | Some (RStr s, e) \<Rightarrow>
          (case redis_int s of Some i \<Rightarrow> V(k \<mapsto> (RStr (str_int (i + 1)), e)) | None \<Rightarrow> V)
      | _ \<Rightarrow> V)"
| "redis_effect (TTL k) V = V"
| "redis_effect (EXPIRE k t) V =
     (case V k of
        None \<Rightarrow> V
      | Some (v, e) \<Rightarrow> if t \<le> 0 then V(k := None) else V(k \<mapsto> (v, Some (ms t))))"
| "redis_effect (HSET k fs) V =
     (case V k of
        None \<Rightarrow> V(k \<mapsto> (RHash (map_of fs), None))
      | Some (RHash h, e) \<Rightarrow> V(k \<mapsto> (RHash (h ++ map_of fs), e))
      | _ \<Rightarrow> V)"
| "redis_effect (HGETALL k) V = V"
| "redis_effect (SADD k x) V =
     (case V k of
        None \<Rightarrow> V(k \<mapsto> (RSet {x}, None))
      | Some (RSet S, e) \<Rightarrow> V(k \<mapsto> (RSet (insert x S), e))
      | _ \<Rightarrow> V)"
| "redis_effect (SREM k x) V =
     (case V k of
        Some (RSet S, e) \<Rightarrow> if S \<subseteq> {x} then V(k := None) else V(k \<mapsto> (RSet (S - {x}), e))
      | _ \<Rightarrow> V)"
| "redis_effect (SMEMBERS k) V = V"

definition is_error :: "redis_reply \<Rightarrow> bool" where
  "is_error rep \<longleftrightarrow> (\<exists>m. rep = RError m)"

fun redis_reply_ok :: "redis_cmd \<Rightarrow> redis_view \<Rightarrow> redis_reply \<Rightarrow> bool" where
  "redis_reply_ok (SETEX k t v) V rep = (if t \<le> 0 then is_error rep else rep = ROk)"
| "redis_reply_ok (SETNXEX k v t) V rep =
     (if t \<le> 0 then is_error rep else if V k \<noteq> None then rep = RNil else rep = ROk)"
| "redis_reply_ok (GET k) V rep =
     (case V k of None \<Rightarrow> rep = RNil | Some (RStr s, e) \<Rightarrow> rep = RBulk s | _ \<Rightarrow> is_error rep)"
| "redis_reply_ok (GETDEL k) V rep =
     (case V k of None \<Rightarrow> rep = RNil | Some (RStr s, e) \<Rightarrow> rep = RBulk s | _ \<Rightarrow> is_error rep)"
| "redis_reply_ok (DEL k) V rep = (rep = RInt (if V k = None then 0 else 1))"
| "redis_reply_ok (EXISTS k) V rep = (rep = RInt (if V k = None then 0 else 1))"
| "redis_reply_ok (INCR k) V rep =
     (case V k of
        None \<Rightarrow> rep = RInt 1
      | Some (RStr s, e) \<Rightarrow> (case redis_int s of Some i \<Rightarrow> rep = RInt (i + 1) | None \<Rightarrow> is_error rep)
      | _ \<Rightarrow> is_error rep)"
| "redis_reply_ok (TTL k) V rep =
     (case V k of
        None \<Rightarrow> rep = RInt (- 2)
      | Some (v, None) \<Rightarrow> rep = RInt (- 1)
      | Some (v, Some m) \<Rightarrow>
          (\<exists>n. rep = RInt (int n) \<and> 1000 * n \<le> m + 999 \<and> m \<le> 1000 * n + 999))"
| "redis_reply_ok (EXPIRE k t) V rep = (rep = RInt (if V k = None then 0 else 1))"
| "redis_reply_ok (HSET k fs) V rep =
     (case V k of Some (RStr s, e) \<Rightarrow> is_error rep | Some (RSet S, e) \<Rightarrow> is_error rep
      | _ \<Rightarrow> \<exists>n. rep = RInt n)"
| "redis_reply_ok (HGETALL k) V rep =
     (case V k of
        None \<Rightarrow> rep = RMap []
      | Some (RHash h, e) \<Rightarrow> \<exists>kvs. rep = RMap kvs \<and> map_of kvs = h
      | _ \<Rightarrow> is_error rep)"
| "redis_reply_ok (SADD k x) V rep =
     (case V k of Some (RStr s, e) \<Rightarrow> is_error rep | Some (RHash h, e) \<Rightarrow> is_error rep
      | _ \<Rightarrow> \<exists>n. rep = RInt n)"
| "redis_reply_ok (SREM k x) V rep =
     (case V k of Some (RStr s, e) \<Rightarrow> is_error rep | Some (RHash h, e) \<Rightarrow> is_error rep
      | _ \<Rightarrow> \<exists>n. rep = RInt n)"
| "redis_reply_ok (SMEMBERS k) V rep =
     (case V k of
        None \<Rightarrow> rep = RArray []
      | Some (RSet S, e) \<Rightarrow> \<exists>xs. rep = RArray xs \<and> set xs = S \<and> distinct xs
      | _ \<Rightarrow> is_error rep)"

text \<open>The key space \<open>d\<close> milliseconds later.\<close>

definition age :: "nat \<Rightarrow> redis_view \<Rightarrow> redis_view" where
  "age d V k =
     (case V k of
        Some (v, Some m) \<Rightarrow> if m \<le> d then None else Some (v, Some (m - d))
      | x \<Rightarrow> x)"

section \<open>The client\<close>

text \<open>
  The client encodes the arguments of a command, or of all commands of a pipeline, before
  it sends anything.
\<close>

fun cmd_texts :: "redis_cmd \<Rightarrow> pystr list" where
  "cmd_texts (SETEX k t v) = [k, v]"
| "cmd_texts (SETNXEX k v t) = [k, v]"
| "cmd_texts (GET k) = [k]"
| "cmd_texts (GETDEL k) = [k]"
| "cmd_texts (DEL k) = [k]"
| "cmd_texts (EXISTS k) = [k]"
| "cmd_texts (INCR k) = [k]"
| "cmd_texts (TTL k) = [k]"
| "cmd_texts (EXPIRE k t) = [k]"
| "cmd_texts (HSET k fs) = k # map fst fs @ map snd fs"
| "cmd_texts (HGETALL k) = [k]"
| "cmd_texts (SADD k x) = [k, x]"
| "cmd_texts (SREM k x) = [k, x]"
| "cmd_texts (SMEMBERS k) = [k]"

definition sendable :: "redis_cmd \<Rightarrow> bool" where
  "sendable c \<longleftrightarrow> list_all py_text (cmd_texts c)"

definition redis_call :: "'r redis_exec \<Rightarrow> redis_cmd \<Rightarrow> ('r, redis_reply) act" where
  "redis_call exec c r =
     (if \<not> sendable c then (Inl UnicodeEncodeError, r)
      else (case exec c r of (RError m, r') \<Rightarrow> (Inl (ExternalError m), r') | (rep, r') \<Rightarrow> (Inr rep, r')))"

fun exec_all :: "'r redis_exec \<Rightarrow> redis_cmd list \<Rightarrow> 'r \<Rightarrow> redis_reply list \<times> 'r" where
  "exec_all exec [] r = ([], r)"
| "exec_all exec (c # cs) r =
     (case exec c r of (rep, r') \<Rightarrow> (case exec_all exec cs r' of (reps, r'') \<Rightarrow> (rep # reps, r'')))"

fun first_error :: "redis_reply list \<Rightarrow> pystr option" where
  "first_error [] = None"
| "first_error (RError m # reps) = Some m"
| "first_error (rep # reps) = first_error reps"

definition redis_pipeline :: "'r redis_exec \<Rightarrow> redis_cmd list \<Rightarrow> ('r, redis_reply list) act" where
  "redis_pipeline exec cs r =
     (if \<not> list_all sendable cs then (Inl UnicodeEncodeError, r)
      else (case exec_all exec cs r of (reps, r') \<Rightarrow>
             (case first_error reps of Some m \<Rightarrow> (Inl (ExternalError m), r') | None \<Rightarrow> (Inr reps, r'))))"

section \<open>The interface\<close>

locale redis_server =
  fixes exec :: "'r redis_exec" and view :: "'r \<Rightarrow> redis_view" and elapse :: "nat \<Rightarrow> 'r \<Rightarrow> 'r"
  assumes exec_effect: "view (snd (exec c r)) = redis_effect c (view r)"
    and exec_reply: "redis_reply_ok c (view r) (fst (exec c r))"
    and view_elapse: "view (elapse d r) = age d (view r)"

text \<open>A command that cannot fail on a key space, and a pipeline of such commands.\<close>

definition cmd_fine :: "redis_cmd \<Rightarrow> redis_view \<Rightarrow> bool" where
  "cmd_fine c V \<longleftrightarrow> sendable c \<and> (\<forall>rep. redis_reply_ok c V rep \<longrightarrow> \<not> is_error rep)"

fun pipe_fine :: "redis_cmd list \<Rightarrow> redis_view \<Rightarrow> bool" where
  "pipe_fine [] V = True"
| "pipe_fine (c # cs) V = (cmd_fine c V \<and> pipe_fine cs (redis_effect c V))"

definition pipe_effect :: "redis_cmd list \<Rightarrow> redis_view \<Rightarrow> redis_view" where
  "pipe_effect cs V = fold redis_effect cs V"

text \<open>When each command is fine: the time to live is positive, the key holds the right type.\<close>

definition str_or_none :: "(redis_value \<times> nat option) option \<Rightarrow> bool" where
  "str_or_none x \<longleftrightarrow> (\<forall>v e. x = Some (v, e) \<longrightarrow> (\<exists>s. v = RStr s))"

definition hash_or_none :: "(redis_value \<times> nat option) option \<Rightarrow> bool" where
  "hash_or_none x \<longleftrightarrow> (\<forall>v e. x = Some (v, e) \<longrightarrow> (\<exists>h. v = RHash h))"

definition set_or_none :: "(redis_value \<times> nat option) option \<Rightarrow> bool" where
  "set_or_none x \<longleftrightarrow> (\<forall>v e. x = Some (v, e) \<longrightarrow> (\<exists>S. v = RSet S))"

lemma kind_simps [simp]:
  "str_or_none None" "hash_or_none None" "set_or_none None"
  "str_or_none (Some (RStr s, e))" "hash_or_none (Some (RHash h, e))" "set_or_none (Some (RSet S, e))"
  by (simp_all add: str_or_none_def hash_or_none_def set_or_none_def)

lemma cmd_fine_simps [simp]:
  "0 < t \<Longrightarrow> py_text k \<Longrightarrow> py_text v \<Longrightarrow> cmd_fine (SETEX k t v) V"
  "0 < t \<Longrightarrow> py_text k \<Longrightarrow> py_text v \<Longrightarrow> cmd_fine (SETNXEX k v t) V"
  "py_text k \<Longrightarrow> cmd_fine (DEL k) V" "py_text k \<Longrightarrow> cmd_fine (EXISTS k) V"
  "py_text k \<Longrightarrow> cmd_fine (EXPIRE k t) V" "py_text k \<Longrightarrow> cmd_fine (TTL k) V"
  "py_text k \<Longrightarrow> str_or_none (V k) \<Longrightarrow> cmd_fine (GET k) V"
  "py_text k \<Longrightarrow> str_or_none (V k) \<Longrightarrow> cmd_fine (GETDEL k) V"
  "py_text k \<Longrightarrow> \<forall>(f, v)\<in>set fs. py_text f \<and> py_text v \<Longrightarrow> hash_or_none (V k) \<Longrightarrow> cmd_fine (HSET k fs) V"
  "py_text k \<Longrightarrow> hash_or_none (V k) \<Longrightarrow> cmd_fine (HGETALL k) V"
  "py_text k \<Longrightarrow> py_text x \<Longrightarrow> set_or_none (V k) \<Longrightarrow> cmd_fine (SADD k x) V"
  "py_text k \<Longrightarrow> py_text x \<Longrightarrow> set_or_none (V k) \<Longrightarrow> cmd_fine (SREM k x) V"
  "py_text k \<Longrightarrow> set_or_none (V k) \<Longrightarrow> cmd_fine (SMEMBERS k) V"
  by (auto simp: cmd_fine_def is_error_def sendable_def list_all_iff str_or_none_def hash_or_none_def set_or_none_def
      split: option.splits redis_value.splits prod.splits)

lemma first_error_None: "first_error reps = None \<longleftrightarrow> (\<forall>rep\<in>set reps. \<not> is_error rep)"
  by (induction reps rule: first_error.induct) (auto simp: is_error_def)

context redis_server
begin

lemma redis_call_state: "sendable c \<Longrightarrow> view (snd (redis_call exec c r)) = redis_effect c (view r)"
  using exec_effect[of c r]
  by (auto simp: redis_call_def split: prod.splits redis_reply.splits)

lemma redis_call_fine:
  assumes "cmd_fine c (view r)"
  obtains rep r' where "redis_call exec c r = (Inr rep, r')" "redis_reply_ok c (view r) rep"
    and "view r' = redis_effect c (view r)"
proof -
  obtain rep r' where e: "exec c r = (rep, r')" by (cases "exec c r")
  have ok: "redis_reply_ok c (view r) rep" using exec_reply[of c r] e by simp
  then have "\<not> is_error rep" "sendable c" using assms by (simp_all add: cmd_fine_def)
  then have "redis_call exec c r = (Inr rep, r')"
    using e by (cases rep) (auto simp: redis_call_def is_error_def)
  then show thesis using that ok exec_effect[of c r] e by simp
qed

lemma exec_all_state: "view (snd (exec_all exec cs r)) = pipe_effect cs (view r)"
proof (induction cs arbitrary: r)
  case Nil
  then show ?case by (simp add: pipe_effect_def)
next
  case (Cons c cs)
  then show ?case using exec_effect[of c r]
    by (auto simp: pipe_effect_def split: prod.splits) (metis snd_conv)
qed

lemma pipe_fine_sendable: "pipe_fine cs V \<Longrightarrow> list_all sendable cs"
  by (induction cs arbitrary: V) (auto simp: cmd_fine_def)

lemma pipeline_state:
  "list_all sendable cs \<Longrightarrow> view (snd (redis_pipeline exec cs r)) = pipe_effect cs (view r)"
  using exec_all_state[of cs r]
  by (auto simp: redis_pipeline_def split: prod.splits option.splits)

lemma exec_all_fine:
  "pipe_fine cs (view r) \<Longrightarrow> \<forall>rep\<in>set (fst (exec_all exec cs r)). \<not> is_error rep"
proof (induction cs arbitrary: r)
  case Nil
  then show ?case by simp
next
  case (Cons c cs)
  obtain rep r' where e: "exec c r = (rep, r')" by (cases "exec c r")
  have "\<not> is_error rep"
    using Cons.prems exec_reply[of c r] e by (simp add: cmd_fine_def)
  moreover have "pipe_fine cs (view r')" using Cons.prems exec_effect[of c r] e by simp
  ultimately show ?case using Cons.IH[of r'] e by (auto split: prod.splits)
qed

lemma pipeline_fine:
  assumes "pipe_fine cs (view r)"
  obtains reps r' where "redis_pipeline exec cs r = (Inr reps, r')"
    and "view r' = pipe_effect cs (view r)"
proof -
  obtain reps r' where e: "exec_all exec cs r = (reps, r')" by (cases "exec_all exec cs r")
  have "first_error reps = None" using exec_all_fine[OF assms] e by (simp add: first_error_None)
  then show thesis
    using that e exec_all_state[of cs r] pipe_fine_sendable[OF assms] by (simp add: redis_pipeline_def)
qed

end

section \<open>A reference server\<close>

text \<open>
  An executable server that behaves as documented: hashes and sets are kept as lists.
\<close>

datatype ref_value =
    FStr pystr
  | FHash "(pystr \<times> pystr) list"
  | FSet "pystr list"

type_synonym ref_state = "pystr \<Rightarrow> (ref_value \<times> nat option) option"

fun ref_abs :: "ref_value \<Rightarrow> redis_value" where
  "ref_abs (FStr s) = RStr s"
| "ref_abs (FHash kvs) = RHash (map_of kvs)"
| "ref_abs (FSet xs) = RSet (set xs)"

definition ref_view :: "ref_state \<Rightarrow> redis_view" where
  "ref_view r k = map_option (\<lambda>(v, e). (ref_abs v, e)) (r k)"

definition ref_wrongtype :: redis_reply where
  "ref_wrongtype = RError (lit ''WRONGTYPE'')"

fun ref_exec :: "ref_state redis_exec" where
  "ref_exec (SETEX k t v) r =
     (if t \<le> 0 then (RError (lit ''invalid expire time''), r) else (ROk, r(k \<mapsto> (FStr v, Some (ms t)))))"
| "ref_exec (SETNXEX k v t) r =
     (if t \<le> 0 then (RError (lit ''invalid expire time''), r)
      else if r k \<noteq> None then (RNil, r) else (ROk, r(k \<mapsto> (FStr v, Some (ms t)))))"
| "ref_exec (GET k) r =
     (case r k of None \<Rightarrow> (RNil, r) | Some (FStr s, e) \<Rightarrow> (RBulk s, r) | _ \<Rightarrow> (ref_wrongtype, r))"
| "ref_exec (GETDEL k) r =
     (case r k of None \<Rightarrow> (RNil, r) | Some (FStr s, e) \<Rightarrow> (RBulk s, r(k := None)) | _ \<Rightarrow> (ref_wrongtype, r))"
| "ref_exec (DEL k) r = (RInt (if r k = None then 0 else 1), r(k := None))"
| "ref_exec (EXISTS k) r = (RInt (if r k = None then 0 else 1), r)"
| "ref_exec (INCR k) r =
     (case r k of
        None \<Rightarrow> (RInt 1, r(k \<mapsto> (FStr (str_int 1), None)))
      | Some (FStr s, e) \<Rightarrow>
          (case redis_int s of
             Some i \<Rightarrow> (RInt (i + 1), r(k \<mapsto> (FStr (str_int (i + 1)), e)))
           | None \<Rightarrow> (RError (lit ''not an integer''), r))
      | _ \<Rightarrow> (ref_wrongtype, r))"
| "ref_exec (TTL k) r =
     (case r k of
        None \<Rightarrow> (RInt (- 2), r)
      | Some (v, None) \<Rightarrow> (RInt (- 1), r)
      | Some (v, Some m) \<Rightarrow> (RInt (int ((m + 500) div 1000)), r))"
| "ref_exec (EXPIRE k t) r =
     (case r k of
        None \<Rightarrow> (RInt 0, r)
      | Some (v, e) \<Rightarrow> (RInt 1, if t \<le> 0 then r(k := None) else r(k \<mapsto> (v, Some (ms t)))))"
| "ref_exec (HSET k fs) r =
     (case r k of
        None \<Rightarrow> (RInt (int (length fs)), r(k \<mapsto> (FHash fs, None)))
      | Some (FHash kvs, e) \<Rightarrow>
          (RInt (int (length (filter (\<lambda>(f, _). map_of kvs f = None) fs))), r(k \<mapsto> (FHash (fs @ kvs), e)))
      | _ \<Rightarrow> (ref_wrongtype, r))"
| "ref_exec (HGETALL k) r =
     (case r k of None \<Rightarrow> (RMap [], r) | Some (FHash kvs, e) \<Rightarrow> (RMap kvs, r) | _ \<Rightarrow> (ref_wrongtype, r))"
| "ref_exec (SADD k x) r =
     (case r k of
        None \<Rightarrow> (RInt 1, r(k \<mapsto> (FSet [x], None)))
      | Some (FSet xs, e) \<Rightarrow>
          (RInt (if x \<in> set xs then 0 else 1), r(k \<mapsto> (FSet (x # removeAll x xs), e)))
      | _ \<Rightarrow> (ref_wrongtype, r))"
| "ref_exec (SREM k x) r =
     (case r k of
        None \<Rightarrow> (RInt 0, r)
      | Some (FSet xs, e) \<Rightarrow>
          (RInt (if x \<in> set xs then 1 else 0),
           if removeAll x xs = [] then r(k := None) else r(k \<mapsto> (FSet (removeAll x xs), e)))
      | _ \<Rightarrow> (ref_wrongtype, r))"
| "ref_exec (SMEMBERS k) r =
     (case r k of
        None \<Rightarrow> (RArray [], r) | Some (FSet xs, e) \<Rightarrow> (RArray (remdups xs), r) | _ \<Rightarrow> (ref_wrongtype, r))"

definition ref_elapse :: "nat \<Rightarrow> ref_state \<Rightarrow> ref_state" where
  "ref_elapse d r k =
     (case r k of
        Some (v, Some m) \<Rightarrow> if m \<le> d then None else Some (v, Some (m - d))
      | x \<Rightarrow> x)"

lemma ref_view_upd [simp]:
  "ref_view (r(k := None)) = (ref_view r)(k := None)"
  "ref_view (r(k \<mapsto> (v, e))) = (ref_view r)(k \<mapsto> (ref_abs v, e))"
  by (auto simp: ref_view_def fun_eq_iff)

lemma ref_view_None [simp]: "ref_view r k = None \<longleftrightarrow> r k = None"
  by (simp add: ref_view_def)

lemma ref_view_case: "ref_view r k = (case r k of None \<Rightarrow> None | Some (v, e) \<Rightarrow> Some (ref_abs v, e))"
  by (simp add: ref_view_def split: option.splits)

lemma removeAll_Nil_iff: "removeAll x xs = [] \<longleftrightarrow> set xs \<subseteq> {x}"
  by (induction xs) auto

lemma ref_exec_effect: "ref_view (snd (ref_exec c r)) = redis_effect c (ref_view r)"
  by (cases c)
    (auto simp: ref_view_case map_of_append removeAll_Nil_iff insert_Diff_if
      split: option.splits ref_value.splits prod.splits)

lemma ref_exec_reply: "redis_reply_ok c (ref_view r) (fst (ref_exec c r))"
  by (cases c)
    (auto simp: ref_view_case is_error_def ref_wrongtype_def
      split: option.splits ref_value.splits prod.splits)

interpretation ref: redis_server ref_exec ref_view ref_elapse
proof
  show "ref_view (ref_elapse d r) = age d (ref_view r)" for d r
    by (rule ext) (auto simp: age_def ref_elapse_def ref_view_def split: option.splits)
qed (rule ref_exec_effect, rule ref_exec_reply)

end
