(* ===== verification/TokenStore.thy ===== *)
theory TokenStore
  imports Redis
begin

text \<open>
  \<open>RedisTokenStore\<close>, \<open>auth_service/infrastructure/redis/redis_token_store.py\<close>: the allowlist
  of access token ids, the single-use refresh tokens, the session hashes and the index of
  a user's sessions. Every method is a coroutine over the server's state, with the server
  (\<open>exec\<close>) as its first argument; the text of the clock reading is an argument where the
  method writes it.

  The last section splits the key space into the four kinds of key the store uses. The
  invariant is in \<open>TokenStoreInv\<close>, the behaviour of the methods and the port's contract in
  \<open>SessionStore\<close>.
\<close>

section \<open>Keys\<close>

definition access_key :: "pystr \<Rightarrow> pystr" where
  "access_key jti = lit ''access:'' @ jti"

definition refresh_key :: "pystr \<Rightarrow> pystr" where
  "refresh_key token = lit ''refresh:'' @ token"

definition session_key :: "pystr \<Rightarrow> pystr" where
  "session_key session_id = lit ''session:'' @ session_id"

definition user_sessions_key :: "pystr \<Rightarrow> pystr" where
  "user_sessions_key user_id = lit ''sessions:'' @ user_id"

text \<open>The payload of an access or refresh key, \<open>{user_id}:{session_id}\<close>.\<close>

definition payload :: "pystr \<Rightarrow> pystr \<Rightarrow> pystr" where
  "payload user_id session_id = user_id @ [58] @ session_id"

section \<open>Methods\<close>

type_synonym session_data = "(pystr \<times> pystr) list"

record session_ref =
  ref_user_id :: pystr
  ref_session_id :: pystr

definition create_cmds ::
  "pystr \<Rightarrow> uuid \<Rightarrow> uuid \<Rightarrow> pystr \<Rightarrow> pystr \<Rightarrow> pystr option \<Rightarrow> int \<Rightarrow> int \<Rightarrow> redis_cmd list" where
  "create_cmds now_iso session_id user_id access_jti refresh_token device_info access_ttl refresh_ttl =
     [SETEX (access_key access_jti) access_ttl (payload (str_uuid user_id) (str_uuid session_id)),
      SETEX (refresh_key refresh_token) refresh_ttl (payload (str_uuid user_id) (str_uuid session_id)),
      HSET (session_key (str_uuid session_id))
        [(lit ''user_id'', str_uuid user_id),
         (lit ''device_info'', case device_info of None \<Rightarrow> [] | Some d \<Rightarrow> d),
         (lit ''created_at'', now_iso),
         (lit ''last_used'', now_iso),
         (lit ''current_jti'', access_jti),
         (lit ''current_refresh'', refresh_token)],
      EXPIRE (session_key (str_uuid session_id)) refresh_ttl,
      SADD (user_sessions_key (str_uuid user_id)) (str_uuid session_id),
      EXPIRE (user_sessions_key (str_uuid user_id)) refresh_ttl]"

definition create_session ::
  "'r redis_exec \<Rightarrow> pystr \<Rightarrow> uuid \<Rightarrow> uuid \<Rightarrow> pystr \<Rightarrow> pystr \<Rightarrow> pystr option \<Rightarrow> int \<Rightarrow> int \<Rightarrow> ('r, unit) act"
where
  "create_session exec now_iso session_id user_id access_jti refresh_token device_info access_ttl refresh_ttl =
     bnd (redis_pipeline exec
            (create_cmds now_iso session_id user_id access_jti refresh_token device_info access_ttl refresh_ttl))
         (\<lambda>_. ret ())"

definition get_session :: "'r redis_exec \<Rightarrow> uuid \<Rightarrow> ('r, session_data option) act" where
  "get_session exec session_id =
     bnd (redis_call exec (HGETALL (session_key (str_uuid session_id))))
         (\<lambda>rep. case rep of
             RMap data \<Rightarrow> ret (if data = [] then None else Some data)
           | _ \<Rightarrow> raise_exn TypeError)"

definition is_access_jti_valid :: "'r redis_exec \<Rightarrow> pystr \<Rightarrow> ('r, bool) act" where
  "is_access_jti_valid exec jti =
     bnd (redis_call exec (EXISTS (access_key jti)))
         (\<lambda>rep. case rep of RInt n \<Rightarrow> ret (n \<noteq> 0) | _ \<Rightarrow> raise_exn TypeError)"

definition get_session_by_refresh_token ::
  "'r redis_exec \<Rightarrow> pystr \<Rightarrow> ('r, session_ref option) act" where
  "get_session_by_refresh_token exec refresh_token =
     bnd (redis_call exec (GETDEL (refresh_key refresh_token)))
         (\<lambda>rep. case rep of
             RNil \<Rightarrow> ret None
           | RBulk raw \<Rightarrow>
               (case py_split1 58 raw of
                  [user_id_str, session_id_str] \<Rightarrow>
                    ret (Some \<lparr>ref_user_id = user_id_str, ref_session_id = session_id_str\<rparr>)
                | _ \<Rightarrow> raise_exn (InvalidTokenError (lit ''Malformed refresh token payload in store'')))
           | _ \<Rightarrow> raise_exn TypeError)"

text \<open>\<open>data.get(field, "")\<close> on the session's metadata.\<close>

definition data_get :: "session_data \<Rightarrow> string \<Rightarrow> pystr" where
  "data_get data f = (case map_of data (lit f) of None \<Rightarrow> [] | Some v \<Rightarrow> v)"

definition rotate_cmds ::
  "pystr \<Rightarrow> uuid \<Rightarrow> pystr \<Rightarrow> pystr \<Rightarrow> uuid \<Rightarrow> pystr \<Rightarrow> pystr \<Rightarrow> pystr \<Rightarrow> int \<Rightarrow> int \<Rightarrow> redis_cmd list" where
  "rotate_cmds now_iso session_id user_id old_jti user_uuid old_refresh_token new_access_jti
       new_refresh_token access_ttl refresh_ttl =
     [DEL (refresh_key old_refresh_token)] @
     (if old_jti \<noteq> [] then [DEL (access_key old_jti)] else []) @
     [SETEX (access_key new_access_jti) access_ttl (payload user_id (str_uuid session_id)),
      SETEX (refresh_key new_refresh_token) refresh_ttl (payload user_id (str_uuid session_id)),
      HSET (session_key (str_uuid session_id))
        [(lit ''last_used'', now_iso),
         (lit ''current_jti'', new_access_jti),
         (lit ''current_refresh'', new_refresh_token)],
      EXPIRE (session_key (str_uuid session_id)) refresh_ttl,
      EXPIRE (user_sessions_key (str_uuid user_uuid)) refresh_ttl]"

definition rotate_session ::
  "unicode \<Rightarrow> 'r redis_exec \<Rightarrow> pystr \<Rightarrow> uuid \<Rightarrow> pystr \<Rightarrow> pystr \<Rightarrow> pystr \<Rightarrow> int \<Rightarrow> int \<Rightarrow> ('r, unit) act"
where
  "rotate_session U exec now_iso session_id old_refresh_token new_access_jti new_refresh_token
       access_ttl refresh_ttl =
     bnd (get_session exec session_id) (\<lambda>session_data.
       case session_data of
         None \<Rightarrow> raise_exn (InvalidTokenError (lit ''Session not found or expired during rotation''))
       | Some data \<Rightarrow>
           (case map_of data (lit ''user_id'') of
              None \<Rightarrow> raise_exn KeyError
            | Some user_id \<Rightarrow>
                bnd (lift_res (UUID U user_id)) (\<lambda>user_uuid.
                bnd (redis_pipeline exec
                       (rotate_cmds now_iso session_id user_id (data_get data ''current_jti'') user_uuid
                          old_refresh_token new_access_jti new_refresh_token access_ttl refresh_ttl))
                    (\<lambda>_. ret ()))))"

definition revoke_cmds :: "uuid \<Rightarrow> pystr \<Rightarrow> pystr \<Rightarrow> pystr \<Rightarrow> redis_cmd list" where
  "revoke_cmds session_id user_id jti refresh =
     (if jti \<noteq> [] then [DEL (access_key jti)] else []) @
     (if refresh \<noteq> [] then [DEL (refresh_key refresh)] else []) @
     [DEL (session_key (str_uuid session_id))] @
     (if user_id \<noteq> [] then [SREM (user_sessions_key user_id) (str_uuid session_id)] else [])"

definition revoke_session :: "'r redis_exec \<Rightarrow> uuid \<Rightarrow> ('r, unit) act" where
  "revoke_session exec session_id =
     bnd (get_session exec session_id) (\<lambda>session_data.
       case session_data of
         None \<Rightarrow> ret ()
       | Some data \<Rightarrow>
           bnd (redis_pipeline exec
                  (revoke_cmds session_id (data_get data ''user_id'') (data_get data ''current_jti'')
                     (data_get data ''current_refresh'')))
               (\<lambda>_. ret ()))"

definition revoke_all_user_sessions :: "unicode \<Rightarrow> 'r redis_exec \<Rightarrow> uuid \<Rightarrow> ('r, unit) act" where
  "revoke_all_user_sessions U exec user_id =
     bnd (redis_call exec (SMEMBERS (user_sessions_key (str_uuid user_id)))) (\<lambda>rep.
       case rep of
         RArray session_ids_raw \<Rightarrow>
           bnd (redis_call exec (DEL (user_sessions_key (str_uuid user_id)))) (\<lambda>_.
             for_each (\<lambda>sid_str. bnd (lift_res (UUID U sid_str)) (revoke_session exec)) session_ids_raw)
       | _ \<Rightarrow> raise_exn TypeError)"

section \<open>The four key spaces\<close>

lemma key_inj [simp]:
  "access_key a = access_key b \<longleftrightarrow> a = b" "refresh_key a = refresh_key b \<longleftrightarrow> a = b"
  "session_key a = session_key b \<longleftrightarrow> a = b" "user_sessions_key a = user_sessions_key b \<longleftrightarrow> a = b"
  by (simp_all add: access_key_def refresh_key_def session_key_def user_sessions_key_def)

lemma key_disjoint [simp]:
  "access_key a \<noteq> refresh_key b" "refresh_key b \<noteq> access_key a"
  "access_key a \<noteq> session_key b" "session_key b \<noteq> access_key a"
  "access_key a \<noteq> user_sessions_key b" "user_sessions_key b \<noteq> access_key a"
  "refresh_key a \<noteq> session_key b" "session_key b \<noteq> refresh_key a"
  "refresh_key a \<noteq> user_sessions_key b" "user_sessions_key b \<noteq> refresh_key a"
  "session_key a \<noteq> user_sessions_key b" "user_sessions_key b \<noteq> session_key a"
  by (simp_all add: access_key_def refresh_key_def session_key_def user_sessions_key_def lit_def)

lemma py_text_key [simp]:
  "py_text (access_key a) \<longleftrightarrow> py_text a" "py_text (refresh_key a) \<longleftrightarrow> py_text a"
  "py_text (session_key a) \<longleftrightarrow> py_text a" "py_text (user_sessions_key a) \<longleftrightarrow> py_text a"
  "py_text (payload a b) \<longleftrightarrow> py_text a \<and> py_text b"
  by (auto simp: access_key_def refresh_key_def session_key_def user_sessions_key_def payload_def is_surrogate_def)

text \<open>A key space seen through each kind of key.\<close>

type_synonym entry = "redis_value \<times> nat option"

definition acc :: "redis_view \<Rightarrow> pystr \<Rightarrow> entry option" where
  "acc V j = V (access_key j)"

definition rfr :: "redis_view \<Rightarrow> pystr \<Rightarrow> entry option" where
  "rfr V t = V (refresh_key t)"

definition ses :: "redis_view \<Rightarrow> pystr \<Rightarrow> entry option" where
  "ses V x = V (session_key x)"

definition usr :: "redis_view \<Rightarrow> pystr \<Rightarrow> entry option" where
  "usr V x = V (user_sessions_key x)"

lemma proj_upd [simp]:
  "acc (V(access_key k := e)) = (acc V)(k := e)" "acc (V(refresh_key k := e)) = acc V"
  "acc (V(session_key k := e)) = acc V" "acc (V(user_sessions_key k := e)) = acc V"
  "rfr (V(access_key k := e)) = rfr V" "rfr (V(refresh_key k := e)) = (rfr V)(k := e)"
  "rfr (V(session_key k := e)) = rfr V" "rfr (V(user_sessions_key k := e)) = rfr V"
  "ses (V(access_key k := e)) = ses V" "ses (V(refresh_key k := e)) = ses V"
  "ses (V(session_key k := e)) = (ses V)(k := e)" "ses (V(user_sessions_key k := e)) = ses V"
  "usr (V(access_key k := e)) = usr V" "usr (V(refresh_key k := e)) = usr V"
  "usr (V(session_key k := e)) = usr V" "usr (V(user_sessions_key k := e)) = (usr V)(k := e)"
  by (rule ext, simp add: acc_def rfr_def ses_def usr_def)+

lemmas proj_defs = acc_def rfr_def ses_def usr_def

end
