(* ===== verification/TokenStoreInv.thy ===== *)
theory TokenStoreInv
  imports TokenStore
begin

text \<open>
  The invariant of the token store: how the allowlist, the refresh tokens, the session
  hashes and the users' indexes fit together (\<open>store_inv\<close>). First what each transaction
  does to the four key spaces, then that each transaction, taking a refresh token,
  dropping an index and the passing of time keep the invariant.
\<close>

section \<open>What the transactions do to the key spaces\<close>

definition members :: "entry option \<Rightarrow> pystr set" where
  "members x = (case x of Some (RSet S, e) \<Rightarrow> S | _ \<Rightarrow> {})"

definition session_fields :: "pystr \<Rightarrow> uuid \<Rightarrow> pystr \<Rightarrow> pystr \<Rightarrow> pystr option \<Rightarrow> pystr \<rightharpoonup> pystr" where
  "session_fields now_iso uid jti rt dev =
     [lit ''user_id'' \<mapsto> str_uuid uid,
      lit ''device_info'' \<mapsto> (case dev of None \<Rightarrow> [] | Some d \<Rightarrow> d),
      lit ''created_at'' \<mapsto> now_iso, lit ''last_used'' \<mapsto> now_iso,
      lit ''current_jti'' \<mapsto> jti, lit ''current_refresh'' \<mapsto> rt]"

lemma session_fields_simps [simp]:
  "session_fields now_iso uid jti rt dev (lit ''user_id'') = Some (str_uuid uid)"
  "session_fields now_iso uid jti rt dev (lit ''current_jti'') = Some jti"
  "session_fields now_iso uid jti rt dev (lit ''current_refresh'') = Some rt"
  by (simp_all add: session_fields_def)

lemma create_effect:
  fixes V :: redis_view and now_iso jti tok :: pystr and dev :: "pystr option"
  assumes ttl: "0 < at" "0 < rt" and s: "ses V (str_uuid sid) = None"
    and u: "set_or_none (usr V (str_uuid uid))"
  defines "V' \<equiv> pipe_effect (create_cmds now_iso sid uid jti tok dev at rt) V"
  shows "py_text now_iso \<Longrightarrow> py_text jti \<Longrightarrow> py_text tok \<Longrightarrow> pred_option py_text dev \<Longrightarrow>
           pipe_fine (create_cmds now_iso sid uid jti tok dev at rt) V"
    and "acc V' = (acc V)(jti \<mapsto> (RStr (payload (str_uuid uid) (str_uuid sid)), Some (ms at)))"
    and "rfr V' = (rfr V)(tok \<mapsto> (RStr (payload (str_uuid uid) (str_uuid sid)), Some (ms rt)))"
    and "ses V' = (ses V)(str_uuid sid \<mapsto> (RHash (session_fields now_iso uid jti tok dev), Some (ms rt)))"
    and "usr V' = (usr V)(str_uuid uid \<mapsto>
           (RSet (insert (str_uuid sid) (members (usr V (str_uuid uid)))), Some (ms rt)))"
proof -
  have V: "V (session_key (str_uuid sid)) = None" using s by (simp add: ses_def)
  have f: "map_of [(lit ''user_id'', str_uuid uid),
         (lit ''device_info'', case dev of None \<Rightarrow> [] | Some d \<Rightarrow> d),
         (lit ''created_at'', now_iso), (lit ''last_used'', now_iso),
         (lit ''current_jti'', jti), (lit ''current_refresh'', tok)] =
       session_fields now_iso uid jti tok dev"
    by (auto simp: session_fields_def fun_eq_iff)
  consider (none) "V (user_sessions_key (str_uuid uid)) = None"
    | (set) S e where "V (user_sessions_key (str_uuid uid)) = Some (RSet S, e)"
    using u by (cases "usr V (str_uuid uid)") (auto simp: usr_def set_or_none_def)
  note c = this
  show "py_text now_iso \<Longrightarrow> py_text jti \<Longrightarrow> py_text tok \<Longrightarrow> pred_option py_text dev \<Longrightarrow>
      pipe_fine (create_cmds now_iso sid uid jti tok dev at rt) V"
    using ttl V by (cases rule: c; cases dev) (simp_all add: create_cmds_def)
  show "acc V' = (acc V)(jti \<mapsto> (RStr (payload (str_uuid uid) (str_uuid sid)), Some (ms at)))"
    and "rfr V' = (rfr V)(tok \<mapsto> (RStr (payload (str_uuid uid) (str_uuid sid)), Some (ms rt)))"
    and "ses V' = (ses V)(str_uuid sid \<mapsto> (RHash (session_fields now_iso uid jti tok dev), Some (ms rt)))"
    and "usr V' = (usr V)(str_uuid uid \<mapsto>
           (RSet (insert (str_uuid sid) (members (usr V (str_uuid uid)))), Some (ms rt)))"
    using ttl V unfolding V'_def f[symmetric]
    by (cases rule: c, simp_all add: pipe_effect_def create_cmds_def members_def usr_def)+
qed

lemma rotate_effect:
  fixes V :: redis_view and now_iso user old new_jti new :: pystr
  assumes ttl: "0 < at" "0 < rt" and s: "ses V (str_uuid sid) = Some (RHash h, Some m)"
    and u: "usr V (str_uuid uid) = Some (RSet S, Some m')" and j: "token_text old_jti"
  defines "V' \<equiv> pipe_effect (rotate_cmds now_iso sid user old_jti uid old new_jti new at rt) V"
  shows "py_text now_iso \<Longrightarrow> py_text user \<Longrightarrow> py_text old \<Longrightarrow> py_text new_jti \<Longrightarrow> py_text new \<Longrightarrow>
           pipe_fine (rotate_cmds now_iso sid user old_jti uid old new_jti new at rt) V"
    and "acc V' = ((acc V)(old_jti := None))(new_jti \<mapsto> (RStr (payload user (str_uuid sid)), Some (ms at)))"
    and "rfr V' = ((rfr V)(old := None))(new \<mapsto> (RStr (payload user (str_uuid sid)), Some (ms rt)))"
    and "ses V' = (ses V)(str_uuid sid \<mapsto>
           (RHash (h(lit ''last_used'' \<mapsto> now_iso, lit ''current_jti'' \<mapsto> new_jti,
                     lit ''current_refresh'' \<mapsto> new)), Some (ms rt)))"
    and "usr V' = (usr V)(str_uuid uid \<mapsto> (RSet S, Some (ms rt)))"
proof -
  have V: "V (session_key (str_uuid sid)) = Some (RHash h, Some m)"
    "V (user_sessions_key (str_uuid uid)) = Some (RSet S, Some m')"
    using s u by (simp_all add: ses_def usr_def)
  have f: "h ++ map_of [(lit ''last_used'', now_iso), (lit ''current_jti'', new_jti),
         (lit ''current_refresh'', new)] =
       h(lit ''last_used'' \<mapsto> now_iso, lit ''current_jti'' \<mapsto> new_jti, lit ''current_refresh'' \<mapsto> new)"
    by (auto simp: fun_eq_iff map_add_def)
  show "py_text now_iso \<Longrightarrow> py_text user \<Longrightarrow> py_text old \<Longrightarrow> py_text new_jti \<Longrightarrow> py_text new \<Longrightarrow>
      pipe_fine (rotate_cmds now_iso sid user old_jti uid old new_jti new at rt) V"
    using ttl V j by (simp add: rotate_cmds_def token_text_def)
  show "acc V' = ((acc V)(old_jti := None))(new_jti \<mapsto> (RStr (payload user (str_uuid sid)), Some (ms at)))"
    and "rfr V' = ((rfr V)(old := None))(new \<mapsto> (RStr (payload user (str_uuid sid)), Some (ms rt)))"
    and "ses V' = (ses V)(str_uuid sid \<mapsto>
           (RHash (h(lit ''last_used'' \<mapsto> now_iso, lit ''current_jti'' \<mapsto> new_jti,
                     lit ''current_refresh'' \<mapsto> new)), Some (ms rt)))"
    and "usr V' = (usr V)(str_uuid uid \<mapsto> (RSet S, Some (ms rt)))"
    using ttl V token_textD(1)[OF j] unfolding V'_def f[symmetric]
    by (simp_all add: pipe_effect_def rotate_cmds_def)
qed

lemma revoke_effect:
  fixes V :: redis_view and sid :: uuid
  assumes u: "set_or_none (usr V user)" and ne: "token_text user" "token_text jti" "token_text tok"
  defines "V' \<equiv> pipe_effect (revoke_cmds sid user jti tok) V"
  shows "pipe_fine (revoke_cmds sid user jti tok) V"
    and "acc V' = (acc V)(jti := None)" and "rfr V' = (rfr V)(tok := None)"
    and "ses V' = (ses V)(str_uuid sid := None)"
    and "x \<noteq> user \<Longrightarrow> usr V' x = usr V x"
    and "members (usr V' user) = members (usr V user) - {str_uuid sid}"
    and "usr V' user = Some (v, e) \<Longrightarrow> \<exists>S. usr V user = Some (RSet S, e) \<and> v = RSet (S - {str_uuid sid})"
proof -
  consider (none) "V (user_sessions_key user) = None"
    | (set) S e where "V (user_sessions_key user) = Some (RSet S, e)"
    using u by (cases "usr V user") (auto simp: usr_def set_or_none_def)
  note c = this
  note ne' = ne[THEN token_textD(1)]
  show "pipe_fine (revoke_cmds sid user jti tok) V"
    using ne by (cases rule: c) (simp_all add: revoke_cmds_def token_text_def)
  show "acc V' = (acc V)(jti := None)" and "rfr V' = (rfr V)(tok := None)"
    and "ses V' = (ses V)(str_uuid sid := None)"
    using ne' unfolding V'_def
    by (cases rule: c, simp_all add: pipe_effect_def revoke_cmds_def)+
  show "x \<noteq> user \<Longrightarrow> usr V' x = usr V x"
    using ne' unfolding V'_def
    by (cases rule: c) (simp_all add: pipe_effect_def revoke_cmds_def usr_def)
  show "members (usr V' user) = members (usr V user) - {str_uuid sid}"
    using ne' unfolding V'_def
    by (cases rule: c) (auto simp: pipe_effect_def revoke_cmds_def usr_def members_def)
  show "usr V' user = Some (v, e) \<Longrightarrow> \<exists>S. usr V user = Some (RSet S, e) \<and> v = RSet (S - {str_uuid sid})"
    using ne' unfolding V'_def
    by (cases rule: c) (auto simp: pipe_effect_def revoke_cmds_def usr_def split: if_splits)
qed


section \<open>The invariant of the store\<close>

text \<open>
  A session's hash names its user and its current tokens, expires within the refresh
  lifetime, and is in the index of its user, which lives at least as long. \<open>X\<close> holds the
  sessions that are about to be revoked and are no longer indexed; it is empty except
  while \<open>revoke_all_user_sessions\<close> runs.
\<close>

definition session_ok :: "nat \<Rightarrow> pystr set \<Rightarrow> redis_view \<Rightarrow> pystr \<Rightarrow> redis_value \<Rightarrow> nat option \<Rightarrow> bool" where
  "session_ok RT X V x v e \<longleftrightarrow>
     (\<exists>sid h m u j t. x = str_uuid sid \<and> v = RHash h \<and> e = Some m \<and> m \<le> RT \<and>
        h (lit ''user_id'') = Some (str_uuid u) \<and>
        h (lit ''current_jti'') = Some j \<and> token_text j \<and> h (lit ''current_refresh'') = Some t \<and> token_text t \<and>
        (x \<in> X \<or> (\<exists>S m'. usr V (str_uuid u) = Some (RSet S, Some m') \<and> x \<in> S \<and> m \<le> m')))"

text \<open>
  A live access or refresh key names a live session of which it is the current token, and
  does not outlive it.
\<close>

definition token_ok :: "redis_view \<Rightarrow> string \<Rightarrow> pystr \<Rightarrow> redis_value \<Rightarrow> nat option \<Rightarrow> bool" where
  "token_ok V f tok v e \<longleftrightarrow>
     (\<exists>u sid m h m'. v = RStr (payload (str_uuid u) (str_uuid sid)) \<and> e = Some m \<and>
        ses V (str_uuid sid) = Some (RHash h, Some m') \<and> m \<le> m' \<and>
        h (lit ''user_id'') = Some (str_uuid u) \<and> h (lit f) = Some tok)"

definition index_ok :: "redis_value \<Rightarrow> bool" where
  "index_ok v \<longleftrightarrow> (\<exists>S. v = RSet S \<and> (\<forall>y\<in>S. \<exists>sid. y = str_uuid sid))"

definition store_inv :: "nat \<Rightarrow> pystr set \<Rightarrow> redis_view \<Rightarrow> bool" where
  "store_inv RT X V \<longleftrightarrow>
     (\<forall>x v e. ses V x = Some (v, e) \<longrightarrow> session_ok RT X V x v e) \<and>
     (\<forall>x v e. usr V x = Some (v, e) \<longrightarrow> index_ok v) \<and>
     (\<forall>j v e. acc V j = Some (v, e) \<longrightarrow> token_ok V ''current_jti'' j v e) \<and>
     (\<forall>t v e. rfr V t = Some (v, e) \<longrightarrow> token_ok V ''current_refresh'' t v e)"

lemma store_invI:
  assumes "\<And>x v e. ses V x = Some (v, e) \<Longrightarrow> session_ok RT X V x v e"
    and "\<And>x v e. usr V x = Some (v, e) \<Longrightarrow> index_ok v"
    and "\<And>j v e. acc V j = Some (v, e) \<Longrightarrow> token_ok V ''current_jti'' j v e"
    and "\<And>t v e. rfr V t = Some (v, e) \<Longrightarrow> token_ok V ''current_refresh'' t v e"
  shows "store_inv RT X V"
  using assms by (simp add: store_inv_def)

lemma store_invD:
  assumes "store_inv RT X V"
  shows "ses V x = Some (v, e) \<Longrightarrow> session_ok RT X V x v e"
    and "usr V x = Some (v, e) \<Longrightarrow> index_ok v"
    and "acc V j = Some (v, e) \<Longrightarrow> token_ok V ''current_jti'' j v e"
    and "rfr V t = Some (v, e) \<Longrightarrow> token_ok V ''current_refresh'' t v e"
  using assms unfolding store_inv_def by blast+

text \<open>The types of the keys follow.\<close>

lemma store_inv_kinds:
  assumes "store_inv RT X V"
  shows "hash_or_none (ses V x)" and "set_or_none (usr V x)" and "str_or_none (acc V x)"
    and "str_or_none (rfr V x)"
proof -
  show "hash_or_none (ses V x)"
    using store_invD(1)[OF assms, of x] by (auto simp: hash_or_none_def session_ok_def)
  show "set_or_none (usr V x)"
    using store_invD(2)[OF assms, of x] by (auto simp: set_or_none_def index_ok_def)
  show "str_or_none (acc V x)"
    using store_invD(3)[OF assms, of x] by (auto simp: str_or_none_def token_ok_def)
  show "str_or_none (rfr V x)"
    using store_invD(4)[OF assms, of x] by (auto simp: str_or_none_def token_ok_def)
qed

text \<open>The empty store.\<close>

lemma store_inv_empty: "store_inv RT X Map.empty"
  by (simp add: store_inv_def proj_defs)

lemma token_ok_ses:
  assumes "token_ok V f tok v e"
    and "\<And>x h m. ses V x = Some (RHash h, Some m) \<Longrightarrow> h (lit f) = Some tok \<Longrightarrow> ses V' x = ses V x"
  shows "token_ok V' f tok v e"
proof -
  obtain u sid m h m' where "v = RStr (payload (str_uuid u) (str_uuid sid))" "e = Some m"
      and s: "ses V (str_uuid sid) = Some (RHash h, Some m')" "h (lit f) = Some tok" and "m \<le> m'"
      "h (lit ''user_id'') = Some (str_uuid u)"
    using assms(1) by (auto simp: token_ok_def)
  moreover have "ses V' (str_uuid sid) = Some (RHash h, Some m')" using assms(2)[OF s] s by simp
  ultimately show ?thesis unfolding token_ok_def by blast
qed

lemma token_okI:
  "ses V (str_uuid sid) = Some (RHash h, Some m') \<Longrightarrow> h (lit ''user_id'') = Some (str_uuid u) \<Longrightarrow>
   h (lit f) = Some tok \<Longrightarrow> m \<le> m' \<Longrightarrow>
   token_ok V f tok (RStr (payload (str_uuid u) (str_uuid sid))) (Some m)"
  unfolding token_ok_def by blast

lemma create_inv:
  assumes inv: "store_inv (ms rt) X V" and fresh: "ses V (str_uuid sid) = None"
    and ttl: "0 < at" "at \<le> rt" and ne: "token_text jti" "token_text tok"
  shows "store_inv (ms rt) X (pipe_effect (create_cmds now_iso sid uid jti tok dev at rt) V)"
    (is "store_inv _ _ ?V")
proof -
  have "0 < rt" using ttl by simp
  note eff = create_effect[OF ttl(1) \<open>0 < rt\<close> fresh store_inv_kinds(2)[OF inv], where now_iso = now_iso and jti = jti and tok = tok and dev = dev and uid = uid]
  have new: "ses ?V (str_uuid sid) = Some (RHash (session_fields now_iso uid jti tok dev), Some (ms rt))"
    using eff(4) by simp
  have other: "ses ?V x = ses V x" if "x \<noteq> str_uuid sid" for x using eff(4) that by simp
  have at: "ms at \<le> ms rt" using ttl by (simp add: ms_def nat_mono)
  show ?thesis
  proof (rule store_invI)
    fix x v e assume x: "ses ?V x = Some (v, e)"
    show "session_ok (ms rt) X ?V x v e"
    proof (cases "x = str_uuid sid")
      case True
      then have ve: "v = RHash (session_fields now_iso uid jti tok dev)" "e = Some (ms rt)"
        using x new by simp_all
      show ?thesis unfolding session_ok_def
        by (intro exI[of _ sid] exI[of _ "session_fields now_iso uid jti tok dev"] exI[of _ "ms rt"]
            exI[of _ uid] exI[of _ jti] exI[of _ tok]) (use ve True ne eff(5) in simp)
    next
      case False
      have "session_ok (ms rt) X V x v e"
        using store_invD(1)[OF inv] x other[OF False] by simp
      then obtain sid' h m u j t where o: "x = str_uuid sid'" "v = RHash h" "e = Some m" "m \<le> ms rt"
        "h (lit ''user_id'') = Some (str_uuid u)" "h (lit ''current_jti'') = Some j" "token_text j"
        "h (lit ''current_refresh'') = Some t" "token_text t"
        "x \<in> X \<or> (\<exists>S m'. usr V (str_uuid u) = Some (RSet S, Some m') \<and> x \<in> S \<and> m \<le> m')"
        unfolding session_ok_def by blast
      have "x \<in> X \<or> (\<exists>S m'. usr ?V (str_uuid u) = Some (RSet S, Some m') \<and> x \<in> S \<and> m \<le> m')"
        using o(4,10) eff(5) by (cases "u = uid") (auto simp: members_def)
      then show ?thesis using o unfolding session_ok_def by blast
    qed
  next
    fix x v e assume "usr ?V x = Some (v, e)"
    then show "index_ok v"
      using eff(5) store_invD(2)[OF inv]
      by (fastforce simp: index_ok_def members_def split: if_splits option.splits redis_value.splits)
  next
    fix j v e assume j: "acc ?V j = Some (v, e)"
    show "token_ok ?V ''current_jti'' j v e"
    proof (cases "j = jti")
      case True
      then have "v = RStr (payload (str_uuid uid) (str_uuid sid))" "e = Some (ms at)"
        using j eff(2) by simp_all
      then show ?thesis using token_okI[OF new] at True by simp
    next
      case False
      then have "token_ok V ''current_jti'' j v e" using j eff(2) store_invD(3)[OF inv] by simp
      then show ?thesis by (rule token_ok_ses) (metis other fresh option.distinct(1))
    qed
  next
    fix t v e assume t: "rfr ?V t = Some (v, e)"
    show "token_ok ?V ''current_refresh'' t v e"
    proof (cases "t = tok")
      case True
      then have "v = RStr (payload (str_uuid uid) (str_uuid sid))" "e = Some (ms rt)"
        using t eff(3) by simp_all
      then show ?thesis using token_okI[OF new] True by simp
    next
      case False
      then have "token_ok V ''current_refresh'' t v e" using t eff(3) store_invD(4)[OF inv] by simp
      then show ?thesis by (rule token_ok_ses) (metis other fresh option.distinct(1))
    qed
  qed
qed

lemma session_okE:
  assumes "session_ok RT X V x v e"
  obtains sid h m u j t where "x = str_uuid sid" "v = RHash h" "e = Some m" "m \<le> RT"
    "h (lit ''user_id'') = Some (str_uuid u)" "h (lit ''current_jti'') = Some j" "token_text j"
    "h (lit ''current_refresh'') = Some t" "token_text t"
    "x \<in> X \<or> (\<exists>S m'. usr V (str_uuid u) = Some (RSet S, Some m') \<and> x \<in> S \<and> m \<le> m')"
  using assms unfolding session_ok_def by blast

text \<open>A session stays fine as long as its hash does and it stays indexed.\<close>

lemma session_ok_usr:
  assumes "session_ok RT X V x v e"
    and "\<And>u S m m'. usr V u = Some (RSet S, Some m') \<Longrightarrow> x \<in> S \<Longrightarrow> m \<le> m' \<Longrightarrow> m \<le> RT \<Longrightarrow>
           x \<in> X' \<or> (\<exists>S' m''. usr V' u = Some (RSet S', Some m'') \<and> x \<in> S' \<and> m \<le> m'')"
    and "x \<in> X \<Longrightarrow> x \<in> X'"
  shows "session_ok RT X' V' x v e"
  using assms(1)
proof (rule session_okE)
  fix sid h m u j t
  assume o: "x = str_uuid sid" "v = RHash h" "e = Some m" "m \<le> RT"
    "h (lit ''user_id'') = Some (str_uuid u)" "h (lit ''current_jti'') = Some j" "token_text j"
    "h (lit ''current_refresh'') = Some t" "token_text t"
    "x \<in> X \<or> (\<exists>S m'. usr V (str_uuid u) = Some (RSet S, Some m') \<and> x \<in> S \<and> m \<le> m')"
  have "x \<in> X' \<or> (\<exists>S' m''. usr V' (str_uuid u) = Some (RSet S', Some m'') \<and> x \<in> S' \<and> m \<le> m'')"
    using o(4,10) assms(2,3) by blast
  then show ?thesis using o unfolding session_ok_def by blast
qed

lemma rotate_inv:
  assumes inv: "store_inv (ms rt) X V"
    and s: "ses V (str_uuid sid) = Some (RHash h, Some m)"
    and h: "h (lit ''user_id'') = Some (str_uuid uid)" "h (lit ''current_jti'') = Some old_jti"
      "h (lit ''current_refresh'') = Some old" "token_text old_jti"
    and u: "usr V (str_uuid uid) = Some (RSet S, Some m')" "str_uuid sid \<in> S"
    and ttl: "0 < at" "at \<le> rt" and ne: "token_text new_jti" "token_text new"
  shows "store_inv (ms rt) X
    (pipe_effect (rotate_cmds now_iso sid (str_uuid uid) old_jti uid old new_jti new at rt) V)"
    (is "store_inv _ _ ?V")
proof -
  have "0 < rt" using ttl by simp
  note eff = rotate_effect[OF ttl(1) \<open>0 < rt\<close> s u(1) h(4), where now_iso = now_iso and
      user = "str_uuid uid" and old = old and new_jti = new_jti and new = new]
  let ?h = "h(lit ''last_used'' \<mapsto> now_iso, lit ''current_jti'' \<mapsto> new_jti, lit ''current_refresh'' \<mapsto> new)"
  have at: "ms at \<le> ms rt" using ttl by (simp add: ms_def nat_mono)
  have new_s: "ses ?V (str_uuid sid) = Some (RHash ?h, Some (ms rt))" using eff(4) by simp
  have other: "ses ?V x = ses V x" if "x \<noteq> str_uuid sid" for x using eff(4) that by simp
  show ?thesis
  proof (rule store_invI)
    fix x v e assume x: "ses ?V x = Some (v, e)"
    show "session_ok (ms rt) X ?V x v e"
    proof (cases "x = str_uuid sid")
      case True
      then have ve: "v = RHash ?h" "e = Some (ms rt)" using x new_s by simp_all
      show ?thesis unfolding session_ok_def
        by (intro exI[of _ sid] exI[of _ ?h] exI[of _ "ms rt"] exI[of _ uid] exI[of _ new_jti] exI[of _ new])
          (use ve True ne eff(5) h u in simp)
    next
      case False
      have "session_ok (ms rt) X V x v e" using store_invD(1)[OF inv] x other[OF False] by simp
      then show ?thesis by (rule session_ok_usr) (use eff(5) u in \<open>auto split: if_splits\<close>)
    qed
  next
    fix x v e assume "usr ?V x = Some (v, e)"
    then show "index_ok v" using eff(5) store_invD(2)[OF inv] u by (auto split: if_splits)
  next
    fix j v e assume j: "acc ?V j = Some (v, e)"
    show "token_ok ?V ''current_jti'' j v e"
    proof (cases "j = new_jti")
      case True
      then have "v = RStr (payload (str_uuid uid) (str_uuid sid))" "e = Some (ms at)"
        using j eff(2) by simp_all
      then show ?thesis using token_okI[OF new_s] h(1) at True by simp
    next
      case False
      then have j': "j \<noteq> old_jti" "acc V j = Some (v, e)" using j eff(2) by (auto split: if_splits)
      from store_invD(3)[OF inv j'(2)] show ?thesis
      proof (rule token_ok_ses)
        fix x h' m assume "ses V x = Some (RHash h', Some m)" "h' (lit ''current_jti'') = Some j"
        then have "x \<noteq> str_uuid sid" using s h(2) j'(1) by auto
        then show "ses ?V x = ses V x" by (rule other)
      qed
    qed
  next
    fix t v e assume t: "rfr ?V t = Some (v, e)"
    show "token_ok ?V ''current_refresh'' t v e"
    proof (cases "t = new")
      case True
      then have "v = RStr (payload (str_uuid uid) (str_uuid sid))" "e = Some (ms rt)"
        using t eff(3) by simp_all
      then show ?thesis using token_okI[OF new_s] h(1) True by simp
    next
      case False
      then have t': "t \<noteq> old" "rfr V t = Some (v, e)" using t eff(3) by (auto split: if_splits)
      from store_invD(4)[OF inv t'(2)] show ?thesis
      proof (rule token_ok_ses)
        fix x h' m assume "ses V x = Some (RHash h', Some m)" "h' (lit ''current_refresh'') = Some t"
        then have "x \<noteq> str_uuid sid" using s h(3) t'(1) by auto
        then show "ses ?V x = ses V x" by (rule other)
      qed
    qed
  qed
qed

lemma revoke_inv:
  assumes inv: "store_inv RT X V"
    and s: "ses V (str_uuid sid) = Some (RHash h, Some m)"
    and h: "h (lit ''user_id'') = Some user" "h (lit ''current_jti'') = Some jti" "token_text jti"
      "h (lit ''current_refresh'') = Some tok" "token_text tok" "token_text user"
  shows "store_inv RT (X - {str_uuid sid}) (pipe_effect (revoke_cmds sid user jti tok) V)"
    (is "store_inv _ _ ?V")
proof -
  note eff = revoke_effect[OF store_inv_kinds(2)[OF inv] h(6,3,5), where sid = sid]
  have other: "ses ?V x = ses V x" if "x \<noteq> str_uuid sid" for x using eff(4) that by simp
  have gone: "ses ?V (str_uuid sid) = None" using eff(4) by simp
  show ?thesis
  proof (rule store_invI)
    fix x v e assume x: "ses ?V x = Some (v, e)"
    then have xs: "x \<noteq> str_uuid sid" using gone by auto
    have "session_ok RT X V x v e" using store_invD(1)[OF inv] x other[OF xs] by simp
    then show "session_ok RT (X - {str_uuid sid}) ?V x v e"
    proof (rule session_ok_usr)
      fix u S m m' assume u: "usr V u = Some (RSet S, Some m')" "x \<in> S" "(m::nat) \<le> m'"
      have "usr ?V u = Some (RSet S', Some m')" if "S' = (if u = user then S - {str_uuid sid} else S)" for S'
      proof (cases "u = user")
        case True
        have "x \<in> members (usr ?V user)" using eff(6) u xs True by (simp add: members_def)
        then obtain v' e' where "usr ?V user = Some (v', e')"
          by (cases "usr ?V user") (auto simp: members_def)
        then show ?thesis using eff(7)[of v' e'] u True that by auto
      qed (use eff(5) u that in simp)
      then show "x \<in> X - {str_uuid sid} \<or> (\<exists>S' m''. usr ?V u = Some (RSet S', Some m'') \<and> x \<in> S' \<and> m \<le> m'')"
        using u xs by (metis DiffI singletonD)
    qed (use xs in simp)
  next
    fix x v e assume x: "usr ?V x = Some (v, e)"
    show "index_ok v"
    proof (cases "x = user")
      case True
      then show ?thesis using eff(7)[of v e] x store_invD(2)[OF inv, of user] by (fastforce simp: index_ok_def)
    qed (use eff(5) x store_invD(2)[OF inv] in simp)
  next
    fix j v e assume "acc ?V j = Some (v, e)"
    then have j: "j \<noteq> jti" "acc V j = Some (v, e)" using eff(2) by (auto split: if_splits)
    from store_invD(3)[OF inv j(2)] show "token_ok ?V ''current_jti'' j v e"
      by (rule token_ok_ses) (metis other s h(2) j(1) option.inject prod.inject redis_value.inject(2))
  next
    fix t v e assume "rfr ?V t = Some (v, e)"
    then have t: "t \<noteq> tok" "rfr V t = Some (v, e)" using eff(3) by (auto split: if_splits)
    from store_invD(4)[OF inv t(2)] show "token_ok ?V ''current_refresh'' t v e"
      by (rule token_ok_ses) (metis other s h(4) t(1) option.inject prod.inject redis_value.inject(2))
  qed
qed

text \<open>Taking a refresh token out, dropping an index, and the passing of time.\<close>

lemma getdel_inv:
  assumes "store_inv RT X V"
  shows "store_inv RT X (V(refresh_key t := None))"
proof (rule store_invI)
  let ?V = "V(refresh_key t := None)"
  show "session_ok RT X ?V x v e" if "ses ?V x = Some (v, e)" for x v e
    using store_invD(1)[OF assms] that by (simp add: session_ok_def)
  show "index_ok v" if "usr ?V x = Some (v, e)" for x v e
    using store_invD(2)[OF assms] that by simp
  show "token_ok ?V ''current_jti'' j v e" if "acc ?V j = Some (v, e)" for j v e
    using store_invD(3)[OF assms] that by (simp add: token_ok_def)
  show "token_ok ?V ''current_refresh'' t' v e" if "rfr ?V t' = Some (v, e)" for t' v e
    using store_invD(4)[OF assms] that by (auto simp: token_ok_def split: if_splits)
qed

lemma drop_index_inv:
  assumes "store_inv RT X V"
  shows "store_inv RT (X \<union> members (usr V u)) (V(user_sessions_key u := None))"
proof (rule store_invI)
  let ?V = "V(user_sessions_key u := None)"
  fix x v e assume "ses ?V x = Some (v, e)"
  then have "session_ok RT X V x v e" using store_invD(1)[OF assms] by simp
  then show "session_ok RT (X \<union> members (usr V u)) ?V x v e"
    by (rule session_ok_usr) (auto simp: members_def)
next
  show "index_ok v" if "usr (V(user_sessions_key u := None)) x = Some (v, e)" for x v e
    using store_invD(2)[OF assms] that by (auto split: if_splits)
  show "token_ok (V(user_sessions_key u := None)) ''current_jti'' j v e"
    if "acc (V(user_sessions_key u := None)) j = Some (v, e)" for j v e
    using store_invD(3)[OF assms] that by (simp add: token_ok_def)
  show "token_ok (V(user_sessions_key u := None)) ''current_refresh'' t v e"
    if "rfr (V(user_sessions_key u := None)) t = Some (v, e)" for t v e
    using store_invD(4)[OF assms] that by (simp add: token_ok_def)
qed

lemma store_inv_exempt:
  assumes "store_inv RT X V" and "ses V s = None"
  shows "store_inv RT (X - {s}) V"
proof (rule store_invI)
  fix x v e assume x: "ses V x = Some (v, e)"
  from store_invD(1)[OF assms(1) x] show "session_ok RT (X - {s}) V x v e"
    by (rule session_ok_usr) (use x assms(2) in auto)
qed (use store_invD[OF assms(1)] in blast)+

lemma age_proj:
  "ses (age d V) x = Some (v, Some m) \<longleftrightarrow> ses V x = Some (v, Some (m + d)) \<and> 0 < m"
  "usr (age d V) x = Some (v, Some m) \<longleftrightarrow> usr V x = Some (v, Some (m + d)) \<and> 0 < m"
  "acc (age d V) x = Some (v, Some m) \<longleftrightarrow> acc V x = Some (v, Some (m + d)) \<and> 0 < m"
  "rfr (age d V) x = Some (v, Some m) \<longleftrightarrow> rfr V x = Some (v, Some (m + d)) \<and> 0 < m"
  by (auto simp: age_def proj_defs split: option.splits)

lemma age_no_ttl:
  "ses (age d V) x = Some (v, None) \<longleftrightarrow> ses V x = Some (v, None)"
  "usr (age d V) x = Some (v, None) \<longleftrightarrow> usr V x = Some (v, None)"
  "acc (age d V) x = Some (v, None) \<longleftrightarrow> acc V x = Some (v, None)"
  "rfr (age d V) x = Some (v, None) \<longleftrightarrow> rfr V x = Some (v, None)"
  by (auto simp: age_def proj_defs split: option.splits)

lemma token_ok_age:
  assumes "token_ok V f tok v (Some (m + d))" and "0 < m"
  shows "token_ok (age d V) f tok v (Some m)"
proof -
  obtain u sid h m' where o: "v = RStr (payload (str_uuid u) (str_uuid sid))"
      "ses V (str_uuid sid) = Some (RHash h, Some m')" "m + d \<le> m'"
      "h (lit ''user_id'') = Some (str_uuid u)" "h (lit f) = Some tok"
    using assms(1) by (auto simp: token_ok_def)
  have "ses (age d V) (str_uuid sid) = Some (RHash h, Some (m' - d))"
    using o(2,3) assms(2) by (simp add: age_proj)
  then show ?thesis unfolding o(1) by (rule token_okI) (use o in auto)
qed

lemma age_inv:
  assumes "store_inv RT X V"
  shows "store_inv RT X (age d V)"
proof (rule store_invI)
  fix x v e assume x: "ses (age d V) x = Some (v, e)"
  show "session_ok RT X (age d V) x v e"
  proof (cases e)
    case None
    then have "session_ok RT X V x v None" using x store_invD(1)[OF assms] by (simp add: age_no_ttl)
    then show ?thesis by (simp add: session_ok_def)
  next
    case (Some m)
    then have m: "session_ok RT X V x v (Some (m + d))" "0 < m"
      using x store_invD(1)[OF assms] by (auto simp: age_proj)
    from m(1) show ?thesis
    proof (rule session_okE)
      fix sid h m1 u j t
      assume o: "x = str_uuid sid" "v = RHash h" "Some (m + d) = Some m1" "m1 \<le> RT"
        "h (lit ''user_id'') = Some (str_uuid u)" "h (lit ''current_jti'') = Some j" "token_text j"
        "h (lit ''current_refresh'') = Some t" "token_text t"
        "x \<in> X \<or> (\<exists>S m'. usr V (str_uuid u) = Some (RSet S, Some m') \<and> x \<in> S \<and> m1 \<le> m')"
      have "x \<in> X \<or> (\<exists>S m'. usr (age d V) (str_uuid u) = Some (RSet S, Some m') \<and> x \<in> S \<and> m \<le> m')"
      proof (cases "x \<in> X")
        case False
        then obtain S m' where "usr V (str_uuid u) = Some (RSet S, Some m')" "x \<in> S" "m + d \<le> m'"
          using o(3,10) by auto
        then have "usr (age d V) (str_uuid u) = Some (RSet S, Some (m' - d)) \<and> x \<in> S \<and> m \<le> m' - d"
          using m(2) by (simp add: age_proj)
        then show ?thesis by blast
      qed simp
      then show ?thesis using o Some unfolding session_ok_def by force
    qed
  qed
next
  fix x v e assume "usr (age d V) x = Some (v, e)"
  then show "index_ok v" using store_invD(2)[OF assms] by (cases e) (auto simp: age_proj age_no_ttl)
next
  fix j v e assume "acc (age d V) j = Some (v, e)"
  then show "token_ok (age d V) ''current_jti'' j v e"
    using store_invD(3)[OF assms] token_ok_age
    by (cases e) (fastforce simp: age_proj age_no_ttl token_ok_def)+
next
  fix t v e assume "rfr (age d V) t = Some (v, e)"
  then show "token_ok (age d V) ''current_refresh'' t v e"
    using store_invD(4)[OF assms] token_ok_age
    by (cases e) (fastforce simp: age_proj age_no_ttl token_ok_def)+
qed

end
