(* ===== verification/SessionStore.thy ===== *)
theory SessionStore
  imports TokenStoreInv
begin

text \<open>
  What the methods of \<open>RedisTokenStore\<close> do, from any state in which the store's invariant
  holds, and the contract of the port \<open>TokenStore\<close>
  (\<open>auth_service/application/ports/token_store.py\<close>) as a locale over an abstract state:
  who owns which session, and which access and refresh tokens stand for it. The Redis
  implementation is shown to satisfy the contract.
\<close>

section \<open>Running the methods\<close>

text \<open>The passing of a token by a loop or a transaction: entries are only taken away.\<close>

definition shrinks :: "redis_view \<Rightarrow> redis_view \<Rightarrow> bool" where
  "shrinks V V' \<longleftrightarrow>
     (\<forall>j x. acc V' j = Some x \<longrightarrow> acc V j = Some x) \<and> (\<forall>t x. rfr V' t = Some x \<longrightarrow> rfr V t = Some x) \<and>
     (\<forall>s x. ses V' s = Some x \<longrightarrow> ses V s = Some x)"

lemma shrinks_refl [simp]: "shrinks V V"
  by (simp add: shrinks_def)

lemma shrinks_trans: "shrinks V V' \<Longrightarrow> shrinks V' V'' \<Longrightarrow> shrinks V V''"
  by (simp add: shrinks_def)

text \<open>
  What revoking session \<open>s\<close> takes away: its hash, and exactly the tokens that name it.
\<close>

definition names_session :: "pystr \<Rightarrow> entry \<Rightarrow> bool" where
  "names_session s x \<longleftrightarrow> (\<exists>u. fst x = RStr (payload (str_uuid u) s))"

definition revoked :: "pystr set \<Rightarrow> redis_view \<Rightarrow> redis_view \<Rightarrow> bool" where
  "revoked Z V V' \<longleftrightarrow>
     (\<forall>s. ses V' s = (if s \<in> Z then None else ses V s)) \<and>
     (\<forall>j. acc V' j = (case acc V j of Some x \<Rightarrow> if \<exists>s\<in>Z. names_session s x then None else Some x | None \<Rightarrow> None)) \<and>
     (\<forall>t. rfr V' t = (case rfr V t of Some x \<Rightarrow> if \<exists>s\<in>Z. names_session s x then None else Some x | None \<Rightarrow> None))"

lemma payload_inj:
  assumes "payload (str_uuid u) s = payload (str_uuid u') s'"
  shows "u = u' \<and> s = s'"
proof -
  have "str_uuid u @ 58 # s = str_uuid u' @ 58 # s'" using assms by (simp add: payload_def)
  then have "str_uuid u = str_uuid u' \<and> 58 # s = 58 # s'"
    using append_eq_append_conv[of "str_uuid u" "str_uuid u'"] by simp
  then show ?thesis by simp
qed

lemma payload_split: "py_split1 58 (payload (str_uuid u) s) = [str_uuid u, s]"
  by (simp add: payload_def split1_join str_uuid_no_colon)

lemma names_session_payload [simp]:
  "names_session s (RStr (payload (str_uuid u) s'), e) \<longleftrightarrow> s = s'"
  using payload_inj by (auto simp: names_session_def)

lemma revoked_empty: "revoked {} V V"
  by (simp add: revoked_def split: option.splits)

lemma revoked_trans: "revoked Z V V' \<Longrightarrow> revoked Z' V' V'' \<Longrightarrow> revoked (Z \<union> Z') V V''"
  unfolding revoked_def by (auto split: option.splits)

text \<open>A session with no hash has no tokens either.\<close>

lemma revoked_none:
  assumes "store_inv RT X V" and "ses V s = None"
  shows "revoked {s} V V"
proof -
  have "\<not> names_session s x" if "acc V j = Some x" for j x
    using store_invD(3)[OF assms(1), of j "fst x" "snd x"] that assms(2)
    by (cases x) (auto simp: token_ok_def)
  moreover have "\<not> names_session s x" if "rfr V j = Some x" for j x
    using store_invD(4)[OF assms(1), of j "fst x" "snd x"] that assms(2)
    by (cases x) (auto simp: token_ok_def)
  ultimately show ?thesis using assms(2) by (auto simp: revoked_def split: option.splits)
qed

text \<open>
  No two sessions share a current token. Token ids and refresh tokens are random draws, so
  that a new one differs from the current ones is a hypothesis where tokens are made.
\<close>

definition fresh_token :: "redis_view \<Rightarrow> string \<Rightarrow> pystr \<Rightarrow> bool" where
  "fresh_token V f tok \<longleftrightarrow> (\<forall>x h e. ses V x = Some (RHash h, e) \<longrightarrow> h (lit f) \<noteq> Some tok)"

definition distinct_tokens :: "redis_view \<Rightarrow> bool" where
  "distinct_tokens V \<longleftrightarrow>
     (\<forall>x y h h' e e' f t. ses V x = Some (RHash h, e) \<longrightarrow> ses V y = Some (RHash h', e') \<longrightarrow>
        f \<in> {''current_jti'', ''current_refresh''} \<longrightarrow> h (lit f) = Some t \<longrightarrow> h' (lit f) = Some t \<longrightarrow> x = y)"

text \<open>A user's index lists no live session of anybody else.\<close>

definition index_sound :: "redis_view \<Rightarrow> bool" where
  "index_sound V \<longleftrightarrow>
     (\<forall>x y h e. y \<in> members (usr V x) \<longrightarrow> ses V y = Some (RHash h, e) \<longrightarrow> h (lit ''user_id'') = Some x)"

text \<open>A session id that is neither live nor left in an index.\<close>

definition fresh_session :: "redis_view \<Rightarrow> uuid \<Rightarrow> bool" where
  "fresh_session V sid \<longleftrightarrow> ses V (str_uuid sid) = None \<and> (\<forall>x. str_uuid sid \<notin> members (usr V x))"

definition store_ok :: "nat \<Rightarrow> pystr set \<Rightarrow> redis_view \<Rightarrow> bool" where
  "store_ok RT X V \<longleftrightarrow> store_inv RT X V \<and> distinct_tokens V \<and> index_sound V"

lemma store_okD:
  assumes "store_ok RT X V"
  shows "store_inv RT X V" and "distinct_tokens V" and "index_sound V"
  using assms by (simp_all add: store_ok_def)

lemma index_soundD:
  "index_sound V \<Longrightarrow> y \<in> members (usr V x) \<Longrightarrow> ses V y = Some (RHash h, e) \<Longrightarrow> h (lit ''user_id'') = Some x"
  unfolding index_sound_def by blast

lemma index_sound_sub:
  assumes "index_sound V" and "\<And>x. members (usr V' x) \<subseteq> members (usr V x)"
    and "\<And>y h e. ses V' y = Some (RHash h, e) \<Longrightarrow> \<exists>h' e'. ses V y = Some (RHash h', e') \<and>
           h (lit ''user_id'') = h' (lit ''user_id'')"
  shows "index_sound V'"
  unfolding index_sound_def
proof (intro allI impI)
  fix x y h e assume y: "y \<in> members (usr V' x)" "ses V' y = Some (RHash h, e)"
  obtain h' e' where "ses V y = Some (RHash h', e')" "h (lit ''user_id'') = h' (lit ''user_id'')"
    using assms(3)[OF y(2)] by blast
  then show "h (lit ''user_id'') = Some x" using assms(1,2) y(1) unfolding index_sound_def by fastforce
qed

lemma fresh_tokenD:
  "fresh_token V f t \<Longrightarrow> ses V x = Some (RHash h, e) \<Longrightarrow> h (lit f) = Some t \<Longrightarrow> False"
  unfolding fresh_token_def by blast

lemma distinct_tokensD:
  "distinct_tokens V \<Longrightarrow> ses V x = Some (RHash h, e) \<Longrightarrow> ses V y = Some (RHash h', e') \<Longrightarrow>
   f \<in> {''current_jti'', ''current_refresh''} \<Longrightarrow> h (lit f) = Some t \<Longrightarrow> h' (lit f) = Some t \<Longrightarrow> x = y"
  unfolding distinct_tokens_def by blast

lemma distinct_tokens_sub:
  assumes "distinct_tokens V"
    and "\<And>x h e. ses V' x = Some (RHash h, e) \<Longrightarrow> \<exists>e'. ses V x = Some (RHash h, e')"
  shows "distinct_tokens V'"
  using assms unfolding distinct_tokens_def by meson

lemma distinct_tokens_upd:
  assumes "distinct_tokens V" and "ses V' = (ses V)(x0 \<mapsto> (RHash h0, e0))"
    and "\<And>f t y h e. f \<in> {''current_jti'', ''current_refresh''} \<Longrightarrow> h0 (lit f) = Some t \<Longrightarrow>
           y \<noteq> x0 \<Longrightarrow> ses V y = Some (RHash h, e) \<Longrightarrow> h (lit f) \<noteq> Some t"
  shows "distinct_tokens V'"
  unfolding distinct_tokens_def
proof (intro allI impI)
  fix x y h h' e e' f t
  assume a: "ses V' x = Some (RHash h, e)" "ses V' y = Some (RHash h', e')"
    "f \<in> {''current_jti'', ''current_refresh''}" "h (lit f) = Some t" "h' (lit f) = Some t"
  consider "x = x0" "y = x0" | "x = x0" "y \<noteq> x0" | "x \<noteq> x0" "y = x0" | "x \<noteq> x0" "y \<noteq> x0" by blast
  then show "x = y"
  proof cases
    case 2
    then show ?thesis using a assms(3)[of f t y h' e'] by (auto simp: assms(2))
  next
    case 3
    then show ?thesis using a assms(3)[of f t x h e] by (auto simp: assms(2))
  next
    case 4
    then show ?thesis using a distinct_tokensD[OF assms(1)] by (simp add: assms(2))
  qed simp
qed

text \<open>A live token names the session whose current token it is.\<close>

lemma current_token_names:
  assumes inv: "store_inv RT X V" and dist: "distinct_tokens V"
    and s: "ses V (str_uuid sid) = Some (RHash h, e)"
  shows "h (lit ''current_jti'') = Some jti \<Longrightarrow> acc V jti = Some x \<Longrightarrow> names_session (str_uuid sid) x"
    and "h (lit ''current_refresh'') = Some tok \<Longrightarrow> rfr V tok = Some x \<Longrightarrow> names_session (str_uuid sid) x"
proof -
  have *: "names_session (str_uuid sid) x" if t: "token_ok V f tok (fst x) (snd x)"
      and f: "f \<in> {''current_jti'', ''current_refresh''}" "h (lit f) = Some tok" for f tok
  proof -
    obtain u sid' h' m' where "fst x = RStr (payload (str_uuid u) (str_uuid sid'))"
        "ses V (str_uuid sid') = Some (RHash h', Some m')" "h' (lit f) = Some tok"
      using t by (auto simp: token_ok_def)
    then show ?thesis using distinct_tokensD[OF dist s _ f] by (auto simp: names_session_def)
  qed
  show "h (lit ''current_jti'') = Some jti \<Longrightarrow> acc V jti = Some x \<Longrightarrow> names_session (str_uuid sid) x"
    using *[of "''current_jti''" jti] store_invD(3)[OF inv, of jti "fst x" "snd x"] by simp
  show "h (lit ''current_refresh'') = Some tok \<Longrightarrow> rfr V tok = Some x \<Longrightarrow> names_session (str_uuid sid) x"
    using *[of "''current_refresh''" tok] store_invD(4)[OF inv, of tok "fst x" "snd x"] by simp
qed

text \<open>The transaction of \<open>revoke_session\<close> deletes exactly the tokens of its session.\<close>

lemma revoke_effect_revoked:
  assumes inv: "store_inv RT X V"
    and s: "ses V (str_uuid sid) = Some (RHash h, Some m)"
    and h: "h (lit ''user_id'') = Some user" "h (lit ''current_jti'') = Some jti" "token_text jti"
      "h (lit ''current_refresh'') = Some tok" "token_text tok" "token_text user"
    and dist: "distinct_tokens V"
  shows "revoked {str_uuid sid} V (pipe_effect (revoke_cmds sid user jti tok) V)"
proof -
  note eff = revoke_effect[OF store_inv_kinds(2)[OF inv] h(6,3,5), where sid = sid]
  note own = current_token_names[OF inv dist s]
  have a: "names_session (str_uuid sid) x \<longleftrightarrow> j = jti" if "acc V j = Some x" for j x
    using store_invD(3)[OF inv, of j "fst x" "snd x"] that s h(2) own(1)[OF h(2)]
    by (cases x) (auto simp: token_ok_def)
  have r: "names_session (str_uuid sid) x \<longleftrightarrow> t = tok" if "rfr V t = Some x" for t x
    using store_invD(4)[OF inv, of t "fst x" "snd x"] that s h(4) own(2)[OF h(4)]
    by (cases x) (auto simp: token_ok_def)
  show ?thesis unfolding revoked_def using eff(2-4) a r by (auto split: option.splits)
qed


context redis_server
begin

lemma get_session_run:
  assumes "store_inv RT X (view r)"
  obtains (none) r' where "get_session exec sid r = (Inr None, r')" "view r' = view r"
      "ses (view r) (str_uuid sid) = None"
    | (some) data r' m where "get_session exec sid r = (Inr (Some data), r')" "view r' = view r"
      "ses (view r) (str_uuid sid) = Some (RHash (map_of data), Some m)"
proof -
  let ?k = "session_key (str_uuid sid)"
  have "cmd_fine (HGETALL ?k) (view r)"
    using store_inv_kinds(1)[OF assms, of "str_uuid sid"] by (simp add: ses_def)
  then obtain rep r' where c: "redis_call exec (HGETALL ?k) r = (Inr rep, r')"
      "redis_reply_ok (HGETALL ?k) (view r) rep" "view r' = view r"
    by (rule redis_call_fine) simp
  show thesis
  proof (cases "ses (view r) (str_uuid sid)")
    case None
    then have "rep = RMap []" using c(2) by (simp add: ses_def)
    then show thesis using none[of r'] None c by (simp add: get_session_def ret_def)
  next
    case (Some x)
    obtain v e where x: "x = (v, e)" by (cases x)
    obtain h m where h: "v = RHash h" "e = Some m" "h \<noteq> Map.empty"
      using store_invD(1)[OF assms, of "str_uuid sid" v e] Some x unfolding session_ok_def by force
    then obtain kvs where "rep = RMap kvs" "map_of kvs = h" using c(2) Some x by (auto simp: ses_def)
    moreover have "kvs \<noteq> []" using calculation h(3) by auto
    ultimately show thesis using some[of kvs r' m] Some x h c by (simp add: get_session_def ret_def)
  qed
qed

lemma session_data_fields:
  assumes "store_inv RT X V" and "ses V (str_uuid sid) = Some (RHash (map_of data), Some m)"
  obtains u j t where "map_of data (lit ''user_id'') = Some (str_uuid u)"
    "data_get data ''user_id'' = str_uuid u" "data_get data ''current_jti'' = j"
    "data_get data ''current_refresh'' = t"
    "map_of data (lit ''current_jti'') = Some j" "token_text j"
    "map_of data (lit ''current_refresh'') = Some t" "token_text t"
  using store_invD(1)[OF assms] by (auto simp: session_ok_def data_get_def)

lemma create_session_run:
  assumes ok: "store_ok (ms rt) {} (view r)" and fresh: "fresh_session (view r) sid"
    "fresh_token (view r) ''current_jti'' jti" "fresh_token (view r) ''current_refresh'' tok"
    and ttl: "0 < at" "at \<le> rt" and ne: "token_text jti" "token_text tok"
    and tx: "py_text now_iso" "pred_option py_text dev"
  obtains r' where "create_session exec now_iso sid uid jti tok dev at rt r = (Inr (), r')"
    "view r' = pipe_effect (create_cmds now_iso sid uid jti tok dev at rt) (view r)"
    "store_ok (ms rt) {} (view r')"
proof -
  note inv = store_okD(1)[OF ok]
  have "0 < rt" and none: "ses (view r) (str_uuid sid) = None"
    using ttl fresh(1) by (simp_all add: fresh_session_def)
  note eff = create_effect[OF ttl(1) \<open>0 < rt\<close> none store_inv_kinds(2)[OF inv],
      where now_iso = now_iso and jti = jti and tok = tok and dev = dev and uid = uid]
  obtain reps r' where p: "redis_pipeline exec (create_cmds now_iso sid uid jti tok dev at rt) r = (Inr reps, r')"
      "view r' = pipe_effect (create_cmds now_iso sid uid jti tok dev at rt) (view r)"
    using pipeline_fine[OF eff(1)[OF tx(1) ne[THEN token_textD(2)] tx(2)]] .
  have "distinct_tokens (view r')"
    by (rule distinct_tokens_upd[OF store_okD(2)[OF ok]])
      (use eff(4) p fresh in \<open>auto dest: fresh_tokenD\<close>)
  moreover have "index_sound (view r')"
    using store_okD(3)[OF ok] fresh(1) eff(4,5) p(2)
    by (auto simp: index_sound_def fresh_session_def members_def split: if_splits)
  ultimately show thesis
    using that[of r'] p create_inv[OF inv none ttl ne] by (simp add: create_session_def store_ok_def ret_def)
qed

lemma revoke_session_run:
  assumes ok: "store_ok RT X (view r)"
  obtains r' where "revoke_session exec sid r = (Inr (), r')"
    "store_ok RT (X - {str_uuid sid}) (view r')" "revoked {str_uuid sid} (view r) (view r')"
  using store_okD(1)[OF ok]
proof (cases rule: get_session_run[where sid = sid, consumes 1, case_names none some])
  case (none r')
  have "store_inv RT (X - {str_uuid sid}) (view r)"
    using store_inv_exempt[OF store_okD(1)[OF ok] none(3)] .
  then show thesis
    using that[of r'] none revoked_none[OF store_okD(1)[OF ok] none(3)] ok
    by (simp add: revoke_session_def store_ok_def ret_def)
next
  case (some data r' m)
  obtain u j t where f: "map_of data (lit ''user_id'') = Some (str_uuid u)"
      "data_get data ''user_id'' = str_uuid u" "data_get data ''current_jti'' = j"
      "data_get data ''current_refresh'' = t" "map_of data (lit ''current_jti'') = Some j" "token_text j"
      "map_of data (lit ''current_refresh'') = Some t" "token_text t"
    using session_data_fields[OF store_okD(1)[OF ok] some(3)] .
  let ?cs = "revoke_cmds sid (str_uuid u) j t"
  note eff = revoke_effect[OF store_inv_kinds(2)[OF store_okD(1)[OF ok]] token_text_uuid f(6,8),
      where sid = sid]
  have "pipe_fine ?cs (view r')" using eff(1) some(2) by simp
  then obtain reps r'' where p: "redis_pipeline exec ?cs r' = (Inr reps, r'')"
      "view r'' = pipe_effect ?cs (view r)"
    using some(2) by (metis pipeline_fine)
  have sub: "\<exists>e'. ses (view r) y = Some (RHash h, e')" if "ses (view r'') y = Some (RHash h, e)" for y h e
    using that eff(4)[of u] p(2) by (auto split: if_splits)
  have "members (usr (view r'') x) \<subseteq> members (usr (view r) x)" for x
    using eff(5,6) p(2) by (cases "x = str_uuid u") auto
  then have "index_sound (view r'')"
    by (rule index_sound_sub[OF store_okD(3)[OF ok]]) (use sub in blast)
  moreover have "distinct_tokens (view r'')"
    by (rule distinct_tokens_sub[OF store_okD(2)[OF ok]]) (rule sub)
  ultimately have "store_ok RT (X - {str_uuid sid}) (view r'')"
    using revoke_inv[OF store_okD(1)[OF ok] some(3) f(1,5,6,7,8)] p(2) by (simp add: store_ok_def)
  moreover have "revoked {str_uuid sid} (view r) (view r'')"
    using revoke_effect_revoked[OF store_okD(1)[OF ok] some(3) f(1,5,6,7,8) token_text_uuid store_okD(2)[OF ok]]
      p(2) by simp
  ultimately show thesis
    using that[of r''] some p f(2-4) by (simp add: revoke_session_def ret_def)
qed

lemma revoke_loop_run:
  assumes "\<forall>x\<in>set xs. \<exists>sid. x = str_uuid sid" and "store_ok RT X (view r)"
  shows "\<exists>r'. for_each (\<lambda>s. bnd (lift_res (UUID U s)) (revoke_session exec)) xs r = (Inr (), r') \<and>
    store_ok RT (X - set xs) (view r') \<and> revoked (set xs) (view r) (view r')"
  using assms
proof (induction xs arbitrary: r X)
  case Nil
  then show ?case by (simp add: ret_def revoked_empty)
next
  case (Cons x xs)
  obtain sid where x: "x = str_uuid sid" using Cons.prems(1) by auto
  obtain r1 where r1: "revoke_session exec sid r = (Inr (), r1)"
      "store_ok RT (X - {x}) (view r1)" "revoked {x} (view r) (view r1)"
    using revoke_session_run[OF Cons.prems(2)] unfolding x .
  obtain r2 where r2: "for_each (\<lambda>s. bnd (lift_res (UUID U s)) (revoke_session exec)) xs r1 = (Inr (), r2)"
      "store_ok RT (X - {x} - set xs) (view r2)" "revoked (set xs) (view r1) (view r2)"
    using Cons.IH[of "X - {x}" r1] Cons.prems(1) r1(2) by auto
  have "revoked ({x} \<union> set xs) (view r) (view r2)" using revoked_trans[OF r1(3) r2(3)] .
  moreover have "X - set (x # xs) = X - {x} - set xs" by auto
  ultimately show ?case using r1(1) r2 by (auto simp: x UUID_str)
qed

end


section \<open>The abstract state\<close>

record sessions =
  owner :: "pystr \<rightharpoonup> pystr"
  current :: "pystr \<rightharpoonup> pystr"
  access :: "pystr \<rightharpoonup> pystr \<times> pystr"
  refresh :: "pystr \<rightharpoonup> pystr \<times> pystr"

text \<open>
  \<open>owner\<close>: the user of a live session; \<open>current\<close>: the refresh token issued last for it;
  \<open>access\<close>, \<open>refresh\<close>: the user and session a valid token stands for.
\<close>

definition without :: "pystr set \<Rightarrow> ('k \<rightharpoonup> pystr \<times> pystr) \<Rightarrow> ('k \<rightharpoonup> pystr \<times> pystr)" where
  "without Z m = (\<lambda>k. case m k of Some (u, s) \<Rightarrow> if s \<in> Z then None else Some (u, s) | None \<Rightarrow> None)"

lemma without_iff: "without Z m k = Some (u, s) \<longleftrightarrow> m k = Some (u, s) \<and> s \<notin> Z"
  by (auto simp: without_def split: option.splits)

definition a_create :: "pystr \<Rightarrow> pystr \<Rightarrow> pystr \<Rightarrow> pystr \<Rightarrow> sessions \<Rightarrow> sessions" where
  "a_create sid uid jti tok A =
     \<lparr>owner = (owner A)(sid \<mapsto> uid), current = (current A)(sid \<mapsto> tok),
      access = (access A)(jti \<mapsto> (uid, sid)), refresh = (refresh A)(tok \<mapsto> (uid, sid))\<rparr>"

definition a_revoke :: "pystr set \<Rightarrow> sessions \<Rightarrow> sessions" where
  "a_revoke Z A =
     \<lparr>owner = (\<lambda>s. if s \<in> Z then None else owner A s), current = (\<lambda>s. if s \<in> Z then None else current A s),
      access = without Z (access A), refresh = without Z (refresh A)\<rparr>"

definition a_rotate :: "pystr \<Rightarrow> pystr \<Rightarrow> pystr \<Rightarrow> pystr \<Rightarrow> sessions \<Rightarrow> sessions" where
  "a_rotate sid uid jti tok A = a_create sid uid jti tok (a_revoke {sid} A)"

definition a_revoke_all :: "pystr \<Rightarrow> sessions \<Rightarrow> sessions" where
  "a_revoke_all uid A = a_revoke {s. owner A s = Some uid} A"

definition a_take :: "pystr \<Rightarrow> sessions \<Rightarrow> sessions" where
  "a_take t A = A\<lparr>refresh := (refresh A)(t := None)\<rparr>"

section \<open>The contract of the port\<close>

locale session_store =
  fixes ok :: "'r \<Rightarrow> bool" and abs :: "'r \<Rightarrow> sessions"
    and fresh :: "'r \<Rightarrow> pystr \<Rightarrow> pystr \<Rightarrow> bool" and unused :: "'r \<Rightarrow> uuid \<Rightarrow> bool"
    and create :: "pystr \<Rightarrow> pystr option \<Rightarrow> uuid \<Rightarrow> uuid \<Rightarrow> pystr \<Rightarrow> pystr \<Rightarrow> ('r, unit) act"
    and look_up :: "pystr \<Rightarrow> ('r, session_ref option) act"
    and rotate :: "pystr \<Rightarrow> uuid \<Rightarrow> pystr \<Rightarrow> pystr \<Rightarrow> pystr \<Rightarrow> ('r, unit) act"
    and revoke :: "uuid \<Rightarrow> ('r, unit) act" and revoke_all :: "uuid \<Rightarrow> ('r, unit) act"
    and valid :: "pystr \<Rightarrow> ('r, bool) act"
  assumes access_owner: "ok r \<Longrightarrow> access (abs r) j = Some (u, s) \<Longrightarrow> owner (abs r) s = Some u"
    and refresh_owner: "ok r \<Longrightarrow> refresh (abs r) t = Some (u, s) \<Longrightarrow>
      owner (abs r) s = Some u \<and> current (abs r) s = Some t \<and> (\<exists>uid sid. u = str_uuid uid \<and> s = str_uuid sid)"
    and create: "ok r \<Longrightarrow> unused r sid \<Longrightarrow> fresh r jti tok \<Longrightarrow> py_text now \<Longrightarrow> pred_option py_text dev \<Longrightarrow>
      \<exists>r'. create now dev sid uid jti tok r = (Inr (), r') \<and> ok r' \<and>
        abs r' = a_create (str_uuid sid) (str_uuid uid) jti tok (abs r)"
    and look_up: "ok r \<Longrightarrow> py_text t \<Longrightarrow>
      \<exists>r'. look_up t r = (Inr (map_option (\<lambda>(u, s). \<lparr>ref_user_id = u, ref_session_id = s\<rparr>) (refresh (abs r) t)), r') \<and>
        ok r' \<and> abs r' = a_take t (abs r)"
    and look_up_fresh: "ok r \<Longrightarrow> fresh r jti tok \<Longrightarrow> fresh (snd (look_up t r)) jti tok"
    and fresh_text: "ok r \<Longrightarrow> fresh r jti tok \<Longrightarrow> py_text jti \<and> py_text tok"
    and rotate: "ok r \<Longrightarrow> owner (abs r) (str_uuid sid) = Some (str_uuid uid) \<Longrightarrow>
      current (abs r) (str_uuid sid) = Some old \<Longrightarrow> fresh r jti tok \<Longrightarrow> py_text now \<Longrightarrow>
      \<exists>r'. rotate now sid old jti tok r = (Inr (), r') \<and> ok r' \<and>
        abs r' = a_rotate (str_uuid sid) (str_uuid uid) jti tok (abs r)"
    and revoke: "ok r \<Longrightarrow> \<exists>r'. revoke sid r = (Inr (), r') \<and> ok r' \<and> abs r' = a_revoke {str_uuid sid} (abs r)"
    and revoke_all: "ok r \<Longrightarrow>
      \<exists>r'. revoke_all uid r = (Inr (), r') \<and> ok r' \<and> abs r' = a_revoke_all (str_uuid uid) (abs r)"
    and valid: "ok r \<Longrightarrow> py_text j \<Longrightarrow>
      \<exists>r'. valid j r = (Inr (access (abs r) j \<noteq> None), r') \<and> ok r' \<and> abs r' = abs r"
begin

text \<open>A new session's tokens work at once.\<close>

lemma created_valid:
  assumes "ok r" and "unused r sid" and "fresh r jti tok" and "py_text now" and "pred_option py_text dev"
  shows "\<exists>r'. create now dev sid uid jti tok r = (Inr (), r') \<and> fst (valid jti r') = Inr True \<and>
    fst (look_up tok r') = Inr (Some \<lparr>ref_user_id = str_uuid uid, ref_session_id = str_uuid sid\<rparr>)"
proof -
  obtain r' where r': "create now dev sid uid jti tok r = (Inr (), r')" "ok r'"
      "abs r' = a_create (str_uuid sid) (str_uuid uid) jti tok (abs r)"
    using create[OF assms] by blast
  then show ?thesis using valid[OF r'(2), of jti] look_up[OF r'(2), of tok] fresh_text[OF assms(1,3)]
    by (auto simp: a_create_def)
qed

text \<open>A refresh token is read once.\<close>

lemma look_up_once:
  assumes "ok r" and "py_text t"
  shows "\<exists>x r'. look_up t r = (Inr x, r') \<and> fst (look_up t r') = Inr None"
proof -
  obtain r' where r': "look_up t r = (Inr (map_option (\<lambda>(u, s). \<lparr>ref_user_id = u, ref_session_id = s\<rparr>) (refresh (abs r) t)), r')"
      "ok r'" "abs r' = a_take t (abs r)"
    using look_up[OF assms] by blast
  then show ?thesis using look_up[OF r'(2) assms(2)] by (auto simp: a_take_def)
qed

text \<open>After a revocation no token of the session works, and no other token is touched.\<close>

lemma revoked_tokens:
  assumes "ok r"
  shows "\<exists>r'. revoke sid r = (Inr (), r') \<and> ok r' \<and>
    (\<forall>j u s. access (abs r') j = Some (u, s) \<longleftrightarrow> access (abs r) j = Some (u, s) \<and> s \<noteq> str_uuid sid) \<and>
    (\<forall>t u s. refresh (abs r') t = Some (u, s) \<longleftrightarrow> refresh (abs r) t = Some (u, s) \<and> s \<noteq> str_uuid sid)"
  using revoke[OF assms, of sid] by (auto simp: a_revoke_def without_iff)

lemma revoked_all_tokens:
  assumes "ok r"
  shows "\<exists>r'. revoke_all uid r = (Inr (), r') \<and> ok r' \<and>
    (\<forall>s. owner (abs r') s = (if owner (abs r) s = Some (str_uuid uid) then None else owner (abs r) s)) \<and>
    (\<forall>j u s. access (abs r') j = Some (u, s) \<longleftrightarrow> access (abs r) j = Some (u, s) \<and> u \<noteq> str_uuid uid) \<and>
    (\<forall>t u s. refresh (abs r') t = Some (u, s) \<longleftrightarrow> refresh (abs r) t = Some (u, s) \<and> u \<noteq> str_uuid uid)"
proof -
  obtain r' where r': "revoke_all uid r = (Inr (), r')" "ok r'" "abs r' = a_revoke_all (str_uuid uid) (abs r)"
    using revoke_all[OF assms] by blast
  show ?thesis
  proof (intro exI[of _ r'] conjI allI)
    show "access (abs r') j = Some (u, s) \<longleftrightarrow> access (abs r) j = Some (u, s) \<and> u \<noteq> str_uuid uid" for j u s
      using access_owner[OF assms, of j u s] by (auto simp: r'(3) a_revoke_all_def a_revoke_def without_iff)
    show "refresh (abs r') t = Some (u, s) \<longleftrightarrow> refresh (abs r) t = Some (u, s) \<and> u \<noteq> str_uuid uid" for t u s
      using refresh_owner[OF assms, of t u s] by (auto simp: r'(3) a_revoke_all_def a_revoke_def without_iff)
  qed (use r' in \<open>simp_all add: a_revoke_all_def a_revoke_def\<close>)
qed

end

section \<open>The Redis store satisfies it\<close>

definition decode_payload :: "entry option \<Rightarrow> (pystr \<times> pystr) option" where
  "decode_payload x =
     (case x of
        Some (RStr p, e) \<Rightarrow> (case py_split1 58 p of [u, s] \<Rightarrow> Some (u, s) | _ \<Rightarrow> None)
      | _ \<Rightarrow> None)"

definition hash_field :: "string \<Rightarrow> entry option \<Rightarrow> pystr option" where
  "hash_field f x = (case x of Some (RHash h, e) \<Rightarrow> h (lit f) | _ \<Rightarrow> None)"

definition abs_store :: "redis_view \<Rightarrow> sessions" where
  "abs_store V =
     \<lparr>owner = (\<lambda>s. hash_field ''user_id'' (ses V s)), current = (\<lambda>s. hash_field ''current_refresh'' (ses V s)),
      access = (\<lambda>j. decode_payload (acc V j)), refresh = (\<lambda>t. decode_payload (rfr V t))\<rparr>"

lemma decode_payload_simps [simp]:
  "decode_payload None = None"
  "decode_payload (Some (RStr (payload (str_uuid u) s), e)) = Some (str_uuid u, s)"
  by (simp_all add: decode_payload_def payload_split)

lemma hash_field_simps [simp]:
  "hash_field f None = None" "hash_field f (Some (RHash h, e)) = h (lit f)"
  by (simp_all add: hash_field_def)

lemma abs_revoked:
  assumes inv: "store_inv RT X V" and rev: "revoked Z V V'"
  shows "abs_store V' = a_revoke Z (abs_store V)"
proof -
  have a: "\<exists>u s. fst x = RStr (payload (str_uuid u) s)" if "acc V j = Some x" for j x
    using store_invD(3)[OF inv, of j "fst x" "snd x"] that by (auto simp: token_ok_def)
  have r: "\<exists>u s. fst x = RStr (payload (str_uuid u) s)" if "rfr V t = Some x" for t x
    using store_invD(4)[OF inv, of t "fst x" "snd x"] that by (auto simp: token_ok_def)
  have "decode_payload (acc V' j) = without Z (\<lambda>j. decode_payload (acc V j)) j" for j
  proof (cases "acc V j")
    case (Some x)
    obtain u s e where "x = (RStr (payload (str_uuid u) s), e)" using a[OF Some] by (cases x) auto
    then show ?thesis using Some rev by (auto simp: revoked_def without_def)
  qed (use rev in \<open>auto simp: revoked_def without_def\<close>)
  moreover have "decode_payload (rfr V' j) = without Z (\<lambda>j. decode_payload (rfr V j)) j" for j
  proof (cases "rfr V j")
    case (Some x)
    obtain u s e where "x = (RStr (payload (str_uuid u) s), e)" using r[OF Some] by (cases x) auto
    then show ?thesis using Some rev by (auto simp: revoked_def without_def)
  qed (use rev in \<open>auto simp: revoked_def without_def\<close>)
  ultimately show ?thesis using rev by (auto simp: abs_store_def a_revoke_def revoked_def)
qed

end
