(* ===== verification/RedisSessions.thy ===== *)
theory RedisSessions
  imports SessionStore
begin

text \<open>
  The Redis token store satisfies the contract of the port: the remaining methods run from
  any state in which the invariant holds, \<open>abs_store\<close> is a refinement map from the key
  space to the abstract sessions, and the locale \<open>redis_sessions\<close> (a server and the two
  lifetimes of the configuration) is a \<open>session_store\<close>. The executable server is an
  instance, and so the contract's facts hold for the store that the witnesses run.
\<close>

section \<open>The abstract state of a key space\<close>

lemma abs_store_simps [simp]:
  "owner (abs_store V) s = hash_field ''user_id'' (ses V s)"
  "current (abs_store V) s = hash_field ''current_refresh'' (ses V s)"
  "access (abs_store V) j = decode_payload (acc V j)"
  "refresh (abs_store V) t = decode_payload (rfr V t)"
  by (simp_all add: abs_store_def)

lemma hash_field_Some:
  assumes "store_inv RT X V"
  shows "hash_field f (ses V s) = Some y \<longleftrightarrow> (\<exists>h m. ses V s = Some (RHash h, Some m) \<and> h (lit f) = Some y)"
proof (cases "ses V s")
  case (Some x)
  obtain v e where x: "x = (v, e)" by (cases x)
  then have "session_ok RT X V s v e" using store_invD(1)[OF assms] Some by simp
  then show ?thesis using Some x by (auto simp: session_ok_def)
qed simp

lemma token_decode:
  assumes "store_inv RT X V"
  shows "decode_payload (acc V j) = Some (u, s) \<Longrightarrow> (\<exists>uid sid h m. u = str_uuid uid \<and> s = str_uuid sid \<and>
      ses V s = Some (RHash h, Some m) \<and> h (lit ''user_id'') = Some u \<and> h (lit ''current_jti'') = Some j)"
    and "decode_payload (rfr V t) = Some (u, s) \<Longrightarrow> (\<exists>uid sid h m. u = str_uuid uid \<and> s = str_uuid sid \<and>
      ses V s = Some (RHash h, Some m) \<and> h (lit ''user_id'') = Some u \<and> h (lit ''current_refresh'') = Some t)"
proof -
  show "\<exists>uid sid h m. u = str_uuid uid \<and> s = str_uuid sid \<and>
      ses V s = Some (RHash h, Some m) \<and> h (lit ''user_id'') = Some u \<and> h (lit ''current_jti'') = Some j"
    if "decode_payload (acc V j) = Some (u, s)"
  proof (cases "acc V j")
    case (Some x)
    then have "token_ok V ''current_jti'' j (fst x) (snd x)" using store_invD(3)[OF assms] by simp
    then show ?thesis using that Some by (cases x) (auto simp: token_ok_def)
  qed (use that in simp)
  show "\<exists>uid sid h m. u = str_uuid uid \<and> s = str_uuid sid \<and>
      ses V s = Some (RHash h, Some m) \<and> h (lit ''user_id'') = Some u \<and> h (lit ''current_refresh'') = Some t"
    if "decode_payload (rfr V t) = Some (u, s)"
  proof (cases "rfr V t")
    case (Some x)
    then have "token_ok V ''current_refresh'' t (fst x) (snd x)" using store_invD(4)[OF assms] by simp
    then show ?thesis using that Some by (cases x) (auto simp: token_ok_def)
  qed (use that in simp)
qed

text \<open>A token key exists exactly when it stands for a session.\<close>

lemma token_exists:
  assumes "store_inv RT X V"
  shows "decode_payload (acc V j) = None \<longleftrightarrow> acc V j = None"
proof (cases "acc V j")
  case (Some x)
  then have "token_ok V ''current_jti'' j (fst x) (snd x)" using store_invD(3)[OF assms] by simp
  then show ?thesis using Some by (cases x) (auto simp: token_ok_def)
qed simp

text \<open>Two sets of sessions that agree on the live ones are revoked alike.\<close>

lemma a_revoke_cong:
  assumes "\<And>s. (s \<in> Z \<longleftrightarrow> s \<in> Z') \<or> owner A s = None"
    and "\<And>s. owner A s = None \<Longrightarrow> current A s = None"
    and "\<And>j u s. access A j = Some (u, s) \<Longrightarrow> owner A s \<noteq> None"
    and "\<And>t u s. refresh A t = Some (u, s) \<Longrightarrow> owner A s \<noteq> None"
  shows "a_revoke Z A = a_revoke Z' A"
proof -
  have *: "without Z m j = without Z' m j" if "\<And>u s. m j = Some (u, s) \<Longrightarrow> owner A s \<noteq> None"
    for m :: "pystr \<rightharpoonup> pystr \<times> pystr" and j
  proof (cases "m j")
    case (Some x)
    obtain u s where "x = (u, s)" by (cases x)
    then show ?thesis using assms(1)[of s] that[of u s] Some by (auto simp: without_def)
  qed (simp add: without_def)
  have "without Z (access A) j = without Z' (access A) j" for j by (rule *) (rule assms(3))
  moreover have "without Z (refresh A) j = without Z' (refresh A) j" for j by (rule *) (rule assms(4))
  moreover have "(if s \<in> Z then None else owner A s) = (if s \<in> Z' then None else owner A s)" for s
    using assms(1)[of s] by auto
  moreover have "(if s \<in> Z then None else current A s) = (if s \<in> Z' then None else current A s)" for s
    using assms(1,2)[of s] by auto
  ultimately show ?thesis by (simp add: a_revoke_def fun_eq_iff)
qed

section \<open>The remaining methods\<close>

lemma ses_same_ok:
  assumes "store_ok RT X V" and "ses V' = ses V" and "\<And>x. members (usr V' x) \<subseteq> members (usr V x)"
  shows "distinct_tokens V' \<and> index_sound V'"
proof
  show "distinct_tokens V'" using store_okD(2)[OF assms(1)] by (simp add: distinct_tokens_def assms(2))
  show "index_sound V'"
    by (rule index_sound_sub[OF store_okD(3)[OF assms(1)] assms(3)]) (auto simp: assms(2))
qed

context redis_server
begin

lemma look_up_run:
  assumes ok: "store_ok RT X (view r)" and tx: "py_text t"
  obtains r' where "get_session_by_refresh_token exec t r =
      (Inr (map_option (\<lambda>(u, s). \<lparr>ref_user_id = u, ref_session_id = s\<rparr>) (refresh (abs_store (view r)) t)), r')"
    "view r' = (view r)(refresh_key t := None)" "store_ok RT X (view r')"
proof -
  have "cmd_fine (GETDEL (refresh_key t)) (view r)"
    using store_inv_kinds(4)[OF store_okD(1)[OF ok], of t] tx by (simp add: rfr_def)
  then obtain rep r' where c: "redis_call exec (GETDEL (refresh_key t)) r = (Inr rep, r')"
      "redis_reply_ok (GETDEL (refresh_key t)) (view r) rep"
      "view r' = redis_effect (GETDEL (refresh_key t)) (view r)"
    by (rule redis_call_fine)
  have "view r' = (view r)(refresh_key t := None) \<and> get_session_by_refresh_token exec t r =
      (Inr (map_option (\<lambda>(u, s). \<lparr>ref_user_id = u, ref_session_id = s\<rparr>) (refresh (abs_store (view r)) t)), r')"
  proof (cases "rfr (view r) t")
    case None
    then show ?thesis using c by (auto simp: rfr_def get_session_by_refresh_token_def ret_def)
  next
    case (Some x)
    obtain u sid e where "x = (RStr (payload (str_uuid u) (str_uuid sid)), e)"
      using store_invD(4)[OF store_okD(1)[OF ok], of t "fst x" "snd x"] Some
      by (cases x) (auto simp: token_ok_def)
    then show ?thesis using c Some
      by (auto simp: rfr_def get_session_by_refresh_token_def ret_def payload_split)
  qed
  then show thesis
    using that[of r'] getdel_inv[OF store_okD(1)[OF ok], of t]
      ses_same_ok[OF ok, of "(view r)(refresh_key t := None)"] by (simp add: store_ok_def)
qed

lemma valid_run:
  assumes inv: "store_inv RT X (view r)" and tx: "py_text j"
  obtains r' where "is_access_jti_valid exec j r = (Inr (access (abs_store (view r)) j \<noteq> None), r')"
    "view r' = view r"
proof -
  have "cmd_fine (EXISTS (access_key j)) (view r)" using tx by simp
  then obtain rep r' where c: "redis_call exec (EXISTS (access_key j)) r = (Inr rep, r')"
      "redis_reply_ok (EXISTS (access_key j)) (view r) rep" "view r' = view r"
    by (rule redis_call_fine) simp
  then have "is_access_jti_valid exec j r = (Inr (access (abs_store (view r)) j \<noteq> None), r')"
    using token_exists[OF inv, of j] by (simp add: is_access_jti_valid_def ret_def acc_def)
  then show thesis using that c(3) by simp
qed

lemma revoke_all_run:
  assumes ok: "store_ok RT {} (view r)"
  obtains r' where "revoke_all_user_sessions U exec uid r = (Inr (), r')" "store_ok RT {} (view r')"
    "abs_store (view r') = a_revoke_all (str_uuid uid) (abs_store (view r))"
proof -
  let ?k = "user_sessions_key (str_uuid uid)"
  define Z where "Z = members (usr (view r) (str_uuid uid))"
  note inv = store_okD(1)[OF ok]
  have "cmd_fine (SMEMBERS ?k) (view r)"
    using store_inv_kinds(2)[OF inv, of "str_uuid uid"] by (simp add: usr_def)
  then obtain rep r1 where c: "redis_call exec (SMEMBERS ?k) r = (Inr rep, r1)"
      "redis_reply_ok (SMEMBERS ?k) (view r) rep" "view r1 = view r"
    by (rule redis_call_fine) simp
  obtain xs where xs: "rep = RArray xs" "set xs = Z"
    using c(2) store_inv_kinds(2)[OF inv, of "str_uuid uid"]
    by (cases "usr (view r) (str_uuid uid)") (auto simp: Z_def members_def usr_def set_or_none_def)
  obtain rep2 r2 where d: "redis_call exec (DEL ?k) r1 = (Inr rep2, r2)" "view r2 = (view r)(?k := None)"
    by (rule redis_call_fine[of "DEL ?k" r1]) (use c(3) in simp_all)
  have ok2: "store_ok RT Z (view r2)"
    using drop_index_inv[OF inv, of "str_uuid uid"] d(2) ses_same_ok[OF ok, of "view r2"]
    by (simp add: store_ok_def Z_def members_def)
  have "\<forall>x\<in>set xs. \<exists>sid. x = str_uuid sid"
    using store_invD(2)[OF inv, of "str_uuid uid"] xs(2)
    by (cases "usr (view r) (str_uuid uid)") (auto simp: Z_def members_def index_ok_def)
  then obtain r3 where r3: "for_each (\<lambda>s. bnd (lift_res (UUID U s)) (revoke_session exec)) xs r2 = (Inr (), r3)"
      "store_ok RT (Z - set xs) (view r3)" "revoked (set xs) (view r2) (view r3)"
    using revoke_loop_run[OF _ ok2] by blast
  have "abs_store (view r2) = abs_store (view r)" using d(2) by (simp add: abs_store_def)
  then have "abs_store (view r3) = a_revoke Z (abs_store (view r))"
    using abs_revoked[OF store_okD(1)[OF ok2] r3(3)] xs(2) by simp
  moreover have "a_revoke Z (abs_store (view r)) = a_revoke_all (str_uuid uid) (abs_store (view r))"
    unfolding a_revoke_all_def
  proof (rule a_revoke_cong)
    fix s
    show "(s \<in> Z \<longleftrightarrow> s \<in> {s. owner (abs_store (view r)) s = Some (str_uuid uid)}) \<or>
        owner (abs_store (view r)) s = None"
    proof (cases "ses (view r) s")
      case (Some x)
      then have "session_ok RT {} (view r) s (fst x) (snd x)" using store_invD(1)[OF inv] by simp
      then obtain h m u where h: "x = (RHash h, Some m)" "h (lit ''user_id'') = Some (str_uuid u)"
          "s \<in> members (usr (view r) (str_uuid u))"
        by (cases x) (auto simp: session_ok_def members_def)
      moreover have "s \<in> Z \<Longrightarrow> u = uid"
        using index_soundD[OF store_okD(3)[OF ok]] Some h unfolding Z_def by fastforce
      ultimately show ?thesis using Some by (auto simp: Z_def)
    qed simp
    show "owner (abs_store (view r)) s = None \<Longrightarrow> current (abs_store (view r)) s = None"
    proof (cases "ses (view r) s")
      case (Some x)
      then have "session_ok RT {} (view r) s (fst x) (snd x)" using store_invD(1)[OF inv] by simp
      then show "owner (abs_store (view r)) s = None \<Longrightarrow> current (abs_store (view r)) s = None"
        using Some by (cases x) (auto simp: session_ok_def)
    qed simp
  qed (use token_decode[OF inv] in fastforce)+
  ultimately show thesis
    using that[of r3] c xs d r3 by (simp add: revoke_all_user_sessions_def)
qed

lemma rotate_run:
  assumes ok: "store_ok (ms rt) {} (view r)"
    and own: "owner (abs_store (view r)) (str_uuid sid) = Some (str_uuid uid)"
      "current (abs_store (view r)) (str_uuid sid) = Some old"
    and fresh: "fresh_token (view r) ''current_jti'' jti" "fresh_token (view r) ''current_refresh'' tok"
    and ttl: "0 < at" "at \<le> rt" and ne: "token_text jti" "token_text tok"
    and tx: "py_text now_iso"
  obtains r' where "rotate_session U exec now_iso sid old jti tok at rt r = (Inr (), r')"
    "store_ok (ms rt) {} (view r')"
    "abs_store (view r') = a_rotate (str_uuid sid) (str_uuid uid) jti tok (abs_store (view r))"
  using store_okD(1)[OF ok]
proof (cases rule: get_session_run[where sid = sid, consumes 1, case_names none some])
  case (none r')
  then show thesis using own by simp
next
  case (some data r1 m)
  note inv = store_okD(1)[OF ok]
  let ?V = "view r" and ?h = "map_of data"
  obtain u j t where f: "?h (lit ''user_id'') = Some (str_uuid u)" "data_get data ''user_id'' = str_uuid u"
      "data_get data ''current_jti'' = j" "data_get data ''current_refresh'' = t"
      "?h (lit ''current_jti'') = Some j" "token_text j" "?h (lit ''current_refresh'') = Some t" "token_text t"
    using session_data_fields[OF inv some(3)] .
  have u: "u = uid" "t = old" using own some(3) f by simp_all
  obtain S m' where S: "usr ?V (str_uuid uid) = Some (RSet S, Some m')" "str_uuid sid \<in> S"
    using store_invD(1)[OF inv some(3)] f(1) u by (auto simp: session_ok_def)
  have "0 < rt" using ttl by simp
  let ?cs = "rotate_cmds now_iso sid (str_uuid uid) j uid old jti tok at rt"
  note eff = rotate_effect[OF ttl(1) \<open>0 < rt\<close> some(3) S(1) f(6), where now_iso = now_iso and
      user = "str_uuid uid" and old = old and new_jti = jti and new = tok]
  have "pipe_fine ?cs (view r1)"
    using eff(1)[OF tx] some(2) f(8) u(2) ne by (simp add: token_text_def)
  then obtain reps r' where p: "redis_pipeline exec ?cs r1 = (Inr reps, r')" "view r' = pipe_effect ?cs ?V"
    using some(2) by (metis pipeline_fine)
  have "distinct_tokens (view r')"
    by (rule distinct_tokens_upd[OF store_okD(2)[OF ok], of _ "str_uuid sid"])
      (use eff(4) p fresh in \<open>auto dest: fresh_tokenD\<close>)
  moreover have "index_sound (view r')"
  proof (rule index_sound_sub[OF store_okD(3)[OF ok]])
    show "members (usr (view r') x) \<subseteq> members (usr ?V x)" for x
      using eff(5) p(2) S(1) by (auto simp: members_def)
    show "\<exists>h' e'. ses ?V y = Some (RHash h', e') \<and> h (lit ''user_id'') = h' (lit ''user_id'')"
      if "ses (view r') y = Some (RHash h, e)" for y h e
      using that eff(4) p(2) some(3) by (auto split: if_splits)
  qed
  ultimately have ok': "store_ok (ms rt) {} (view r')"
    using rotate_inv[OF inv some(3) f(1)[unfolded u] f(5) f(7)[unfolded u] f(6) S ttl ne] p(2)
    by (simp add: store_ok_def)
  let ?R = "pipe_effect (revoke_cmds sid (str_uuid uid) j old) ?V"
  note rev = revoke_effect[OF store_inv_kinds(2)[OF inv] token_text_uuid f(6,8)[unfolded u],
      where sid = sid]
  have R: "abs_store ?R = a_revoke {str_uuid sid} (abs_store ?V)"
    using abs_revoked[OF inv revoke_effect_revoked[OF inv some(3) f(1,5,6,7,8) token_text_uuid store_okD(2)[OF ok]]] u
    by simp
  have h: "?h (lit ''user_id'') = Some (str_uuid uid)" using f(1) u by simp
  have "abs_store (view r') = a_create (str_uuid sid) (str_uuid uid) jti tok (abs_store ?R)"
    unfolding p(2) abs_store_def a_create_def eff(2-4) rev(2-4) using h by (simp add: fun_eq_iff)
  then have "abs_store (view r') = a_rotate (str_uuid sid) (str_uuid uid) jti tok (abs_store ?V)"
    by (simp add: a_rotate_def R)
  then show thesis
    using that[of r'] ok' p some(1) f(1,3) u by (simp add: rotate_session_def UUID_str ret_def)
qed

end

section \<open>The store is a session store\<close>

definition fresh_pair :: "redis_view \<Rightarrow> pystr \<Rightarrow> pystr \<Rightarrow> bool" where
  "fresh_pair V jti tok \<longleftrightarrow> token_text jti \<and> token_text tok \<and>
     fresh_token V ''current_jti'' jti \<and> fresh_token V ''current_refresh'' tok"

locale redis_sessions = redis_server exec view elapse
  for exec :: "'r redis_exec" and view :: "'r \<Rightarrow> redis_view" and elapse :: "nat \<Rightarrow> 'r \<Rightarrow> 'r" +
  fixes U :: unicode and access_ttl refresh_ttl :: int
  assumes access_ttl_pos: "0 < access_ttl" and access_ttl_le: "access_ttl \<le> refresh_ttl"

sublocale redis_sessions \<subseteq> rts: session_store
  "\<lambda>r. store_ok (ms refresh_ttl) {} (view r)" "\<lambda>r. abs_store (view r)"
  "\<lambda>r. fresh_pair (view r)" "\<lambda>r. fresh_session (view r)"
  "\<lambda>now dev sid uid jti tok. create_session exec now sid uid jti tok dev access_ttl refresh_ttl"
  "get_session_by_refresh_token exec"
  "\<lambda>now sid old jti tok. rotate_session U exec now sid old jti tok access_ttl refresh_ttl"
  "revoke_session exec" "revoke_all_user_sessions U exec" "is_access_jti_valid exec"
proof
  fix r j t u s now dev sid uid jti tok old
  assume ok: "store_ok (ms refresh_ttl) {} (view r)"
  note inv = store_okD(1)[OF ok]
  show "access (abs_store (view r)) j = Some (u, s) \<Longrightarrow> owner (abs_store (view r)) s = Some u"
    using token_decode(1)[OF inv] by fastforce
  show "refresh (abs_store (view r)) t = Some (u, s) \<Longrightarrow> owner (abs_store (view r)) s = Some u \<and>
      current (abs_store (view r)) s = Some t \<and> (\<exists>uid sid. u = str_uuid uid \<and> s = str_uuid sid)"
    using token_decode(2)[OF inv] by fastforce
  show "\<exists>r'. create_session exec now sid uid jti tok dev access_ttl refresh_ttl r = (Inr (), r') \<and>
      store_ok (ms refresh_ttl) {} (view r') \<and>
      abs_store (view r') = a_create (str_uuid sid) (str_uuid uid) jti tok (abs_store (view r))"
    if fs: "fresh_session (view r) sid" and fp: "fresh_pair (view r) jti tok"
      and tx: "py_text now" "pred_option py_text dev"
  proof -
    have none: "ses (view r) (str_uuid sid) = None" and "0 < refresh_ttl"
      using fs access_ttl_pos access_ttl_le by (simp_all add: fresh_session_def)
    have abs: "abs_store (pipe_effect (create_cmds now sid uid jti tok dev access_ttl refresh_ttl) (view r)) =
        a_create (str_uuid sid) (str_uuid uid) jti tok (abs_store (view r))"
      using create_effect(2-4)[OF access_ttl_pos \<open>0 < refresh_ttl\<close> none store_inv_kinds(2)[OF inv]]
      by (simp add: abs_store_def a_create_def fun_eq_iff)
    have fp': "fresh_token (view r) ''current_jti'' jti" "fresh_token (view r) ''current_refresh'' tok"
        "token_text jti" "token_text tok"
      using fp by (simp_all add: fresh_pair_def)
    obtain r' where "create_session exec now sid uid jti tok dev access_ttl refresh_ttl r = (Inr (), r')"
        "view r' = pipe_effect (create_cmds now sid uid jti tok dev access_ttl refresh_ttl) (view r)"
        "store_ok (ms refresh_ttl) {} (view r')"
      using create_session_run[OF ok fs fp'(1,2) access_ttl_pos access_ttl_le fp'(3,4) tx] .
    then show ?thesis using abs by auto
  qed
  show "\<exists>r'. get_session_by_refresh_token exec t r =
        (Inr (map_option (\<lambda>(u, s). \<lparr>ref_user_id = u, ref_session_id = s\<rparr>) (refresh (abs_store (view r)) t)), r') \<and>
      store_ok (ms refresh_ttl) {} (view r') \<and> abs_store (view r') = a_take t (abs_store (view r))"
    if "py_text t"
    by (rule look_up_run[OF ok that]) (auto simp: a_take_def abs_store_def)
  show "fresh_pair (view r) jti tok \<Longrightarrow> fresh_pair (view (snd (get_session_by_refresh_token exec t r))) jti tok"
    by (cases "py_text t", rule look_up_run[OF ok, of t])
      (simp_all add: fresh_pair_def fresh_token_def get_session_by_refresh_token_def redis_call_def sendable_def)
  show "fresh_pair (view r) jti tok \<Longrightarrow> py_text jti \<and> py_text tok"
    by (simp add: fresh_pair_def token_text_def)
  show "\<exists>r'. rotate_session U exec now sid old jti tok access_ttl refresh_ttl r = (Inr (), r') \<and>
      store_ok (ms refresh_ttl) {} (view r') \<and>
      abs_store (view r') = a_rotate (str_uuid sid) (str_uuid uid) jti tok (abs_store (view r))"
    if "owner (abs_store (view r)) (str_uuid sid) = Some (str_uuid uid)"
      and "current (abs_store (view r)) (str_uuid sid) = Some old" and "fresh_pair (view r) jti tok" and "py_text now"
    by (rule rotate_run[OF ok that(1,2) _ _ access_ttl_pos access_ttl_le _ _ that(4)])
      (use that(3) in \<open>auto simp: fresh_pair_def\<close>)
  show "\<exists>r'. revoke_session exec sid r = (Inr (), r') \<and> store_ok (ms refresh_ttl) {} (view r') \<and>
      abs_store (view r') = a_revoke {str_uuid sid} (abs_store (view r))"
    by (rule revoke_session_run[OF ok, of sid]) (use abs_revoked[OF inv] in auto)
  show "\<exists>r'. revoke_all_user_sessions U exec uid r = (Inr (), r') \<and> store_ok (ms refresh_ttl) {} (view r') \<and>
      abs_store (view r') = a_revoke_all (str_uuid uid) (abs_store (view r))"
    by (rule revoke_all_run[OF ok, of U uid]) blast
  show "\<exists>r'. is_access_jti_valid exec j r = (Inr (access (abs_store (view r)) j \<noteq> None), r') \<and>
      store_ok (ms refresh_ttl) {} (view r') \<and> abs_store (view r') = abs_store (view r)"
    if "py_text j"
    by (rule valid_run[OF inv that]) (use ok in auto)
qed

interpretation refs: redis_sessions ref_exec ref_view ref_elapse latin_unicode 900 2592000
  by unfold_locales simp_all

end
