(* ===== verification/StoreSystem.thy ===== *)
theory StoreSystem
  imports RedisSessions
begin

text \<open>
  The token store as a system: the states the store reaches when logins, refreshes,
  revocations, crashes between the two halves of a refresh, the passing of time and the
  traffic of the other users of the same Redis server (rate limits, idempotency records)
  are interleaved operation by operation. The invariant holds in every one of them, and
  the properties of the store are stated for them.
\<close>

section \<open>Foreign keys\<close>

fun cmd_key :: "redis_cmd \<Rightarrow> pystr" where
  "cmd_key (SETEX k t v) = k"
| "cmd_key (SETNXEX k v t) = k"
| "cmd_key (GET k) = k"
| "cmd_key (GETDEL k) = k"
| "cmd_key (DEL k) = k"
| "cmd_key (EXISTS k) = k"
| "cmd_key (INCR k) = k"
| "cmd_key (TTL k) = k"
| "cmd_key (EXPIRE k t) = k"
| "cmd_key (HSET k fs) = k"
| "cmd_key (HGETALL k) = k"
| "cmd_key (SADD k x) = k"
| "cmd_key (SREM k x) = k"
| "cmd_key (SMEMBERS k) = k"

definition store_key :: "pystr \<Rightarrow> bool" where
  "store_key k \<longleftrightarrow>
     py_startswith k (lit ''access:'') \<or> py_startswith k (lit ''refresh:'') \<or>
     py_startswith k (lit ''session:'') \<or> py_startswith k (lit ''sessions:'')"

lemma store_key_simps [simp]:
  "store_key (access_key x)" "store_key (refresh_key x)" "store_key (session_key x)"
  "store_key (user_sessions_key x)"
  by (simp_all add: store_key_def access_key_def refresh_key_def session_key_def user_sessions_key_def)

lemma effect_other_key: "k \<noteq> cmd_key c \<Longrightarrow> redis_effect c V k = V k"
  by (cases c) (auto split: option.splits redis_value.splits)

lemma pipe_other_key: "\<forall>c\<in>set cs. k \<noteq> cmd_key c \<Longrightarrow> pipe_effect cs V k = V k"
  unfolding pipe_effect_def by (induction cs arbitrary: V) (simp_all add: effect_other_key)

fun is_read :: "redis_cmd \<Rightarrow> bool" where
  "is_read (GET k) = True"
| "is_read (EXISTS k) = True"
| "is_read (TTL k) = True"
| "is_read (HGETALL k) = True"
| "is_read (SMEMBERS k) = True"
| "is_read _ = False"

lemma effect_read: "is_read c \<Longrightarrow> redis_effect c V = V"
  by (cases c) simp_all

definition same_store :: "redis_view \<Rightarrow> redis_view \<Rightarrow> bool" where
  "same_store V V' \<longleftrightarrow> acc V' = acc V \<and> rfr V' = rfr V \<and> ses V' = ses V \<and> usr V' = usr V"

lemma foreign_same:
  assumes "\<not> store_key (cmd_key c)"
  shows "same_store V (redis_effect c V)"
proof -
  have "access_key x \<noteq> cmd_key c" "refresh_key x \<noteq> cmd_key c" "session_key x \<noteq> cmd_key c"
    "user_sessions_key x \<noteq> cmd_key c" for x
    using assms store_key_simps by metis+
  then show ?thesis by (auto simp: same_store_def proj_defs effect_other_key)
qed

lemma same_store_ok:
  assumes "store_ok RT X V" and "same_store V V'"
  shows "store_ok RT X V'"
  using assms
  unfolding same_store_def store_ok_def store_inv_def session_ok_def token_ok_def distinct_tokens_def
    index_sound_def by simp

lemma same_store_abs: "same_store V V' \<Longrightarrow> abs_store V' = abs_store V"
  by (simp add: same_store_def abs_store_def)

section \<open>Time\<close>

lemma age_sub:
  "ses (age d V) x = Some (v, e) \<Longrightarrow> \<exists>e'. ses V x = Some (v, e')"
  "usr (age d V) x = Some (v, e) \<Longrightarrow> \<exists>e'. usr V x = Some (v, e')"
  by (cases e; auto simp: age_proj age_no_ttl)+

lemma age_ok:
  assumes "store_ok RT X V"
  shows "store_ok RT X (age d V)"
proof -
  have "members (usr (age d V) x) \<subseteq> members (usr V x)" for x
  proof (cases "usr (age d V) x")
    case (Some y)
    then show ?thesis using age_sub(2)[of d V x "fst y" "snd y"] by (cases y) (auto simp: members_def)
  qed (simp add: members_def)
  then have "index_sound (age d V)"
    by (rule index_sound_sub[OF store_okD(3)[OF assms]]) (use age_sub(1) in blast)
  moreover have "distinct_tokens (age d V)"
    by (rule distinct_tokens_sub[OF store_okD(2)[OF assms]]) (use age_sub(1) in blast)
  ultimately show ?thesis using age_inv[OF store_okD(1)[OF assms]] by (simp add: store_ok_def)
qed

text \<open>Waiting only takes tokens away.\<close>

lemma age_abs:
  "access (abs_store (age d V)) j = Some x \<Longrightarrow> access (abs_store V) j = Some x"
  "refresh (abs_store (age d V)) t = Some x \<Longrightarrow> refresh (abs_store V) t = Some x"
  "owner (abs_store (age d V)) s = Some u \<Longrightarrow> owner (abs_store V) s = Some u"
  by (auto simp: age_def proj_defs decode_payload_def hash_field_def
      split: option.splits if_splits redis_value.splits list.splits)

section \<open>Reachable states\<close>

text \<open>Rotating a session whose refresh token has just been taken.\<close>

lemma a_rotate_taken:
  "refresh A t = Some (uid, sid) \<Longrightarrow> a_rotate sid uid jti tok (a_take t A) = a_rotate sid uid jti tok A"
  by (cases A) (auto simp: a_rotate_def a_create_def a_revoke_def a_take_def without_def fun_eq_iff)

inductive store_reach ::
  "'r redis_exec \<Rightarrow> ('r \<Rightarrow> redis_view) \<Rightarrow> (nat \<Rightarrow> 'r \<Rightarrow> 'r) \<Rightarrow> unicode \<Rightarrow> int \<Rightarrow> int \<Rightarrow> 'r \<Rightarrow> bool"
  for exec view elapse U access_ttl refresh_ttl where
  reach_start: "view r = Map.empty \<Longrightarrow> store_reach exec view elapse U access_ttl refresh_ttl r"
| reach_create:
    "store_reach exec view elapse U access_ttl refresh_ttl r \<Longrightarrow>
     fresh_session (view r) sid \<Longrightarrow> fresh_pair (view r) jti tok \<Longrightarrow> py_text now_iso \<Longrightarrow>
     create_session exec now_iso sid uid jti tok dev access_ttl refresh_ttl r = (res, r') \<Longrightarrow>
     store_reach exec view elapse U access_ttl refresh_ttl r'"
| reach_take:
    "store_reach exec view elapse U access_ttl refresh_ttl r \<Longrightarrow>
     get_session_by_refresh_token exec t r = (found, r') \<Longrightarrow>
     store_reach exec view elapse U access_ttl refresh_ttl r'"
| reach_rotate:
    "store_reach exec view elapse U access_ttl refresh_ttl r \<Longrightarrow>
     get_session_by_refresh_token exec t r = (Inr (Some ref), r1) \<Longrightarrow>
     UUID U (ref_session_id ref) = Inr sid \<Longrightarrow> fresh_pair (view r) jti tok \<Longrightarrow> py_text now_iso \<Longrightarrow>
     rotate_session U exec now_iso sid t jti tok access_ttl refresh_ttl r1 = (res, r') \<Longrightarrow>
     store_reach exec view elapse U access_ttl refresh_ttl r'"
| reach_revoke:
    "store_reach exec view elapse U access_ttl refresh_ttl r \<Longrightarrow>
     revoke_session exec sid r = (res, r') \<Longrightarrow>
     store_reach exec view elapse U access_ttl refresh_ttl r'"
| reach_revoke_all:
    "store_reach exec view elapse U access_ttl refresh_ttl r \<Longrightarrow>
     revoke_all_user_sessions U exec uid r = (res, r') \<Longrightarrow>
     store_reach exec view elapse U access_ttl refresh_ttl r'"
| reach_wait:
    "store_reach exec view elapse U access_ttl refresh_ttl r \<Longrightarrow>
     store_reach exec view elapse U access_ttl refresh_ttl (elapse d r)"
| reach_foreign:
    "store_reach exec view elapse U access_ttl refresh_ttl r \<Longrightarrow> \<not> store_key (cmd_key c) \<Longrightarrow>
     exec c r = (rep, r') \<Longrightarrow> store_reach exec view elapse U access_ttl refresh_ttl r'"
| reach_read:
    "store_reach exec view elapse U access_ttl refresh_ttl r \<Longrightarrow> is_read c \<Longrightarrow>
     exec c r = (rep, r') \<Longrightarrow> store_reach exec view elapse U access_ttl refresh_ttl r'"

context redis_sessions
begin

text \<open>A refresh as the handler makes it: look the token up, then rotate its session.\<close>

lemma refresh_run:
  assumes ok: "store_ok (ms refresh_ttl) {} (view r)"
    and look: "get_session_by_refresh_token exec t r = (Inr (Some ref), r1)"
    and sid: "UUID U (ref_session_id ref) = Inr sid" and fresh: "fresh_pair (view r) jti tok"
    and now: "py_text now_iso"
  obtains uid r' where "ref = \<lparr>ref_user_id = str_uuid uid, ref_session_id = str_uuid sid\<rparr>"
    "refresh (abs_store (view r)) t = Some (str_uuid uid, str_uuid sid)"
    "rotate_session U exec now_iso sid t jti tok access_ttl refresh_ttl r1 = (Inr (), r')"
    "store_ok (ms refresh_ttl) {} (view r')"
    "abs_store (view r') = a_rotate (str_uuid sid) (str_uuid uid) jti tok (abs_store (view r))"
proof -
  have tx: "py_text t"
    using look
    by (rule contrapos_pp) (simp add: get_session_by_refresh_token_def redis_call_def sendable_def bnd_def)
  obtain r1' where l: "get_session_by_refresh_token exec t r =
      (Inr (map_option (\<lambda>(u, s). \<lparr>ref_user_id = u, ref_session_id = s\<rparr>) (refresh (abs_store (view r)) t)), r1')"
      "store_ok (ms refresh_ttl) {} (view r1')" "abs_store (view r1') = a_take t (abs_store (view r))"
    using rts.look_up[OF ok tx] by blast
  then have r1: "r1' = r1" using look by simp
  obtain u s where us: "refresh (abs_store (view r)) t = Some (u, s)" "ref = \<lparr>ref_user_id = u, ref_session_id = s\<rparr>"
    using l look by (cases "refresh (abs_store (view r)) t") (auto simp del: abs_store_simps)
  then obtain uid sid' where o: "u = str_uuid uid" "s = str_uuid sid'" "owner (abs_store (view r)) s = Some u"
      "current (abs_store (view r)) s = Some t"
    using rts.refresh_owner[OF ok us(1)] by blast
  have s: "sid' = sid" using sid us(2) o(2) by (simp add: UUID_str)
  have fresh1: "fresh_pair (view r1) jti tok" using rts.look_up_fresh[OF ok fresh, of t] look by simp
  have o1: "owner (abs_store (view r1)) (str_uuid sid) = Some (str_uuid uid)"
    "current (abs_store (view r1)) (str_uuid sid) = Some t"
    using o l(3) r1 s by (simp_all add: a_take_def del: abs_store_simps)
  obtain r' where r': "rotate_session U exec now_iso sid t jti tok access_ttl refresh_ttl r1 = (Inr (), r')"
      "store_ok (ms refresh_ttl) {} (view r')"
      "abs_store (view r') = a_rotate (str_uuid sid) (str_uuid uid) jti tok (abs_store (view r1))"
    using rts.rotate[OF l(2)[unfolded r1] o1 fresh1 now] by blast
  have "abs_store (view r') = a_rotate (str_uuid sid) (str_uuid uid) jti tok (abs_store (view r))"
    using r'(3) l(3)[unfolded r1] a_rotate_taken[of "abs_store (view r)" t] us(1) o(1,2) s by simp
  then show thesis using that[OF _ _ r'(1,2)] us o s by simp
qed

lemma reach_ok: "store_reach exec view elapse U access_ttl refresh_ttl r \<Longrightarrow> store_ok (ms refresh_ttl) {} (view r)"
proof (induction rule: store_reach.induct)
  case (reach_start r)
  then show ?case
    by (simp add: store_ok_def store_inv_empty distinct_tokens_def index_sound_def proj_defs)
next
  case (reach_create r sid jti tok now_iso uid dev res r')
  show ?case
  proof (cases "pred_option py_text dev")
    case True
    then show ?thesis
      using rts.create[OF reach_create.IH reach_create.hyps(2,3,4), where dev = dev and uid = uid]
        reach_create.hyps(5) by auto
  next
    case False
    then have "\<not> list_all sendable (create_cmds now_iso sid uid jti tok dev access_ttl refresh_ttl)"
      by (cases dev) (simp_all add: create_cmds_def sendable_def)
    then show ?thesis
      using reach_create.hyps(5) reach_create.IH by (simp add: create_session_def redis_pipeline_def bnd_def)
  qed
next
  case (reach_take r t found r')
  show ?case
  proof (cases "py_text t")
    case True
    then show ?thesis using rts.look_up[OF reach_take.IH, of t] reach_take.hyps(2) by auto
  next
    case False
    then show ?thesis
      using reach_take.hyps(2) reach_take.IH
      by (simp add: get_session_by_refresh_token_def redis_call_def sendable_def bnd_def)
  qed
next
  case (reach_rotate r t ref r1 sid jti tok now_iso res r')
  then show ?case using refresh_run[OF reach_rotate.IH reach_rotate.hyps(2-5)] by (metis prod.inject)
next
  case (reach_revoke r sid res r')
  then show ?case using rts.revoke[OF reach_revoke.IH, of sid] by auto
next
  case (reach_revoke_all r uid res r')
  then show ?case using rts.revoke_all[OF reach_revoke_all.IH, of uid] by auto
next
  case (reach_wait r d)
  then show ?case by (simp add: view_elapse age_ok)
next
  case (reach_foreign r c rep r')
  then show ?case
    using same_store_ok[OF reach_foreign.IH foreign_same[OF reach_foreign.hyps(2)]] exec_effect[of c r] by simp
next
  case (reach_read r c rep r')
  then show ?case using effect_read[OF reach_read.hyps(2)] exec_effect[of c r] by simp
qed


text \<open>What the two look-ups of the store answer.\<close>

lemma observations:
  assumes "store_ok (ms refresh_ttl) {} (view r)"
  shows "py_text j \<Longrightarrow> fst (is_access_jti_valid exec j r) = Inr (access (abs_store (view r)) j \<noteq> None)"
    and "py_text t \<Longrightarrow> fst (get_session_by_refresh_token exec t r) =
      Inr (map_option (\<lambda>(u, s). \<lparr>ref_user_id = u, ref_session_id = s\<rparr>) (refresh (abs_store (view r)) t))"
  using rts.valid[OF assms, of j] rts.look_up[OF assms, of t] by (metis fst_conv)+

lemma not_text:
  "\<not> py_text j \<Longrightarrow> fst (is_access_jti_valid exec j r) = Inl UnicodeEncodeError"
  "\<not> py_text t \<Longrightarrow> fst (get_session_by_refresh_token exec t r) = Inl UnicodeEncodeError"
  by (simp_all add: is_access_jti_valid_def get_session_by_refresh_token_def redis_call_def sendable_def bnd_def)

text \<open>Nothing of a session outlives the refresh lifetime.\<close>

lemma all_expire:
  assumes ok: "store_ok (ms refresh_ttl) {} V" and d: "ms refresh_ttl \<le> d"
  shows "acc (age d V) j = None" and "rfr (age d V) t = None" and "ses (age d V) s = None"
proof -
  note inv = store_okD(1)[OF ok]
  have gone: "age d V k = None" if "\<And>v e. V k = Some (v, e) \<Longrightarrow> \<exists>m. e = Some m \<and> m \<le> ms refresh_ttl" for k
    using that d by (cases "V k") (fastforce simp: age_def split: option.splits)+
  have ses: "\<exists>m. e = Some m \<and> m \<le> ms refresh_ttl" if "ses V s = Some (v, e)" for s v e
    using store_invD(1)[OF inv that] by (auto simp: session_ok_def)
  have tok: "\<exists>m. e = Some m \<and> m \<le> ms refresh_ttl" if t: "token_ok V f tok v e" for f tok v e
  proof -
    obtain m m' s h where "e = Some m" "m \<le> m'" "ses V s = Some (RHash h, Some m')"
      using t by (auto simp: token_ok_def)
    then show ?thesis using ses[of s "RHash h" "Some m'"] by auto
  qed
  show "acc (age d V) j = None" "rfr (age d V) t = None" "ses (age d V) s = None"
    unfolding acc_def rfr_def ses_def
    by (rule gone, use tok ses store_invD(3,4)[OF inv] in \<open>unfold acc_def rfr_def ses_def, blast\<close>)+
qed

text \<open>What each operation changes in the answers of the store.\<close>

lemma create_observed:
  assumes ok: "store_ok (ms refresh_ttl) {} (view r)"
    and f: "fresh_session (view r) sid" "fresh_pair (view r) jti tok"
      "py_text now_iso" "pred_option py_text dev"
  shows "\<exists>r'. create_session exec now_iso sid uid jti tok dev access_ttl refresh_ttl r = (Inr (), r') \<and>
    fst (is_access_jti_valid exec jti r') = Inr True \<and>
    fst (get_session_by_refresh_token exec tok r') =
      Inr (Some \<lparr>ref_user_id = str_uuid uid, ref_session_id = str_uuid sid\<rparr>) \<and>
    (\<forall>j. j \<noteq> jti \<longrightarrow> fst (is_access_jti_valid exec j r') = fst (is_access_jti_valid exec j r)) \<and>
    (\<forall>t. t \<noteq> tok \<longrightarrow> fst (get_session_by_refresh_token exec t r') = fst (get_session_by_refresh_token exec t r))"
proof -
  obtain r' where r': "create_session exec now_iso sid uid jti tok dev access_ttl refresh_ttl r = (Inr (), r')"
      "store_ok (ms refresh_ttl) {} (view r')"
      "abs_store (view r') = a_create (str_uuid sid) (str_uuid uid) jti tok (abs_store (view r))"
    using rts.create[OF ok f] by blast
  have tx: "py_text jti" "py_text tok" using rts.fresh_text[OF ok f(2)] by simp_all
  have "fst (is_access_jti_valid exec j r') = fst (is_access_jti_valid exec j r)" if "j \<noteq> jti" for j
    by (cases "py_text j") (use that in \<open>simp_all add: observations[OF ok] observations[OF r'(2)] r'(3) a_create_def
        not_text del: abs_store_simps\<close>)
  moreover have "fst (get_session_by_refresh_token exec t r') = fst (get_session_by_refresh_token exec t r)"
    if "t \<noteq> tok" for t
    by (cases "py_text t") (use that in \<open>simp_all add: observations[OF ok] observations[OF r'(2)] r'(3) a_create_def
        not_text del: abs_store_simps\<close>)
  ultimately show ?thesis
    using r' tx by (simp add: observations[OF r'(2)] a_create_def del: abs_store_simps)
qed

lemma revoke_set_observed:
  assumes ok: "store_ok (ms refresh_ttl) {} (view r)" "store_ok (ms refresh_ttl) {} (view r')"
    and abs: "abs_store (view r') = a_revoke Z (abs_store (view r))"
  shows "py_text j \<Longrightarrow> fst (is_access_jti_valid exec j r') = Inr (\<exists>u s. access (abs_store (view r)) j = Some (u, s) \<and> s \<notin> Z)"
    and "fst (get_session_by_refresh_token exec t r') =
       (case fst (get_session_by_refresh_token exec t r) of
          Inr (Some ref) \<Rightarrow> Inr (if ref_session_id ref \<in> Z then None else Some ref) | res \<Rightarrow> res)"
proof -
  show "py_text j \<Longrightarrow> fst (is_access_jti_valid exec j r') = Inr (\<exists>u s. access (abs_store (view r)) j = Some (u, s) \<and> s \<notin> Z)"
    by (cases "access (abs_store (view r)) j")
      (auto simp: observations[OF ok(2)] abs a_revoke_def without_def simp del: abs_store_simps)
  show "fst (get_session_by_refresh_token exec t r') =
       (case fst (get_session_by_refresh_token exec t r) of
          Inr (Some ref) \<Rightarrow> Inr (if ref_session_id ref \<in> Z then None else Some ref) | res \<Rightarrow> res)"
    by (cases "py_text t"; cases "refresh (abs_store (view r)) t")
      (auto simp: observations[OF ok(1)] observations[OF ok(2)] not_text abs a_revoke_def without_def
        simp del: abs_store_simps)
qed

lemma rotate_observed:
  assumes ok: "store_ok (ms refresh_ttl) {} (view r)"
    and look: "get_session_by_refresh_token exec t r = (Inr (Some ref), r1)"
    and sid: "UUID U (ref_session_id ref) = Inr sid" and fresh: "fresh_pair (view r) jti tok"
    and now: "py_text now_iso"
  shows "\<exists>r'. rotate_session U exec now_iso sid t jti tok access_ttl refresh_ttl r1 = (Inr (), r') \<and>
    (\<forall>j. py_text j \<longrightarrow> fst (is_access_jti_valid exec j r') =
       Inr (j = jti \<or> (\<exists>u s. access (abs_store (view r)) j = Some (u, s) \<and> s \<noteq> str_uuid sid))) \<and>
    fst (get_session_by_refresh_token exec tok r') = Inr (Some ref) \<and>
    (\<forall>t'. t' \<noteq> tok \<longrightarrow> fst (get_session_by_refresh_token exec t' r') =
       (case fst (get_session_by_refresh_token exec t' r) of
          Inr (Some ref') \<Rightarrow> Inr (if ref_session_id ref' = str_uuid sid then None else Some ref')
        | res \<Rightarrow> res)) \<and>
    fst (get_session_by_refresh_token exec t r') = Inr (if t = tok then Some ref else None)"
proof -
  obtain uid r' where r': "ref = \<lparr>ref_user_id = str_uuid uid, ref_session_id = str_uuid sid\<rparr>"
    "refresh (abs_store (view r)) t = Some (str_uuid uid, str_uuid sid)"
    "rotate_session U exec now_iso sid t jti tok access_ttl refresh_ttl r1 = (Inr (), r')"
    "store_ok (ms refresh_ttl) {} (view r')"
    "abs_store (view r') = a_rotate (str_uuid sid) (str_uuid uid) jti tok (abs_store (view r))"
    using refresh_run[OF ok look sid fresh now] .
  have tx: "py_text t" "py_text tok"
    using look rts.fresh_text[OF ok fresh] not_text(2)[of t r] by auto
  have "py_text j \<Longrightarrow> fst (is_access_jti_valid exec j r') =
       Inr (j = jti \<or> (\<exists>u s. access (abs_store (view r)) j = Some (u, s) \<and> s \<noteq> str_uuid sid))" for j
    by (cases "access (abs_store (view r)) j")
      (auto simp: observations[OF r'(4)] r'(5) a_rotate_def a_create_def a_revoke_def without_def simp del: abs_store_simps)
  moreover have "t' \<noteq> tok \<Longrightarrow> fst (get_session_by_refresh_token exec t' r') =
       (case fst (get_session_by_refresh_token exec t' r) of
          Inr (Some ref') \<Rightarrow> Inr (if ref_session_id ref' = str_uuid sid then None else Some ref')
        | res \<Rightarrow> res)" for t'
    by (cases "py_text t'"; cases "refresh (abs_store (view r)) t'")
      (auto simp: not_text observations[OF ok] observations[OF r'(4)] r'(5) a_rotate_def a_create_def a_revoke_def without_def
        simp del: abs_store_simps)
  moreover have "fst (get_session_by_refresh_token exec tok r') = Inr (Some ref)"
    using tx by (simp add: observations[OF r'(4)] r'(1,5) a_rotate_def a_create_def del: abs_store_simps)
  moreover have "fst (get_session_by_refresh_token exec t r') = Inr (if t = tok then Some ref else None)"
    using r'(2) tx by (simp add: observations[OF r'(4)] r'(1,5) a_rotate_def a_create_def a_revoke_def without_def
        del: abs_store_simps)
  ultimately show ?thesis using r'(3) by blast
qed

lemma taken_observed:
  assumes ok: "store_ok (ms refresh_ttl) {} (view r)" and tx: "py_text t"
  shows "\<exists>found r'. get_session_by_refresh_token exec t r = (Inr found, r') \<and>
    (\<forall>d. fst (get_session_by_refresh_token exec t (elapse d r')) = Inr None)"
proof -
  obtain found r' where r': "get_session_by_refresh_token exec t r = (Inr found, r')"
      "store_ok (ms refresh_ttl) {} (view r')" "abs_store (view r') = a_take t (abs_store (view r))"
    using rts.look_up[OF ok tx] by blast
  have "fst (get_session_by_refresh_token exec t (elapse d r')) = Inr None" for d
  proof -
    have "refresh (abs_store (view r')) t = None" by (simp add: r'(3) a_take_def del: abs_store_simps)
    then have "refresh (abs_store (age d (view r'))) t = None"
      using age_abs(2)[of d "view r'" t] by (metis option.exhaust)
    then show ?thesis
      using observations(2)[of "elapse d r'" t] age_ok[OF r'(2), of d] tx by (simp add: view_elapse del: abs_store_simps)
  qed
  then show ?thesis using r'(1) by blast
qed

lemma revoke_observed:
  assumes ok: "store_ok (ms refresh_ttl) {} (view r)"
  shows "\<exists>r'. revoke_session exec sid r = (Inr (), r') \<and> view r' (session_key (str_uuid sid)) = None \<and>
    (\<forall>j. py_text j \<longrightarrow> fst (is_access_jti_valid exec j r') =
       Inr (\<exists>u s. access (abs_store (view r)) j = Some (u, s) \<and> s \<noteq> str_uuid sid)) \<and>
    (\<forall>t. fst (get_session_by_refresh_token exec t r') =
       (case fst (get_session_by_refresh_token exec t r) of
          Inr (Some ref) \<Rightarrow> Inr (if ref_session_id ref = str_uuid sid then None else Some ref)
        | res \<Rightarrow> res))"
proof (rule revoke_session_run[OF ok, of sid])
  fix r' assume r': "revoke_session exec sid r = (Inr (), r')" "store_ok (ms refresh_ttl) ({} - {str_uuid sid}) (view r')"
    "revoked {str_uuid sid} (view r) (view r')"
  have "view r' (session_key (str_uuid sid)) = None" using r'(3) by (simp add: revoked_def ses_def)
  then show ?thesis
    using r' revoke_set_observed[OF ok _ abs_revoked[OF store_okD(1)[OF ok] r'(3)]]
    by (simp split: sum.splits option.splits)
qed

text \<open>A state that has lost the sessions of a user, and nothing else.\<close>

lemma revoked_all_observed:
  assumes ok: "store_ok (ms refresh_ttl) {} (view r)" "store_ok (ms refresh_ttl) {} (view r')"
    and abs: "abs_store (view r') = a_revoke_all (str_uuid uid) (abs_store (view r))"
  shows "py_text j \<Longrightarrow> fst (is_access_jti_valid exec j r') =
       Inr (\<exists>u s. access (abs_store (view r)) j = Some (u, s) \<and> u \<noteq> str_uuid uid)"
    and "fst (get_session_by_refresh_token exec t r') =
       (case fst (get_session_by_refresh_token exec t r) of
          Inr (Some ref) \<Rightarrow> Inr (if ref_user_id ref = str_uuid uid then None else Some ref)
        | res \<Rightarrow> res)"
    and "owner (abs_store (view r')) s =
       (if owner (abs_store (view r)) s = Some (str_uuid uid) then None else owner (abs_store (view r)) s)"
proof -
  note o = revoke_set_observed[OF ok abs[unfolded a_revoke_all_def]]
  have "(case fst (get_session_by_refresh_token exec t r) of
      Inr (Some ref) \<Rightarrow> Inr (if ref_session_id ref \<in> {s. owner (abs_store (view r)) s = Some (str_uuid uid)} then None else Some ref)
        | res \<Rightarrow> res) =
    (case fst (get_session_by_refresh_token exec t r) of
          Inr (Some ref) \<Rightarrow> Inr (if ref_user_id ref = str_uuid uid then None else Some ref) | res \<Rightarrow> res)"
    using rts.refresh_owner[OF ok(1), of t]
    by (cases "py_text t"; cases "refresh (abs_store (view r)) t")
      (auto simp: observations(2)[OF ok(1)] not_text simp del: abs_store_simps)
  then show "fst (get_session_by_refresh_token exec t r') =
       (case fst (get_session_by_refresh_token exec t r) of
          Inr (Some ref) \<Rightarrow> Inr (if ref_user_id ref = str_uuid uid then None else Some ref)
        | res \<Rightarrow> res)" using o(2) by simp
  have "(\<exists>u s. access (abs_store (view r)) j = Some (u, s) \<and> s \<notin> {s. owner (abs_store (view r)) s = Some (str_uuid uid)}) \<longleftrightarrow>
      (\<exists>u s. access (abs_store (view r)) j = Some (u, s) \<and> u \<noteq> str_uuid uid)"
    using rts.access_owner[OF ok(1), of j] by (auto simp del: abs_store_simps)
  then show "py_text j \<Longrightarrow> fst (is_access_jti_valid exec j r') =
       Inr (\<exists>u s. access (abs_store (view r)) j = Some (u, s) \<and> u \<noteq> str_uuid uid)" using o(1) by simp
qed (simp add: abs a_revoke_all_def a_revoke_def del: abs_store_simps)

lemma revoke_all_observed:
  assumes ok: "store_ok (ms refresh_ttl) {} (view r)"
  shows "\<exists>r'. revoke_all_user_sessions U exec uid r = (Inr (), r') \<and>
    (\<forall>j. py_text j \<longrightarrow> fst (is_access_jti_valid exec j r') =
       Inr (\<exists>u s. access (abs_store (view r)) j = Some (u, s) \<and> u \<noteq> str_uuid uid)) \<and>
    (\<forall>t. fst (get_session_by_refresh_token exec t r') =
       (case fst (get_session_by_refresh_token exec t r) of
          Inr (Some ref) \<Rightarrow> Inr (if ref_user_id ref = str_uuid uid then None else Some ref)
        | res \<Rightarrow> res))"
proof -
  obtain r' where r': "revoke_all_user_sessions U exec uid r = (Inr (), r')" "store_ok (ms refresh_ttl) {} (view r')"
      "abs_store (view r') = a_revoke_all (str_uuid uid) (abs_store (view r))"
    using rts.revoke_all[OF ok] by blast
  then show ?thesis using revoked_all_observed(1,2)[OF ok r'(2,3)] by blast
qed

lemma expire_observed:
  assumes "store_ok (ms refresh_ttl) {} (view r)" and "ms refresh_ttl \<le> d" and "py_text j" and "py_text t"
  shows "fst (is_access_jti_valid exec j (elapse d r)) = Inr False \<and>
    fst (get_session_by_refresh_token exec t (elapse d r)) = Inr None \<and>
    view (elapse d r) (session_key s) = None"
  using all_expire[OF assms(1,2)] observations[of "elapse d r"] age_ok[OF assms(1), of d] assms(3,4)
  by (simp add: view_elapse flip: ses_def)

end

section \<open>Properties of the store\<close>

text \<open>A store holding one session, for the examples.\<close>

definition demo_store :: ref_state where
  "demo_store = snd (create_session ref_exec (lit ''2026'') 7 1 (lit ''jti'') (lit ''tok'') None 900 2592000 Map.empty)"

abbreviation demo_reach :: "ref_state \<Rightarrow> bool" where
  "demo_reach \<equiv> store_reach ref_exec ref_view ref_elapse latin_unicode 900 2592000"

lemma empty_fresh [simp]: "fresh_session Map.empty sid" "fresh_token Map.empty f tok"
  by (simp_all add: fresh_session_def fresh_token_def proj_defs members_def)

lemma ref_view_empty [simp]: "ref_view Map.empty = Map.empty"
  by (simp add: ref_view_def fun_eq_iff)

lemma token_text_lit [simp]: "token_text (lit (c # s))"
  using py_text_lit[of "c # s"] by (simp add: token_text_def lit_def)

lemma demo_start: "demo_reach Map.empty"
  by (rule reach_start) simp

lemma demo_created:
  "create_session ref_exec (lit ''2026'') 7 1 (lit ''jti'') (lit ''tok'') None 900 2592000 Map.empty = (Inr (), demo_store)"
  "demo_reach demo_store"
  "abs_store (ref_view demo_store) =
     a_create (str_uuid 7) (str_uuid 1) (lit ''jti'') (lit ''tok'') (abs_store Map.empty)"
proof -
  have "store_ok (ms 2592000) {} (ref_view Map.empty)" using refs.reach_ok[OF demo_start] .
  then obtain r' where
    "create_session ref_exec (lit ''2026'') 7 1 (lit ''jti'') (lit ''tok'') None 900 2592000 Map.empty = (Inr (), r')"
    "abs_store (ref_view r') =
       a_create (str_uuid 7) (str_uuid 1) (lit ''jti'') (lit ''tok'') (abs_store (ref_view Map.empty))"
    using refs.rts.create[where r = Map.empty and sid = 7 and jti = "lit ''jti''" and tok = "lit ''tok''" and
        now = "lit ''2026''" and dev = None and uid = 1]
    by (auto simp: fresh_pair_def)
  then show "create_session ref_exec (lit ''2026'') 7 1 (lit ''jti'') (lit ''tok'') None 900 2592000 Map.empty = (Inr (), demo_store)"
    "abs_store (ref_view demo_store) =
       a_create (str_uuid 7) (str_uuid 1) (lit ''jti'') (lit ''tok'') (abs_store Map.empty)"
    by (simp_all add: demo_store_def)
  then show "demo_reach demo_store"
    by (intro reach_create[OF demo_start, of 7 "lit ''jti''" "lit ''tok''" "lit ''2026''" 1 None])
      (simp_all add: fresh_pair_def)
qed

lemma demo_fresh_pair:
  assumes "token_text j" and "token_text t" and "j \<noteq> lit ''jti''" and "t \<noteq> lit ''tok''"
  shows "fresh_pair (ref_view demo_store) j t"
proof -
  let ?cs = "create_cmds (lit ''2026'') 7 1 (lit ''jti'') (lit ''tok'') None 900 2592000"
  have "list_all sendable ?cs" by (simp add: create_cmds_def sendable_def)
  then have "ref_view demo_store = pipe_effect ?cs (ref_view Map.empty)"
    using ref.pipeline_state[of ?cs Map.empty] demo_created(1)
    by (simp add: create_session_def bnd_def ret_def split: prod.splits sum.splits)
  then have "ses (ref_view demo_store) =
      [str_uuid 7 \<mapsto> (RHash (session_fields (lit ''2026'') 1 (lit ''jti'') (lit ''tok'') None), Some (ms 2592000))]"
    using create_effect(4)[of 900 2592000 Map.empty 7 1] by (simp add: proj_defs fun_eq_iff)
  then show ?thesis using assms by (simp add: fresh_pair_def fresh_token_def)
qed

lemma demo_fresh: "fresh_pair (ref_view demo_store) (lit ''jti2'') (lit ''tok2'')"
  by (rule demo_fresh_pair) simp_all

text \<open>
  Claim C16. In every reachable state a live access token id names a live session of a user,
  of which it is the current one; the session is listed in the user's index, so that
  revoking all the user's sessions reaches it; and the token expires no later than the
  session, the session no later than the index, and none of it later than the refresh
  lifetime from now.
\<close>

theorem allowlist_invariant:
  assumes "redis_sessions exec view elapse access_ttl refresh_ttl"
    and "store_reach exec view elapse U access_ttl refresh_ttl r"
    and "view r (access_key jti) = Some (v, e)"
  shows "\<exists>uid sid h m ms S mu. v = RStr (payload (str_uuid uid) (str_uuid sid)) \<and> e = Some m \<and>
    view r (session_key (str_uuid sid)) = Some (RHash h, Some ms) \<and>
    h (lit ''user_id'') = Some (str_uuid uid) \<and> h (lit ''current_jti'') = Some jti \<and>
    view r (user_sessions_key (str_uuid uid)) = Some (RSet S, Some mu) \<and> str_uuid sid \<in> S \<and>
    m \<le> ms \<and> ms \<le> mu \<and> ms \<le> 1000 * nat refresh_ttl"
proof -
  note inv = store_okD(1)[OF redis_sessions.reach_ok[OF assms(1,2)]]
  obtain uid sid m h m' where t: "v = RStr (payload (str_uuid uid) (str_uuid sid))" "e = Some m"
      "ses (view r) (str_uuid sid) = Some (RHash h, Some m')" "m \<le> m'"
      "h (lit ''user_id'') = Some (str_uuid uid)" "h (lit ''current_jti'') = Some jti"
    using store_invD(3)[OF inv, of jti v e] assms(3) by (auto simp: token_ok_def acc_def)
  moreover obtain S mu where "usr (view r) (str_uuid uid) = Some (RSet S, Some mu)" "str_uuid sid \<in> S"
      "m' \<le> mu" "m' \<le> 1000 * nat refresh_ttl"
    using store_invD(1)[OF inv t(3)] t(5) by (auto simp: session_ok_def ms_def)
  ultimately show ?thesis
    by (intro exI[of _ uid] exI[of _ sid] exI[of _ h] exI[of _ m] exI[of _ m'] exI[of _ S] exI[of _ mu])
      (simp add: ses_def usr_def)
qed

theorem allowlist_invariant_witness:
  "redis_sessions ref_exec ref_view ref_elapse 900 2592000 \<and> demo_reach demo_store \<and>
   (\<exists>v e uid sid h m ms S mu. ref_view demo_store (access_key (lit ''jti'')) = Some (v, e) \<and>
      v = RStr (payload (str_uuid uid) (str_uuid sid)) \<and> e = Some m \<and>
      ref_view demo_store (session_key (str_uuid sid)) = Some (RHash h, Some ms) \<and>
      ref_view demo_store (user_sessions_key (str_uuid uid)) = Some (RSet S, Some mu) \<and> str_uuid sid \<in> S \<and>
      m \<le> ms \<and> ms \<le> mu)"
proof -
  have "decode_payload (acc (ref_view demo_store) (lit ''jti'')) \<noteq> None"
    using arg_cong[OF demo_created(3), of "\<lambda>A. access A (lit ''jti'')"] by (simp add: a_create_def)
  then obtain v e where v: "ref_view demo_store (access_key (lit ''jti'')) = Some (v, e)"
    by (cases "acc (ref_view demo_store) (lit ''jti'')") (auto simp: acc_def simp del: ref_view_None)
  show ?thesis
    using allowlist_invariant[where exec = ref_exec and view = ref_view, OF refs.redis_sessions_axioms demo_created(2) v] v
      refs.redis_sessions_axioms demo_created(2) by blast
qed

text \<open>
  From every reachable state, creating a session under a new id with new tokens
  succeeds; at once the access token id is on the allowlist and the refresh token finds
  the session and its user, and what every other token answers is unchanged.
\<close>

theorem created_session_works:
  assumes "redis_sessions exec view elapse access_ttl refresh_ttl"
    and "store_reach exec view elapse U access_ttl refresh_ttl r"
    and "fresh_session (view r) sid" and "fresh_pair (view r) jti tok"
    and "py_text now_iso" and "pred_option py_text dev"
  shows "\<exists>r'. create_session exec now_iso sid uid jti tok dev access_ttl refresh_ttl r = (Inr (), r') \<and>
    fst (is_access_jti_valid exec jti r') = Inr True \<and>
    fst (get_session_by_refresh_token exec tok r') =
      Inr (Some \<lparr>ref_user_id = str_uuid uid, ref_session_id = str_uuid sid\<rparr>) \<and>
    (\<forall>j. j \<noteq> jti \<longrightarrow> fst (is_access_jti_valid exec j r') = fst (is_access_jti_valid exec j r)) \<and>
    (\<forall>t. t \<noteq> tok \<longrightarrow> fst (get_session_by_refresh_token exec t r') = fst (get_session_by_refresh_token exec t r))"
  by (rule redis_sessions.create_observed[OF assms(1) redis_sessions.reach_ok[OF assms(1,2)] assms(3-6)])

theorem created_session_works_witness:
  "demo_reach Map.empty \<and> fresh_session (ref_view Map.empty) 7 \<and>
   fresh_pair (ref_view Map.empty) (lit ''jti'') (lit ''tok'') \<and>
   fst (is_access_jti_valid ref_exec (lit ''jti'') demo_store) = Inr True \<and>
   fst (is_access_jti_valid ref_exec (lit ''other'') demo_store) = Inr False \<and>
   fst (get_session_by_refresh_token ref_exec (lit ''tok'') demo_store) =
     Inr (Some \<lparr>ref_user_id = str_uuid 1, ref_session_id = str_uuid 7\<rparr>)"
proof -
  have f: "fresh_session (ref_view Map.empty) 7" "fresh_pair (ref_view Map.empty) (lit ''jti'') (lit ''tok'')"
    by (simp_all add: fresh_pair_def)
  have "fst (is_access_jti_valid ref_exec (lit ''other'') Map.empty) = Inr False"
    by (simp add: is_access_jti_valid_def redis_call_def ret_def bnd_def sendable_def)
  then show ?thesis
    using created_session_works[where exec = ref_exec and view = ref_view, OF refs.redis_sessions_axioms demo_start f,
        where now_iso = "lit ''2026''" and uid = 1 and dev = None] f demo_start demo_created(1)
    by auto
qed

text \<open>
  Claim C17. A refresh (look the token up, rotate its session) from any reachable state
  leaves the session with exactly one access token and one refresh token, the new ones:
  every earlier access token of the session is off the allowlist, the old refresh token
  finds nothing, and the tokens of all other sessions answer as before.
\<close>

theorem refresh_rotates_tokens:
  assumes "redis_sessions exec view elapse access_ttl refresh_ttl"
    and "store_reach exec view elapse U access_ttl refresh_ttl r"
    and "get_session_by_refresh_token exec t r = (Inr (Some ref), r1)"
    and "UUID U (ref_session_id ref) = Inr sid" and "fresh_pair (view r) jti tok" and "py_text now_iso"
  shows "\<exists>r'. rotate_session U exec now_iso sid t jti tok access_ttl refresh_ttl r1 = (Inr (), r') \<and>
    (\<forall>j. py_text j \<longrightarrow> fst (is_access_jti_valid exec j r') =
       Inr (j = jti \<or> (\<exists>u s. access (abs_store (view r)) j = Some (u, s) \<and> s \<noteq> str_uuid sid))) \<and>
    fst (get_session_by_refresh_token exec tok r') = Inr (Some ref) \<and>
    (\<forall>t'. t' \<noteq> tok \<longrightarrow> fst (get_session_by_refresh_token exec t' r') =
       (case fst (get_session_by_refresh_token exec t' r) of
          Inr (Some ref') \<Rightarrow> Inr (if ref_session_id ref' = str_uuid sid then None else Some ref')
        | res \<Rightarrow> res)) \<and>
    fst (get_session_by_refresh_token exec t r') = Inr (if t = tok then Some ref else None)"
  by (rule redis_sessions.rotate_observed[OF assms(1) redis_sessions.reach_ok[OF assms(1,2)] assms(3-6)])

theorem refresh_rotates_tokens_witness:
  "\<exists>r1 r'. get_session_by_refresh_token ref_exec (lit ''tok'') demo_store =
      (Inr (Some \<lparr>ref_user_id = str_uuid 1, ref_session_id = str_uuid 7\<rparr>), r1) \<and>
    rotate_session latin_unicode ref_exec (lit ''2027'') 7 (lit ''tok'') (lit ''jti2'') (lit ''tok2'') 900 2592000 r1 = (Inr (), r') \<and>
    fst (is_access_jti_valid ref_exec (lit ''jti2'') r') = Inr True \<and>
    fst (is_access_jti_valid ref_exec (lit ''jti'') r') = Inr False \<and>
    fst (get_session_by_refresh_token ref_exec (lit ''tok'') r') = Inr None"
proof -
  have abs: "access (abs_store (ref_view demo_store)) (lit ''jti'') = Some (str_uuid 1, str_uuid 7)"
    by (simp add: demo_created(3) a_create_def del: abs_store_simps)
  obtain r1 where r1: "get_session_by_refresh_token ref_exec (lit ''tok'') demo_store =
      (Inr (Some \<lparr>ref_user_id = str_uuid 1, ref_session_id = str_uuid 7\<rparr>), r1)"
    using refs.observations(2)[OF refs.reach_ok[OF demo_created(2)], of "lit ''tok''"]
    by (cases "get_session_by_refresh_token ref_exec (lit ''tok'') demo_store")
      (simp add: demo_created(3) a_create_def del: abs_store_simps)
  show ?thesis
    using refresh_rotates_tokens[where exec = ref_exec and view = ref_view, OF refs.redis_sessions_axioms demo_created(2) r1, of 7 "lit ''jti2''" "lit ''tok2''" "lit ''2027''"]
      r1 abs demo_fresh by (auto simp: UUID_str simp del: abs_store_simps)
qed

text \<open>
  A refresh token is read at most once: after a look-up that answered, whatever
  it answered, looking the same token up again finds nothing, at once or after any wait.
\<close>

theorem refresh_token_single_use:
  assumes "redis_sessions exec view elapse access_ttl refresh_ttl"
    and "store_reach exec view elapse U access_ttl refresh_ttl r" and "py_text t"
  shows "\<exists>found r'. get_session_by_refresh_token exec t r = (Inr found, r') \<and>
    (\<forall>d. fst (get_session_by_refresh_token exec t (elapse d r')) = Inr None)"
  by (rule redis_sessions.taken_observed[OF assms(1) redis_sessions.reach_ok[OF assms(1,2)] assms(3)])

theorem refresh_token_single_use_witness:
  "\<exists>r'. get_session_by_refresh_token ref_exec (lit ''tok'') demo_store =
      (Inr (Some \<lparr>ref_user_id = str_uuid 1, ref_session_id = str_uuid 7\<rparr>), r') \<and>
    fst (get_session_by_refresh_token ref_exec (lit ''tok'') (ref_elapse 5 r')) = Inr None"
proof -
  have "fst (get_session_by_refresh_token ref_exec (lit ''tok'') demo_store) =
      Inr (Some \<lparr>ref_user_id = str_uuid 1, ref_session_id = str_uuid 7\<rparr>)"
    using refs.observations(2)[OF refs.reach_ok[OF demo_created(2)], of "lit ''tok''"]
    by (simp add: demo_created(3) a_create_def del: abs_store_simps)
  then show ?thesis
    using refresh_token_single_use[where exec = ref_exec and view = ref_view, OF refs.redis_sessions_axioms demo_created(2), of "lit ''tok''"] by auto
qed

text \<open>
  Revoking a session ends exactly that session: its hash is gone and every one of
  its tokens is refused, while every token of another session answers as before. Revoking
  a session that does not exist succeeds and changes no answer.
\<close>

theorem revoke_session_exact:
  assumes "redis_sessions exec view elapse access_ttl refresh_ttl"
    and "store_reach exec view elapse U access_ttl refresh_ttl r"
  shows "\<exists>r'. revoke_session exec sid r = (Inr (), r') \<and> view r' (session_key (str_uuid sid)) = None \<and>
    (\<forall>j. py_text j \<longrightarrow> fst (is_access_jti_valid exec j r') =
       Inr (\<exists>u s. access (abs_store (view r)) j = Some (u, s) \<and> s \<noteq> str_uuid sid)) \<and>
    (\<forall>t. fst (get_session_by_refresh_token exec t r') =
       (case fst (get_session_by_refresh_token exec t r) of
          Inr (Some ref) \<Rightarrow> Inr (if ref_session_id ref = str_uuid sid then None else Some ref)
        | res \<Rightarrow> res))"
  by (rule redis_sessions.revoke_observed[OF assms(1) redis_sessions.reach_ok[OF assms]])

theorem revoke_session_exact_witness:
  "\<exists>r'. revoke_session ref_exec 7 demo_store = (Inr (), r') \<and>
    fst (is_access_jti_valid ref_exec (lit ''jti'') r') = Inr False \<and>
    (\<exists>r''. revoke_session ref_exec 8 demo_store = (Inr (), r'') \<and>
      fst (is_access_jti_valid ref_exec (lit ''jti'') r'') = Inr True)"
proof -
  have abs: "access (abs_store (ref_view demo_store)) (lit ''jti'') = Some (str_uuid 1, str_uuid 7)"
    by (simp add: demo_created(3) a_create_def del: abs_store_simps)
  show ?thesis
    using revoke_session_exact[where exec = ref_exec and view = ref_view, OF refs.redis_sessions_axioms demo_created(2), of 7]
      revoke_session_exact[where exec = ref_exec and view = ref_view, OF refs.redis_sessions_axioms demo_created(2), of 8] abs
    by (auto simp del: abs_store_simps)
qed

text \<open>
  Claim C18. Revoking all sessions of a user ends every session of that user and no other:
  afterwards a token is accepted exactly when it was accepted before and stands for
  another user.
\<close>

theorem revoke_all_exact:
  assumes "redis_sessions exec view elapse access_ttl refresh_ttl"
    and "store_reach exec view elapse U access_ttl refresh_ttl r"
  shows "\<exists>r'. revoke_all_user_sessions U exec uid r = (Inr (), r') \<and>
    (\<forall>j. py_text j \<longrightarrow> fst (is_access_jti_valid exec j r') =
       Inr (\<exists>u s. access (abs_store (view r)) j = Some (u, s) \<and> u \<noteq> str_uuid uid)) \<and>
    (\<forall>t. fst (get_session_by_refresh_token exec t r') =
       (case fst (get_session_by_refresh_token exec t r) of
          Inr (Some ref) \<Rightarrow> Inr (if ref_user_id ref = str_uuid uid then None else Some ref)
        | res \<Rightarrow> res))"
  by (rule redis_sessions.revoke_all_observed[OF assms(1) redis_sessions.reach_ok[OF assms]])

theorem revoke_all_exact_witness:
  "\<exists>r'. revoke_all_user_sessions latin_unicode ref_exec 1 demo_store = (Inr (), r') \<and>
    fst (is_access_jti_valid ref_exec (lit ''jti'') r') = Inr False \<and>
    (\<exists>r''. revoke_all_user_sessions latin_unicode ref_exec 2 demo_store = (Inr (), r'') \<and>
      fst (is_access_jti_valid ref_exec (lit ''jti'') r'') = Inr True)"
proof -
  have abs: "access (abs_store (ref_view demo_store)) (lit ''jti'') = Some (str_uuid 1, str_uuid 7)"
    by (simp add: demo_created(3) a_create_def del: abs_store_simps)
  show ?thesis
    using revoke_all_exact[where exec = ref_exec and view = ref_view, OF refs.redis_sessions_axioms demo_created(2), of 1]
      revoke_all_exact[where exec = ref_exec and view = ref_view, OF refs.redis_sessions_axioms demo_created(2), of 2] abs
    by (auto simp del: abs_store_simps)
qed

text \<open>
  Claim C19. A session that is not refreshed ends: once the refresh lifetime has passed since
  any reachable state, no access or refresh token of that state is accepted.
\<close>

theorem sessions_expire:
  assumes "redis_sessions exec view elapse access_ttl refresh_ttl"
    and "store_reach exec view elapse U access_ttl refresh_ttl r" and "ms refresh_ttl \<le> d"
    and "py_text j" and "py_text t"
  shows "fst (is_access_jti_valid exec j (elapse d r)) = Inr False \<and>
    fst (get_session_by_refresh_token exec t (elapse d r)) = Inr None \<and>
    view (elapse d r) (session_key s) = None"
  by (rule redis_sessions.expire_observed[OF assms(1) redis_sessions.reach_ok[OF assms(1,2)] assms(3-5)])

theorem sessions_expire_witness:
  "fst (is_access_jti_valid ref_exec (lit ''jti'') demo_store) = Inr True \<and>
   fst (is_access_jti_valid ref_exec (lit ''jti'') (ref_elapse 2592000000 demo_store)) = Inr False"
proof -
  have "fst (is_access_jti_valid ref_exec (lit ''jti'') demo_store) = Inr True"
    using refs.observations(1)[OF refs.reach_ok[OF demo_created(2)], of "lit ''jti''"]
    by (simp add: demo_created(3) a_create_def del: abs_store_simps)
  then show ?thesis
    using sessions_expire[where exec = ref_exec and view = ref_view, OF refs.redis_sessions_axioms demo_created(2), of 2592000000 "lit ''jti''" "[]" "[]"]
    by (simp add: ms_def)
qed

end
