(* ===== verification/PyRegex.thy ===== *)
theory PyRegex
  imports PyBase
begin

text \<open>
  The part of the module \<open>re\<close> the service uses: patterns that are sequences of character
  classes, greedy and lazy repetitions of one class, one capture group, word boundaries
  and the end-of-string anchor. \<open>rx_match\<close> is the backtracking matcher: a greedy repetition
  tries the longest run first, a lazy one the shortest, and the capture of the first way
  that succeeds is the result. \<open>rx_match_Many_iff\<close> and \<open>rx_match_Lazy_iff\<close> say what can
  match, without the search order.
\<close>

datatype rx_item =
    One "nat \<Rightarrow> bool"
  | Many "nat \<Rightarrow> bool"
  | Lazy "nat \<Rightarrow> bool"
  | OpenGroup
  | CloseGroup
  | WordB
  | Eol

text \<open>The word boundary \<open>\b\<close> between the character before and the rest.\<close>

definition word_boundary :: "unicode \<Rightarrow> nat option \<Rightarrow> pystr \<Rightarrow> bool" where
  "word_boundary U prev s \<longleftrightarrow>
     (case prev of None \<Rightarrow> False | Some c \<Rightarrow> py_isword U c) \<noteq>
     (case s of [] \<Rightarrow> False | c # _ \<Rightarrow> py_isword U c)"

text \<open>What the group has captured after reading \<open>a\<close>.\<close>

definition cap_of :: "bool \<Rightarrow> pystr \<Rightarrow> pystr \<Rightarrow> pystr" where
  "cap_of ins cap a = (if ins then cap @ a else cap)"

text \<open>
  Arguments: the rest of the pattern, the character before the position, whether the group
  is open, what it has captured, the rest of the string.
\<close>

fun rx_match :: "unicode \<Rightarrow> rx_item list \<Rightarrow> nat option \<Rightarrow> bool \<Rightarrow> pystr \<Rightarrow> pystr \<Rightarrow> pystr option"
where
  "rx_match U [] prev ins cap s = Some cap"
| "rx_match U (One p # is) prev ins cap s =
     (case s of
        [] \<Rightarrow> None
      | c # cs \<Rightarrow> if p c then rx_match U is (Some c) ins (cap_of ins cap [c]) cs else None)"
| "rx_match U (Many p # is) prev ins cap s =
     (case s of
        [] \<Rightarrow> rx_match U is prev ins cap s
      | c # cs \<Rightarrow>
          (case (if p c then rx_match U (Many p # is) (Some c) ins (cap_of ins cap [c]) cs
                 else None) of
             Some r \<Rightarrow> Some r
           | None \<Rightarrow> rx_match U is prev ins cap s))"
| "rx_match U (Lazy p # is) prev ins cap s =
     (case rx_match U is prev ins cap s of
        Some r \<Rightarrow> Some r
      | None \<Rightarrow>
          (case s of
             [] \<Rightarrow> None
           | c # cs \<Rightarrow>
               if p c then rx_match U (Lazy p # is) (Some c) ins (cap_of ins cap [c]) cs
               else None))"
| "rx_match U (OpenGroup # is) prev ins cap s = rx_match U is prev True [] s"
| "rx_match U (CloseGroup # is) prev ins cap s = rx_match U is prev False cap s"
| "rx_match U (WordB # is) prev ins cap s =
     (if word_boundary U prev s then rx_match U is prev ins cap s else None)"
| "rx_match U (Eol # is) prev ins cap s =
     (if s = [] \<or> s = [10] then rx_match U is prev ins cap s else None)"

declare rx_match.simps(3,4) [simp del]

text \<open>\<open>pattern.match(s)\<close> and \<open>pattern.search(s)\<close>, with the group's text as the result.\<close>

definition re_match :: "unicode \<Rightarrow> rx_item list \<Rightarrow> pystr \<Rightarrow> pystr option" where
  "re_match U is s = rx_match U is None False [] s"

fun re_search_from :: "unicode \<Rightarrow> rx_item list \<Rightarrow> nat option \<Rightarrow> pystr \<Rightarrow> pystr option" where
  "re_search_from U is prev s =
     (case rx_match U is prev False [] s of
        Some g \<Rightarrow> Some g
      | None \<Rightarrow> (case s of [] \<Rightarrow> None | c # cs \<Rightarrow> re_search_from U is (Some c) cs))"

declare re_search_from.simps [simp del]

definition re_search :: "unicode \<Rightarrow> rx_item list \<Rightarrow> pystr \<Rightarrow> pystr option" where
  "re_search U is s = re_search_from U is None s"

text \<open>A literal run of characters, and \<open>class+\<close>.\<close>

definition rx_lit :: "pystr \<Rightarrow> rx_item list" where
  "rx_lit s = map (\<lambda>c. One (\<lambda>d. d = c)) s"

definition rx_plus :: "(nat \<Rightarrow> bool) \<Rightarrow> rx_item list" where
  "rx_plus p = [One p, Many p]"

subsection \<open>What can match\<close>

definition prev_of :: "nat option \<Rightarrow> pystr \<Rightarrow> nat option" where
  "prev_of prev a = (if a = [] then prev else Some (last a))"

lemma prev_of_Nil [simp]: "prev_of prev [] = prev"
  by (simp add: prev_of_def)

lemma cap_of_Nil [simp]: "cap_of ins cap [] = cap"
  by (simp add: cap_of_def)

lemma prev_of_Cons: "prev_of prev (c # a) = prev_of (Some c) a"
  by (simp add: prev_of_def)

lemma cap_of_Cons: "cap_of ins cap (c # a) = cap_of ins (cap_of ins cap [c]) a"
  by (simp add: cap_of_def)

text \<open>A run of a class followed by a match of the rest.\<close>

definition run_then :: "unicode \<Rightarrow> (nat \<Rightarrow> bool) \<Rightarrow> rx_item list \<Rightarrow> nat option \<Rightarrow> bool \<Rightarrow> pystr \<Rightarrow> pystr \<Rightarrow> bool"
where
  "run_then U p is prev ins cap s \<longleftrightarrow>
     (\<exists>a b. s = a @ b \<and> (\<forall>c\<in>set a. p c) \<and>
        rx_match U is (prev_of prev a) ins (cap_of ins cap a) b \<noteq> None)"

lemma run_then_Nil: "run_then U p is prev ins cap [] \<longleftrightarrow> rx_match U is prev ins cap [] \<noteq> None"
  by (simp add: run_then_def)

lemma run_then_Cons:
  "run_then U p is prev ins cap (c # cs) \<longleftrightarrow>
     rx_match U is prev ins cap (c # cs) \<noteq> None \<or>
     (p c \<and> run_then U p is (Some c) ins (cap_of ins cap [c]) cs)"
proof
  assume "run_then U p is prev ins cap (c # cs)"
  then obtain a b where ab: "c # cs = a @ b" "\<forall>c\<in>set a. p c"
      "rx_match U is (prev_of prev a) ins (cap_of ins cap a) b \<noteq> None"
    by (auto simp: run_then_def)
  show "rx_match U is prev ins cap (c # cs) \<noteq> None \<or>
     (p c \<and> run_then U p is (Some c) ins (cap_of ins cap [c]) cs)"
  proof (cases a)
    case Nil
    then show ?thesis using ab by simp
  next
    case (Cons d a')
    then show ?thesis using ab unfolding run_then_def
      by (metis append_Cons cap_of_Cons list.inject list.set_intros prev_of_Cons)
  qed
next
  assume "rx_match U is prev ins cap (c # cs) \<noteq> None \<or>
     (p c \<and> run_then U p is (Some c) ins (cap_of ins cap [c]) cs)"
  then show "run_then U p is prev ins cap (c # cs)"
  proof
    assume "rx_match U is prev ins cap (c # cs) \<noteq> None"
    then show ?thesis unfolding run_then_def
      by (intro exI[of _ "[]"] exI[of _ "c # cs"]) simp
  next
    assume r: "p c \<and> run_then U p is (Some c) ins (cap_of ins cap [c]) cs"
    then obtain a b where "cs = a @ b" "\<forall>c\<in>set a. p c"
        "rx_match U is (prev_of (Some c) a) ins (cap_of ins (cap_of ins cap [c]) a) b \<noteq> None"
      unfolding run_then_def by blast
    then show ?thesis unfolding run_then_def using r
      by (intro exI[of _ "c # a"] exI[of _ b]) (simp add: prev_of_Cons cap_of_Cons[of ins cap c a])
  qed
qed

lemma or_else_iff:
  "(case (if b then m else None) of Some r \<Rightarrow> Some r | None \<Rightarrow> n) \<noteq> None \<longleftrightarrow> n \<noteq> None \<or> (b \<and> m \<noteq> None)"
  by (auto split: option.splits)

lemma or_else_iff':
  "(case n of Some r \<Rightarrow> Some r | None \<Rightarrow> (if b then m else None)) \<noteq> None \<longleftrightarrow> n \<noteq> None \<or> (b \<and> m \<noteq> None)"
  by (auto split: option.splits)

lemma rx_match_Many_iff:
  "rx_match U (Many p # is) prev ins cap s \<noteq> None \<longleftrightarrow> run_then U p is prev ins cap s"
proof (induction s arbitrary: prev cap)
  case Nil
  show ?case by (subst rx_match.simps(3)) (simp only: list.case run_then_Nil)
next
  case (Cons c cs)
  show ?case
    by (subst rx_match.simps(3)) (simp only: list.case or_else_iff run_then_Cons Cons)
qed

lemma rx_match_Lazy_iff:
  "rx_match U (Lazy p # is) prev ins cap s \<noteq> None \<longleftrightarrow> run_then U p is prev ins cap s"
proof (induction s arbitrary: prev cap)
  case Nil
  show ?case
    by (subst rx_match.simps(4)) (simp only: list.case run_then_Nil split: option.splits, simp)
next
  case (Cons c cs)
  show ?case
    by (subst rx_match.simps(4)) (simp only: list.case or_else_iff' run_then_Cons Cons)
qed

lemma rx_match_One_iff:
  "rx_match U (One p # is) prev ins cap s \<noteq> None \<longleftrightarrow>
     (\<exists>c cs. s = c # cs \<and> p c \<and> rx_match U is (Some c) ins (cap_of ins cap [c]) cs \<noteq> None)"
  by (cases s) auto

text \<open>Outside a group: \<open>class+\<close>, and one fixed character.\<close>

lemma rx_plus_iff:
  "rx_match U (One p # Many p # is) prev False cap s \<noteq> None \<longleftrightarrow>
     (\<exists>a b. s = a @ b \<and> a \<noteq> [] \<and> (\<forall>c\<in>set a. p c) \<and> rx_match U is (Some (last a)) False cap b \<noteq> None)"
    (is "?m \<longleftrightarrow> ?d")
proof
  assume ?m
  then obtain c a b where "s = c # a @ b" "p c" "\<forall>x\<in>set a. p x"
      "rx_match U is (prev_of (Some c) a) False cap b \<noteq> None"
    unfolding rx_match_One_iff rx_match_Many_iff run_then_def by (auto simp: cap_of_def)
  then show ?d by (intro exI[of _ "c # a"] exI[of _ b]) (auto simp: prev_of_def split: if_splits)
next
  assume ?d
  then obtain c a b where "s = c # a @ b" "p c" "\<forall>x\<in>set a. p x"
      "rx_match U is (prev_of (Some c) a) False cap b \<noteq> None"
    by (metis append_Cons last.simps list.exhaust list.set_intros prev_of_def)
  then show ?m
    unfolding rx_match_One_iff rx_match_Many_iff run_then_def by (auto simp: cap_of_def)
qed

lemma rx_char_iff:
  "rx_match U (One (\<lambda>d. d = c) # is) prev False cap s \<noteq> None \<longleftrightarrow>
     (\<exists>b. s = c # b \<and> rx_match U is (Some c) False cap b \<noteq> None)"
  by (cases s) (auto simp: cap_of_def)

end
