(* ===== verification/Domain.thy ===== *)
theory Domain
  imports PyUuid PyRegex
begin

text \<open>
  The domain layer, \<open>auth_service/domain\<close>: the value objects with the checks their
  constructors make, the entities \<open>User\<close> and \<open>PasswordResetToken\<close>, and the audit event
  types. A constructor that may raise is a function into \<open>exn + \<dots>\<close>; a method that
  mutates \<open>self\<close> returns the new object. Points of time are integers, microseconds since
  the epoch in UTC.
\<close>

type_synonym datetime = int

section \<open>Value objects\<close>

subsection \<open>Email\<close>

record Email =
  email_value :: pystr

definition local_char :: "nat \<Rightarrow> bool" where
  "local_char c \<longleftrightarrow>
     ascii_letter c \<or> ascii_digit c \<or> c = 46 \<or> c = 95 \<or> c = 37 \<or> c = 43 \<or> c = 45"

definition domain_char :: "nat \<Rightarrow> bool" where
  "domain_char c \<longleftrightarrow> ascii_letter c \<or> ascii_digit c \<or> c = 46 \<or> c = 45"

definition EMAIL_REGEX :: "rx_item list" where
  "EMAIL_REGEX =
     rx_plus local_char @ rx_lit [64] @ rx_plus domain_char @ rx_lit [46]
       @ [One ascii_letter, One ascii_letter, Many ascii_letter] @ [Eol]"

definition Email_new :: "unicode \<Rightarrow> pystr \<Rightarrow> exn + Email" where
  "Email_new U value =
     (let normalized = py_lower U (py_strip U value)
      in if re_match U EMAIL_REGEX normalized = None
         then Inl (InvalidEmailError (lit ''Invalid email address: '' @ py_repr U value))
         else Inr \<lparr>email_value = normalized\<rparr>)"

definition Email_str :: "Email \<Rightarrow> pystr" where
  "Email_str e = email_value e"

subsection \<open>HashedPassword, ResetToken\<close>

record HashedPassword =
  hashed_value :: pystr

definition HashedPassword_str :: "HashedPassword \<Rightarrow> pystr" where
  "HashedPassword_str h = hashed_value h"

record ResetToken =
  reset_value :: pystr

definition ResetToken_str :: "ResetToken \<Rightarrow> pystr" where
  "ResetToken_str t = reset_value t"

subsection \<open>PlainPassword\<close>

record PlainPassword =
  plain_value :: pystr

definition MIN_LENGTH :: nat where
  "MIN_LENGTH = 8"

definition MAX_BYTES :: nat where
  "MAX_BYTES = 72"

definition PlainPassword_new :: "unicode \<Rightarrow> pystr \<Rightarrow> exn + PlainPassword" where
  "PlainPassword_new U value =
     (if length value < MIN_LENGTH
      then Inl (WeakPasswordError
             (lit ''Password must be at least '' @ str_nat MIN_LENGTH @ lit '' characters long.''))
      else (case py_encode value of
              Inl e \<Rightarrow> Inl e
            | Inr bytes \<Rightarrow>
                if length bytes > MAX_BYTES
                then Inl (WeakPasswordError
                       (lit ''Password must be at most '' @ str_nat MAX_BYTES
                          @ lit '' bytes when UTF-8 encoded.''))
                else if \<not> list_ex (py_isdigit U) value
                then Inl (WeakPasswordError (lit ''Password must contain at least one digit.''))
                else Inr \<lparr>plain_value = value\<rparr>))"

definition PlainPassword_str :: "PlainPassword \<Rightarrow> pystr" where
  "PlainPassword_str p = lit ''***''"

definition PlainPassword_repr :: "PlainPassword \<Rightarrow> pystr" where
  "PlainPassword_repr p = lit ''PlainPassword(***)''"

subsection \<open>AuthEventType\<close>

datatype AuthEventType =
    LOGIN_SUCCESS
  | LOGIN_FAILED
  | LOGOUT
  | SESSION_REVOKED
  | TOKEN_REFRESHED
  | PASSWORD_RESET_REQUESTED
  | PASSWORD_RESET_COMPLETED

fun event_type_value :: "AuthEventType \<Rightarrow> pystr" where
  "event_type_value LOGIN_SUCCESS = lit ''login_success''"
| "event_type_value LOGIN_FAILED = lit ''login_failed''"
| "event_type_value LOGOUT = lit ''logout''"
| "event_type_value SESSION_REVOKED = lit ''session_revoked''"
| "event_type_value TOKEN_REFRESHED = lit ''token_refreshed''"
| "event_type_value PASSWORD_RESET_REQUESTED = lit ''password_reset_requested''"
| "event_type_value PASSWORD_RESET_COMPLETED = lit ''password_reset_completed''"

section \<open>Entities\<close>

record User =
  user_id :: uuid
  user_email :: Email
  hashed_password :: HashedPassword
  is_active :: bool
  created_at :: datetime

definition change_password :: "HashedPassword \<Rightarrow> User \<Rightarrow> User" where
  "change_password new_hash u = u\<lparr>hashed_password := new_hash\<rparr>"

definition deactivate :: "User \<Rightarrow> User" where
  "deactivate u = u\<lparr>is_active := False\<rparr>"

record PasswordResetToken =
  prt_id :: uuid
  prt_user_id :: uuid
  prt_token :: ResetToken
  expires_at :: datetime
  used :: bool

definition consume :: "datetime \<Rightarrow> PasswordResetToken \<Rightarrow> exn + PasswordResetToken" where
  "consume now t =
     (if expires_at t \<le> now then Inl (TokenExpiredError (lit ''Reset token has expired''))
      else if used t then Inl (TokenAlreadyUsedError (lit ''Reset token has already been used''))
      else Inr (t\<lparr>used := True\<rparr>))"

section \<open>What an e-mail address is\<close>

text \<open>The grammar of an accepted address, without the matcher's search.\<close>

definition address :: "pystr \<Rightarrow> bool" where
  "address s \<longleftrightarrow>
     (\<exists>l d t. s = l @ [64] @ d @ [46] @ t \<and> l \<noteq> [] \<and> d \<noteq> [] \<and> 2 \<le> length t \<and>
        (\<forall>c\<in>set l. local_char c) \<and> (\<forall>c\<in>set d. domain_char c) \<and> (\<forall>c\<in>set t. ascii_letter c))"

lemma rx_Eol_iff: "rx_match U [Eol] prev ins cap s \<noteq> None \<longleftrightarrow> s = [] \<or> s = [10]"
  by simp

lemma rx_tld_iff:
  "rx_match U [One ascii_letter, One ascii_letter, Many ascii_letter, Eol] prev False cap s \<noteq> None \<longleftrightarrow>
     (\<exists>t b. s = t @ b \<and> 2 \<le> length t \<and> (\<forall>c\<in>set t. ascii_letter c) \<and> (b = [] \<or> b = [10]))"
    (is "?m \<longleftrightarrow> ?d")
proof
  assume ?m
  then obtain c a b where s: "s = c # a @ b" "ascii_letter c" "a \<noteq> []" "\<forall>x\<in>set a. ascii_letter x"
      "b = [] \<or> b = [10]"
    unfolding rx_match_One_iff[of U ascii_letter "[One ascii_letter, Many ascii_letter, Eol]"]
      rx_plus_iff rx_Eol_iff by blast
  then show ?d by (intro exI[of _ "c # a"] exI[of _ b]) (auto simp: Suc_le_eq)
next
  assume ?d
  then obtain c a b where s: "s = c # a @ b" "ascii_letter c" "a \<noteq> []" "\<forall>x\<in>set a. ascii_letter x"
      "b = [] \<or> b = [10]"
    by (metis One_nat_def append_Cons length_Cons list.exhaust list.set_intros list.size(3)
        not_less_eq_eq numeral_2_eq_2 nat.simps(3) le_0_eq)
  then show ?m
    unfolding rx_match_One_iff[of U ascii_letter "[One ascii_letter, Many ascii_letter, Eol]"]
      rx_plus_iff rx_Eol_iff by (intro exI conjI) (rule refl | assumption)+
qed

lemma EMAIL_REGEX_iff:
  "re_match U EMAIL_REGEX s \<noteq> None \<longleftrightarrow> (\<exists>a. address a \<and> (s = a \<or> s = a @ [10]))"
proof -
  have "re_match U EMAIL_REGEX s \<noteq> None \<longleftrightarrow>
    (\<exists>l r. s = l @ r \<and> l \<noteq> [] \<and> (\<forall>c\<in>set l. local_char c) \<and> (\<exists>r1. r = 64 # r1 \<and>
      (\<exists>d r2. r1 = d @ r2 \<and> d \<noteq> [] \<and> (\<forall>c\<in>set d. domain_char c) \<and> (\<exists>r3. r2 = 46 # r3 \<and>
        (\<exists>t b. r3 = t @ b \<and> 2 \<le> length t \<and> (\<forall>c\<in>set t. ascii_letter c) \<and> (b = [] \<or> b = [10]))))))"
    unfolding re_match_def EMAIL_REGEX_def rx_plus_def rx_lit_def list.map append_Cons append_Nil
      rx_tld_iff rx_char_iff rx_plus_iff ..
  also have "\<dots> \<longleftrightarrow> (\<exists>l d t b. s = l @ [64] @ d @ [46] @ t @ b \<and> l \<noteq> [] \<and> d \<noteq> [] \<and> 2 \<le> length t \<and>
      (\<forall>c\<in>set l. local_char c) \<and> (\<forall>c\<in>set d. domain_char c) \<and> (\<forall>c\<in>set t. ascii_letter c) \<and>
      (b = [] \<or> b = [10]))"
    unfolding append_Cons append_Nil by blast
  also have "\<dots> \<longleftrightarrow> (\<exists>a b. address a \<and> s = a @ b \<and> (b = [] \<or> b = [10]))"
    unfolding address_def append_assoc[symmetric] by blast
  also have "\<dots> \<longleftrightarrow> (\<exists>a. address a \<and> (s = a \<or> s = a @ [10]))" by auto
  finally show ?thesis .
qed

lemma address_char: "address s \<Longrightarrow> c \<in> set s \<Longrightarrow> 33 \<le> c \<and> c < 128"
  unfolding address_def local_char_def domain_char_def ascii_letter_def ascii_digit_def
  by fastforce

lemma address_no_space: "address s \<Longrightarrow> c \<in> set s \<Longrightarrow> \<not> py_isspace U c"
  by (drule (1) address_char) (auto simp: py_isspace_def)

lemma lower_from_nonempty:
  "unicode_ok U \<Longrightarrow> s \<noteq> [] \<Longrightarrow> py_lower_from U p s \<noteq> []"
  by (cases s) (simp_all add: lower_at_nonempty)

lemma lower_from_last:
  assumes "unicode_ok U" and "s \<noteq> []"
  shows "\<exists>pre. last (py_lower_from U p s) \<in> set (lower_at U pre (last s) [])"
  using assms(2)
proof (induction s arbitrary: p)
  case Nil
  then show ?case by simp
next
  case (Cons c s)
  show ?case
  proof (cases "s = []")
    case True
    then show ?thesis using lower_at_nonempty[OF assms(1), of p c "[]"]
      by (auto intro!: exI[of _ p] last_in_set)
  next
    case False
    then show ?thesis
      using Cons.IH[of "p @ [c]"] lower_from_nonempty[OF assms(1) False, of "p @ [c]"] by simp
  qed
qed

text \<open>After stripping, a trailing newline cannot be left for the anchor to skip.\<close>

lemma normalized_no_newline:
  assumes "unicode_ok U"
  shows "py_lower U (py_strip U s) \<noteq> a @ [10]"
proof
  assume eq: "py_lower U (py_strip U s) = a @ [10]"
  then have ne: "py_strip U s \<noteq> []" by (auto simp: py_lower_def)
  obtain pre where "10 \<in> set (lower_at U pre (last (py_strip U s)) [])"
    using lower_from_last[OF assms ne, of "[]"] eq by (auto simp: py_lower_def)
  then have "py_isspace U (last (py_strip U s))"
    using lower_at_not_space[OF assms] by (fastforce simp: py_isspace_def)
  then show False using strip_ends(2)[OF ne] by simp
qed

lemma Email_new_cases:
  assumes "unicode_ok U"
  shows "Email_new U s =
    (if address (py_lower U (py_strip U s)) then Inr \<lparr>email_value = py_lower U (py_strip U s)\<rparr>
     else Inl (InvalidEmailError (lit ''Invalid email address: '' @ py_repr U s)))"
  using EMAIL_REGEX_iff[of U "py_lower U (py_strip U s)"] normalized_no_newline[OF assms]
  by (auto simp: Email_new_def Let_def)

lemma address_normal:
  assumes "address a" and "\<forall>c\<in>set a. \<not> ascii_upper c"
  shows "py_lower U (py_strip U a) = a"
  using assms address_char[OF assms(1)] address_no_space[OF assms(1)]
  by (simp add: strip_no_space lower_fixed)

text \<open>
  Claim C20. \<open>Email(value)\<close> succeeds exactly when the value, stripped and lower-cased, is
  local part, at sign, domain, dot and a top-level domain of two letters or more; the
  stored value is that normal form, and otherwise the constructor raises
  \<open>InvalidEmailError\<close> showing the value as given.
\<close>

theorem Email_accepts_exactly_addresses:
  assumes "unicode_ok U"
  shows "Email_new U s =
    (if address (py_lower U (py_strip U s)) then Inr \<lparr>email_value = py_lower U (py_strip U s)\<rparr>
     else Inl (InvalidEmailError (lit ''Invalid email address: '' @ py_repr U s)))"
  using assms by (rule Email_new_cases)

theorem Email_accepts_exactly_addresses_witness:
  "unicode_ok latin_unicode \<and> \<not> address (lit ''a@b'') \<and>
   Email_new latin_unicode (lit ''A@b '') =
     Inl (InvalidEmailError (lit ''Invalid email address: '' @ [39] @ lit ''A@b '' @ [39]))"
proof -
  have n: "py_lower latin_unicode (py_strip latin_unicode (lit ''A@b '')) = lit ''a@b''"
    by code_simp
  have v: "Email_new latin_unicode (lit ''A@b '') =
      Inl (InvalidEmailError (lit ''Invalid email address: '' @ [39] @ lit ''A@b '' @ [39]))"
    by code_simp
  show ?thesis
    using Email_accepts_exactly_addresses[OF latin_unicode_ok, of "lit ''A@b ''"] v latin_unicode_ok
    by (simp add: n split: if_splits)
qed

lemma Email_new_idem:
  assumes "unicode_ok U" and "Email_new U s = Inr e"
  shows "Email_new U (email_value e) = Inr e"
proof -
  have e: "email_value e = py_lower U (py_strip U s)" and a: "address (email_value e)"
    using assms by (auto simp: Email_new_cases split: if_splits)
  have up: "\<forall>c\<in>set (email_value e). \<not> ascii_upper c"
    using e lower_no_upper[OF assms(1)] by simp
  have "Email_new U (email_value e) = Inr \<lparr>email_value = email_value e\<rparr>"
    using a assms(1) by (simp add: Email_new_cases address_normal[OF a up])
  then show ?thesis by simp
qed

text \<open>Three spellings of one address, and a password, for the examples.\<close>

lemma demo_emails:
  "Email_new latin_unicode (lit ''bob@x.org'') = Inr \<lparr>email_value = lit ''bob@x.org''\<rparr>"
  "Email_new latin_unicode (lit '' Bob@X.Org'') = Inr \<lparr>email_value = lit ''bob@x.org''\<rparr>"
  "Email_new latin_unicode (lit '' Bob@X.Org '') = Inr \<lparr>email_value = lit ''bob@x.org''\<rparr>"
proof -
  have n: "py_lower latin_unicode (py_strip latin_unicode (lit ''bob@x.org'')) = lit ''bob@x.org''"
    "py_lower latin_unicode (py_strip latin_unicode (lit '' Bob@X.Org'')) = lit ''bob@x.org''"
    "py_lower latin_unicode (py_strip latin_unicode (lit '' Bob@X.Org '')) = lit ''bob@x.org''"
    by code_simp+
  have "address (lit ''bob@x.org'')"
    unfolding address_def
    by (intro exI[of _ "lit ''bob''"] exI[of _ "lit ''x''"] exI[of _ "lit ''org''"])
      (simp add: lit_def local_char_def domain_char_def ascii_letter_def)
  then show "Email_new latin_unicode (lit ''bob@x.org'') = Inr \<lparr>email_value = lit ''bob@x.org''\<rparr>"
    "Email_new latin_unicode (lit '' Bob@X.Org'') = Inr \<lparr>email_value = lit ''bob@x.org''\<rparr>"
    "Email_new latin_unicode (lit '' Bob@X.Org '') = Inr \<lparr>email_value = lit ''bob@x.org''\<rparr>"
    by (simp_all add: Email_new_cases[OF latin_unicode_ok] n)
qed

text \<open>
  The value of an \<open>Email\<close> is a fixed point of the constructor: it holds no
  capital letter and no white space, and building an \<open>Email\<close> from it gives the same
  \<open>Email\<close>, which is what reading an account back from the database does.
\<close>

theorem Email_normal_form:
  assumes "unicode_ok U" and "Email_new U s = Inr e"
  shows "Email_new U (email_value e) = Inr e \<and>
    (\<forall>c\<in>set (email_value e). 33 \<le> c \<and> c < 128 \<and> \<not> ascii_upper c)"
proof -
  have e: "email_value e = py_lower U (py_strip U s)" and a: "address (email_value e)"
    using assms by (auto simp: Email_new_cases split: if_splits)
  then show ?thesis
    using Email_new_idem[OF assms] address_char[OF a] lower_no_upper[OF assms(1)] by simp
qed


theorem Email_normal_form_witness:
  "unicode_ok latin_unicode \<and> Email_new latin_unicode (lit '' Bob@X.Org'') = Inr \<lparr>email_value = lit ''bob@x.org''\<rparr> \<and>
   Email_new latin_unicode (lit ''bob@x.org'') = Inr \<lparr>email_value = lit ''bob@x.org''\<rparr>"
  using Email_normal_form[OF latin_unicode_ok demo_emails(2)] demo_emails latin_unicode_ok by simp

section \<open>What a password is\<close>

text \<open>
  Claim C21. \<open>PlainPassword(value)\<close> accepts exactly the strings of at least eight code
  points with a digit whose UTF-8 encoding has at most 72 bytes; a shorter string is
  always reported as too short, whatever else is wrong with it.
\<close>

theorem PlainPassword_accepts_exactly:
  "(PlainPassword_new U s = Inr p \<longleftrightarrow> p = \<lparr>plain_value = s\<rparr> \<and>
      8 \<le> length s \<and> (\<exists>b. py_encode s = Inr b \<and> length b \<le> 72) \<and> (\<exists>c\<in>set s. py_isdigit U c)) \<and>
   (length s < 8 \<longleftrightarrow> PlainPassword_new U s =
      Inl (WeakPasswordError (lit ''Password must be at least 8 characters long.'')))"
proof -
  have n: "str_nat 8 = lit ''8''" "str_nat 72 = lit ''72''" by code_simp+
  have e: "e = UnicodeEncodeError" if "py_encode s = Inl e" for e
    using that by (auto simp: py_encode_def split: if_splits)
  show ?thesis
    using e
    by (auto simp: PlainPassword_new_def MIN_LENGTH_def MAX_BYTES_def n lit_append[symmetric]
        list_ex_iff split: if_splits sum.splits)
qed

text \<open>
  Claim C22. No two accepted passwords look the same to bcrypt: the encodings of different
  passwords differ within the first 72 bytes, which is all bcrypt reads.
\<close>

theorem PlainPassword_no_truncation:
  assumes "PlainPassword_new U s = Inr p" and "PlainPassword_new U t = Inr q"
    and "\<forall>c\<in>set s. c < 0x110000" and "\<forall>c\<in>set t. c < 0x110000"
    and "py_encode s = Inr b" and "py_encode t = Inr b'" and "s \<noteq> t"
  shows "take 72 b \<noteq> take 72 b'"
proof -
  have "length b \<le> 72" "length b' \<le> 72"
    using assms by (auto simp: PlainPassword_new_def MAX_BYTES_def split: if_splits)
  moreover have "b \<noteq> b'" using encode_inj assms by blast
  ultimately show ?thesis by simp
qed

lemma demo_passwords:
  "PlainPassword_new latin_unicode (lit ''secret-42'') = Inr \<lparr>plain_value = lit ''secret-42''\<rparr>"
  "PlainPassword_new latin_unicode (lit ''secret-43'') = Inr \<lparr>plain_value = lit ''secret-43''\<rparr>"
proof -
  have b: "py_encode (lit ''secret-42'') = Inr (lit ''secret-42'')"
    "py_encode (lit ''secret-43'') = Inr (lit ''secret-43'')"
    by (rule encode_ascii, simp add: lit_def)+
  show "PlainPassword_new latin_unicode (lit ''secret-42'') = Inr \<lparr>plain_value = lit ''secret-42''\<rparr>"
    "PlainPassword_new latin_unicode (lit ''secret-43'') = Inr \<lparr>plain_value = lit ''secret-43''\<rparr>"
    by (simp_all add: PlainPassword_new_def MIN_LENGTH_def MAX_BYTES_def b)
      (simp_all add: lit_def py_isdigit_def)
qed

theorem PlainPassword_no_truncation_witness:
  "PlainPassword_new latin_unicode (lit ''secret-42'') = Inr \<lparr>plain_value = lit ''secret-42''\<rparr> \<and>
   PlainPassword_new latin_unicode (lit ''secret-43'') = Inr \<lparr>plain_value = lit ''secret-43''\<rparr> \<and>
   take 72 (lit ''secret-42'') \<noteq> take 72 (lit ''secret-43'')"
proof -
  have b: "py_encode (lit ''secret-42'') = Inr (lit ''secret-42'')"
    "py_encode (lit ''secret-43'') = Inr (lit ''secret-43'')"
    by (rule encode_ascii, simp add: lit_def)+
  have l: "\<forall>c\<in>set (lit ''secret-42''). c < 0x110000" "\<forall>c\<in>set (lit ''secret-43''). c < 0x110000"
    by (simp_all add: lit_def)
  show ?thesis using PlainPassword_no_truncation[OF demo_passwords l b] demo_passwords by simp
qed

section \<open>Reset tokens are consumed once\<close>

text \<open>
  Claim C23. Consuming a reset token succeeds exactly when it is unused and not yet
  expired; it then sets the flag and nothing else, and no later attempt succeeds, whenever
  it is made. An expired token reports the expiry even when it was used.
\<close>

theorem consume_once:
  "(consume now t = Inr t' \<longleftrightarrow> now < expires_at t \<and> \<not> used t \<and> t' = t\<lparr>used := True\<rparr>) \<and>
   (\<forall>t'' later. consume later (t\<lparr>used := True\<rparr>) \<noteq> Inr t'') \<and>
   (expires_at t \<le> now \<longleftrightarrow> consume now t = Inl (TokenExpiredError (lit ''Reset token has expired'')))"
proof (intro conjI)
  show "consume now t = Inr t' \<longleftrightarrow> now < expires_at t \<and> \<not> used t \<and> t' = t\<lparr>used := True\<rparr>"
    by (cases "expires_at t \<le> now"; cases "used t") (auto simp: consume_def)
  show "\<forall>t'' later. consume later (t\<lparr>used := True\<rparr>) \<noteq> Inr t''"
    by (simp add: consume_def)
  show "expires_at t \<le> now \<longleftrightarrow> consume now t = Inl (TokenExpiredError (lit ''Reset token has expired''))"
    by (simp add: consume_def)
qed

end
