(* ===== verification/Database.thy ===== *)
theory Database
  imports Domain
begin

text \<open>
  The relational side: the rows of \<open>auth_service/infrastructure/db/models.py\<close>, what the
  service asks of a SQLAlchemy session over PostgreSQL, and the three repositories of
  \<open>auth_service/infrastructure/db/repositories\<close>.

  The session is a parameter \<open>sql\<close>, a function from a request and the session's state to a
  reply and the next state. The locale \<open>sql_session\<close> names what the code relies on, as a
  relation \<open>db_ok\<close> between the visible states before and after: reads see the working
  tables of the transaction; a flush checks keys, uniqueness, references and column types;
  a flush that fails rolls the transaction back and leaves the session unusable until its
  end; leaving the transaction block commits when the transaction is usable. The visible
  state has the committed tables, the transaction's working tables and whether it is
  usable.
\<close>

section \<open>Rows\<close>

record UserModel =
  um_id :: uuid
  um_email :: pystr
  um_hashed_password :: pystr
  um_is_active :: bool
  um_created_at :: datetime

record PasswordResetTokenModel =
  tm_id :: uuid
  tm_user_id :: uuid
  tm_token :: pystr
  tm_expires_at :: datetime
  tm_used :: bool

record AuthEventModel =
  em_id :: uuid
  em_user_id :: "uuid option"
  em_event_type :: pystr
  em_session_id :: "uuid option"
  em_ip_address :: "pystr option"
  em_occurred_at :: datetime
  em_metadata :: "(pystr \<times> pystr) list"

record tables =
  users :: "UserModel list"
  reset_tokens :: "PasswordResetTokenModel list"
  auth_events :: "AuthEventModel list"

record db_view =
  committed :: tables
  working :: tables
  active :: bool

section \<open>Requests and documented behaviour\<close>

datatype db_op =
    GetUser uuid
  | SelectUsers pystr
  | InsertUser UserModel
  | UpdateUser UserModel
  | GetToken uuid
  | SelectTokens pystr
  | InsertToken PasswordResetTokenModel
  | UpdateToken uuid pystr datetime bool
  | DeleteTokens uuid
  | InsertEvent AuthEventModel
  | BeginTransaction
  | CommitTransaction
  | RollbackTransaction

datatype db_reply =
    DDone
  | DUsers "UserModel list"
  | DTokens "PasswordResetTokenModel list"
  | DFail pystr

type_synonym 'd sql = "db_op \<Rightarrow> 'd \<Rightarrow> db_reply \<times> 'd"

text \<open>The constraints of each table; \<open>T\<close> is the table without the row itself.\<close>

definition user_fits :: "(pystr \<Rightarrow> bool) \<Rightarrow> UserModel list \<Rightarrow> UserModel \<Rightarrow> bool" where
  "user_fits text_ok T m \<longleftrightarrow>
     list_all (\<lambda>m'. um_id m' \<noteq> um_id m \<and> um_email m' \<noteq> um_email m) T \<and>
     length (um_email m) \<le> 255 \<and> length (um_hashed_password m) \<le> 255 \<and>
     text_ok (um_email m) \<and> text_ok (um_hashed_password m)"

definition token_fits :: "(pystr \<Rightarrow> bool) \<Rightarrow> tables \<Rightarrow> PasswordResetTokenModel list \<Rightarrow> PasswordResetTokenModel \<Rightarrow> bool" where
  "token_fits text_ok db T m \<longleftrightarrow>
     list_all (\<lambda>m'. tm_id m' \<noteq> tm_id m \<and> tm_token m' \<noteq> tm_token m) T \<and>
     list_ex (\<lambda>u. um_id u = tm_user_id m) (users db) \<and>
     length (tm_token m) \<le> 255 \<and> text_ok (tm_token m)"

definition event_fits :: "(pystr \<Rightarrow> bool) \<Rightarrow> (pystr \<Rightarrow> bool) \<Rightarrow> tables \<Rightarrow> AuthEventModel \<Rightarrow> bool" where
  "event_fits text_ok inet_ok db m \<longleftrightarrow>
     list_all (\<lambda>m'. em_id m' \<noteq> em_id m) (auth_events db) \<and>
     (case em_user_id m of None \<Rightarrow> True | Some i \<Rightarrow> list_ex (\<lambda>u. um_id u = i) (users db)) \<and>
     length (em_event_type m) \<le> 50 \<and> text_ok (em_event_type m) \<and>
     (case em_ip_address m of None \<Rightarrow> True | Some a \<Rightarrow> inet_ok a) \<and>
     list_all (\<lambda>(k, v). text_ok k \<and> text_ok v) (em_metadata m)"

definition without_user :: "uuid \<Rightarrow> UserModel list \<Rightarrow> UserModel list" where
  "without_user i T = filter (\<lambda>m. um_id m \<noteq> i) T"

definition without_token :: "uuid \<Rightarrow> PasswordResetTokenModel list \<Rightarrow> PasswordResetTokenModel list" where
  "without_token i T = filter (\<lambda>m. tm_id m \<noteq> i) T"

definition put_user :: "UserModel \<Rightarrow> UserModel list \<Rightarrow> UserModel list" where
  "put_user m T = map (\<lambda>m'. if um_id m' = um_id m then m else m') T"

definition put_token :: "uuid \<Rightarrow> pystr \<Rightarrow> datetime \<Rightarrow> bool \<Rightarrow> PasswordResetTokenModel list \<Rightarrow> PasswordResetTokenModel list" where
  "put_token i tok ex us T =
     map (\<lambda>m. if tm_id m = i then m\<lparr>tm_token := tok, tm_expires_at := ex, tm_used := us\<rparr> else m) T"

text \<open>A failed flush, and a read that may have failed on the server.\<close>

definition dead :: "db_view \<Rightarrow> db_view" where
  "dead V = V\<lparr>working := committed V, active := False\<rparr>"

definition failed :: "db_reply \<Rightarrow> bool" where
  "failed rep \<longleftrightarrow> (\<exists>m. rep = DFail m)"

definition flushed :: "bool \<Rightarrow> tables \<Rightarrow> db_view \<Rightarrow> db_reply \<Rightarrow> db_view \<Rightarrow> bool" where
  "flushed fits T V rep V' \<longleftrightarrow>
     (if fits then rep = DDone \<and> V' = V\<lparr>working := T\<rparr> else failed rep \<and> V' = dead V)"

fun db_active :: "(pystr \<Rightarrow> bool) \<Rightarrow> (pystr \<Rightarrow> bool) \<Rightarrow> db_op \<Rightarrow> db_view \<Rightarrow> db_reply \<Rightarrow> db_view \<Rightarrow> bool" where
  "db_active text_ok inet_ok (GetUser i) V rep V' =
     (rep = DUsers (filter (\<lambda>m. um_id m = i) (users (working V))) \<and> V' = V)"
| "db_active text_ok inet_ok (SelectUsers e) V rep V' =
     (if text_ok e then rep = DUsers (filter (\<lambda>m. um_email m = e) (users (working V))) \<and> V' = V
      else failed rep \<and> V' \<in> {V, dead V})"
| "db_active text_ok inet_ok (InsertUser m) V rep V' =
     flushed (user_fits text_ok (users (working V)) m)
       ((working V)\<lparr>users := users (working V) @ [m]\<rparr>) V rep V'"
| "db_active text_ok inet_ok (UpdateUser m) V rep V' =
     flushed (user_fits text_ok (without_user (um_id m) (users (working V))) m)
       ((working V)\<lparr>users := put_user m (users (working V))\<rparr>) V rep V'"
| "db_active text_ok inet_ok (GetToken i) V rep V' =
     (rep = DTokens (filter (\<lambda>m. tm_id m = i) (reset_tokens (working V))) \<and> V' = V)"
| "db_active text_ok inet_ok (SelectTokens t) V rep V' =
     (if text_ok t then rep = DTokens (filter (\<lambda>m. tm_token m = t) (reset_tokens (working V))) \<and> V' = V
      else failed rep \<and> V' \<in> {V, dead V})"
| "db_active text_ok inet_ok (InsertToken m) V rep V' =
     flushed (token_fits text_ok (working V) (reset_tokens (working V)) m)
       ((working V)\<lparr>reset_tokens := reset_tokens (working V) @ [m]\<rparr>) V rep V'"
| "db_active text_ok inet_ok (UpdateToken i tok ex us) V rep V' =
     flushed (list_all (\<lambda>m'. tm_token m' \<noteq> tok) (without_token i (reset_tokens (working V))) \<and>
         length tok \<le> 255 \<and> text_ok tok)
       ((working V)\<lparr>reset_tokens := put_token i tok ex us (reset_tokens (working V))\<rparr>) V rep V'"
| "db_active text_ok inet_ok (DeleteTokens u) V rep V' =
     (rep = DDone \<and>
      V' = V\<lparr>working := (working V)\<lparr>reset_tokens := filter (\<lambda>m. tm_user_id m \<noteq> u) (reset_tokens (working V))\<rparr>\<rparr>)"
| "db_active text_ok inet_ok (InsertEvent m) V rep V' =
     flushed (event_fits text_ok inet_ok (working V) m)
       ((working V)\<lparr>auth_events := auth_events (working V) @ [m]\<rparr>) V rep V'"
| "db_active text_ok inet_ok BeginTransaction V rep V' =
     (rep = DDone \<and> V' = V\<lparr>working := committed V, active := True\<rparr>)"
| "db_active text_ok inet_ok CommitTransaction V rep V' = (rep = DDone \<and> V' = V\<lparr>committed := working V\<rparr>)"
| "db_active text_ok inet_ok RollbackTransaction V rep V' = (rep = DDone \<and> V' = dead V)"

definition db_ok :: "(pystr \<Rightarrow> bool) \<Rightarrow> (pystr \<Rightarrow> bool) \<Rightarrow> db_op \<Rightarrow> db_view \<Rightarrow> db_reply \<Rightarrow> db_view \<Rightarrow> bool" where
  "db_ok text_ok inet_ok op V rep V' \<longleftrightarrow>
     (if active V \<or> op = BeginTransaction then db_active text_ok inet_ok op V rep V'
      else if op = CommitTransaction \<or> op = RollbackTransaction then rep = DDone \<and> V' = dead V
      else failed rep \<and> V' = V)"

locale sql_session =
  fixes sql :: "'d sql" and dview :: "'d \<Rightarrow> db_view" and text_ok inet_ok :: "pystr \<Rightarrow> bool"
  assumes sql_ok: "db_ok text_ok inet_ok op (dview d) (fst (sql op d)) (dview (snd (sql op d)))"
    and text_ascii: "(\<And>c. c \<in> set s \<Longrightarrow> 0 < c \<and> c < 128) \<Longrightarrow> text_ok s"

section \<open>The client\<close>

text \<open>An error of the session is raised.\<close>

definition sql_call :: "'d sql \<Rightarrow> db_op \<Rightarrow> ('d, db_reply) act" where
  "sql_call sql op d = (case sql op d of (DFail m, d') \<Rightarrow> (Inl (ExternalError m), d') | (rep, d') \<Rightarrow> (Inr rep, d'))"

text \<open>\<open>session.get(Model, id)\<close> and \<open>scalar_one_or_none()\<close> on the rows of a reply.\<close>

fun one_or_none :: "'m list \<Rightarrow> exn + 'm option" where
  "one_or_none [] = Inr None"
| "one_or_none [m] = Inr (Some m)"
| "one_or_none _ = Inl MultipleResultsFound"

definition user_row :: "'d sql \<Rightarrow> db_op \<Rightarrow> ('d, UserModel option) act" where
  "user_row sql op =
     bnd (sql_call sql op) (\<lambda>rep. case rep of DUsers ms \<Rightarrow> lift_res (one_or_none ms) | _ \<Rightarrow> raise_exn TypeError)"

definition token_row :: "'d sql \<Rightarrow> db_op \<Rightarrow> ('d, PasswordResetTokenModel option) act" where
  "token_row sql op =
     bnd (sql_call sql op) (\<lambda>rep. case rep of DTokens ms \<Rightarrow> lift_res (one_or_none ms) | _ \<Rightarrow> raise_exn TypeError)"

definition flush :: "'d sql \<Rightarrow> db_op \<Rightarrow> ('d, unit) act" where
  "flush sql op = bnd (sql_call sql op) (\<lambda>_. ret ())"

section \<open>SqlUserRepository\<close>

definition user_to_domain :: "unicode \<Rightarrow> UserModel \<Rightarrow> exn + User" where
  "user_to_domain U m =
     (case Email_new U (um_email m) of
        Inl e \<Rightarrow> Inl e
      | Inr email \<Rightarrow>
          Inr \<lparr>user_id = um_id m, user_email = email, hashed_password = \<lparr>hashed_value = um_hashed_password m\<rparr>,
               is_active = um_is_active m, created_at = um_created_at m\<rparr>)"

definition user_to_model :: "User \<Rightarrow> UserModel" where
  "user_to_model u =
     \<lparr>um_id = user_id u, um_email = email_value (user_email u),
      um_hashed_password = hashed_value (hashed_password u),
      um_is_active = is_active u, um_created_at = created_at u\<rparr>"

definition save_user :: "'d sql \<Rightarrow> User \<Rightarrow> ('d, unit) act" where
  "save_user sql user =
     bnd (user_row sql (GetUser (user_id user))) (\<lambda>existing.
       case existing of
         None \<Rightarrow> flush sql (InsertUser (user_to_model user))
       | Some m \<Rightarrow>
           flush sql (UpdateUser
             (m\<lparr>um_email := email_value (user_email user),
                um_hashed_password := hashed_value (hashed_password user),
                um_is_active := is_active user, um_created_at := created_at user\<rparr>)))"

definition find_by_email :: "unicode \<Rightarrow> 'd sql \<Rightarrow> Email \<Rightarrow> ('d, User option) act" where
  "find_by_email U sql email =
     bnd (user_row sql (SelectUsers (email_value email))) (\<lambda>model.
       case model of
         None \<Rightarrow> ret None
       | Some m \<Rightarrow> bnd (lift_res (user_to_domain U m)) (\<lambda>u. ret (Some u)))"

definition find_by_id :: "unicode \<Rightarrow> 'd sql \<Rightarrow> uuid \<Rightarrow> ('d, User option) act" where
  "find_by_id U sql i =
     bnd (user_row sql (GetUser i)) (\<lambda>model.
       case model of
         None \<Rightarrow> ret None
       | Some m \<Rightarrow> bnd (lift_res (user_to_domain U m)) (\<lambda>u. ret (Some u)))"

section \<open>SqlResetTokenRepository\<close>

definition token_to_domain :: "PasswordResetTokenModel \<Rightarrow> PasswordResetToken" where
  "token_to_domain m =
     \<lparr>prt_id = tm_id m, prt_user_id = tm_user_id m, prt_token = \<lparr>reset_value = tm_token m\<rparr>,
      expires_at = tm_expires_at m, used = tm_used m\<rparr>"

definition token_to_model :: "PasswordResetToken \<Rightarrow> PasswordResetTokenModel" where
  "token_to_model t =
     \<lparr>tm_id = prt_id t, tm_user_id = prt_user_id t, tm_token = reset_value (prt_token t),
      tm_expires_at = expires_at t, tm_used = used t\<rparr>"

definition save_token :: "'d sql \<Rightarrow> PasswordResetToken \<Rightarrow> ('d, unit) act" where
  "save_token sql t =
     bnd (token_row sql (GetToken (prt_id t))) (\<lambda>existing.
       case existing of
         None \<Rightarrow> flush sql (InsertToken (token_to_model t))
       | Some m \<Rightarrow> flush sql (UpdateToken (tm_id m) (reset_value (prt_token t)) (expires_at t) (used t)))"

definition find_by_token :: "'d sql \<Rightarrow> pystr \<Rightarrow> ('d, PasswordResetToken option) act" where
  "find_by_token sql token_str =
     bnd (token_row sql (SelectTokens token_str)) (\<lambda>model. ret (map_option token_to_domain model))"

definition delete_all_by_user_id :: "'d sql \<Rightarrow> uuid \<Rightarrow> ('d, unit) act" where
  "delete_all_by_user_id sql i = flush sql (DeleteTokens i)"

section \<open>AuditLogRepository\<close>

record AuditEventDTO =
  ev_id :: uuid
  ev_type :: AuthEventType
  ev_occurred_at :: datetime
  ev_user_id :: "uuid option"
  ev_session_id :: "uuid option"
  ev_ip_address :: "pystr option"
  ev_metadata :: "(pystr \<times> pystr) list"

definition event_to_model :: "AuditEventDTO \<Rightarrow> AuthEventModel" where
  "event_to_model dto =
     \<lparr>em_id = ev_id dto, em_user_id = ev_user_id dto, em_event_type = event_type_value (ev_type dto),
      em_session_id = ev_session_id dto, em_ip_address = ev_ip_address dto,
      em_occurred_at = ev_occurred_at dto, em_metadata = ev_metadata dto\<rparr>"

definition record_event :: "'d sql \<Rightarrow> AuditEventDTO \<Rightarrow> ('d, unit) act" where
  "record_event sql event = flush sql (InsertEvent (event_to_model event))"

end
