(* ===== verification/Repositories.thy ===== *)
theory Repositories
  imports Database
begin

text \<open>
  The contract of the repositories (\<open>UserRepository\<close>, \<open>ResetTokenRepository\<close>,
  \<open>AuditLogPort\<close>) as a locale over an abstract database, accounts and reset tokens by id
  and the log of events, and the proof that the SQL repositories satisfy it over every
  session that behaves as documented.
\<close>

section \<open>The abstract database\<close>

record db_state =
  accounts :: "uuid \<rightharpoonup> User"
  resets :: "uuid \<rightharpoonup> PasswordResetToken"
  events :: "AuthEventModel list"

definition user_dom :: "UserModel \<Rightarrow> User" where
  "user_dom m =
     \<lparr>user_id = um_id m, user_email = \<lparr>email_value = um_email m\<rparr>,
      hashed_password = \<lparr>hashed_value = um_hashed_password m\<rparr>,
      is_active = um_is_active m, created_at = um_created_at m\<rparr>"

definition db_abs :: "tables \<Rightarrow> db_state" where
  "db_abs T =
     \<lparr>accounts = map_of (map (\<lambda>m. (um_id m, user_dom m)) (users T)),
      resets = map_of (map (\<lambda>m. (tm_id m, token_to_domain m)) (reset_tokens T)),
      events = auth_events T\<rparr>"

text \<open>
  What the constraints and the code together keep true of the tables: keys and unique
  columns, references, and that every stored address fits its column and is in the normal form of \<open>Email\<close>.
\<close>

definition stored_email :: "unicode \<Rightarrow> pystr \<Rightarrow> bool" where
  "stored_email U s \<longleftrightarrow> Email_new U s = Inr \<lparr>email_value = s\<rparr> \<and> length s \<le> 255"

definition tables_ok :: "unicode \<Rightarrow> tables \<Rightarrow> bool" where
  "tables_ok U T \<longleftrightarrow>
     distinct (map um_id (users T)) \<and> distinct (map um_email (users T)) \<and>
     list_all (\<lambda>m. stored_email U (um_email m)) (users T) \<and>
     distinct (map tm_id (reset_tokens T)) \<and> distinct (map tm_token (reset_tokens T)) \<and>
     set (map tm_user_id (reset_tokens T)) \<subseteq> set (map um_id (users T))"

definition user_storable :: "unicode \<Rightarrow> (pystr \<Rightarrow> bool) \<Rightarrow> db_state \<Rightarrow> User \<Rightarrow> bool" where
  "user_storable U text_ok A u \<longleftrightarrow>
     stored_email U (email_value (user_email u)) \<and>
     length (hashed_value (hashed_password u)) \<le> 255 \<and> text_ok (hashed_value (hashed_password u)) \<and>
     (\<forall>i u'. accounts A i = Some u' \<longrightarrow> user_email u' = user_email u \<longrightarrow> i = user_id u)"

definition token_storable :: "(pystr \<Rightarrow> bool) \<Rightarrow> db_state \<Rightarrow> PasswordResetToken \<Rightarrow> bool" where
  "token_storable text_ok A t \<longleftrightarrow>
     accounts A (prt_user_id t) \<noteq> None \<and>
     length (reset_value (prt_token t)) \<le> 255 \<and> text_ok (reset_value (prt_token t)) \<and>
     (\<forall>i t'. resets A i = Some t' \<longrightarrow> prt_token t' = prt_token t \<longrightarrow> i = prt_id t) \<and>
     (\<forall>t'. resets A (prt_id t) = Some t' \<longrightarrow> prt_user_id t' = prt_user_id t)"

definition event_storable :: "(pystr \<Rightarrow> bool) \<Rightarrow> (pystr \<Rightarrow> bool) \<Rightarrow> db_state \<Rightarrow> AuditEventDTO \<Rightarrow> bool" where
  "event_storable text_ok inet_ok A e \<longleftrightarrow>
     (\<forall>m\<in>set (events A). em_id m \<noteq> ev_id e) \<and>
     (\<forall>i. ev_user_id e = Some i \<longrightarrow> accounts A i \<noteq> None) \<and>
     (\<forall>a. ev_ip_address e = Some a \<longrightarrow> inet_ok a) \<and>
     (\<forall>(k, v)\<in>set (ev_metadata e). text_ok k \<and> text_ok v)"

section \<open>The contract\<close>

locale repositories =
  fixes U :: unicode and text_ok inet_ok :: "pystr \<Rightarrow> bool"
    and ok :: "'d \<Rightarrow> bool" and abs :: "'d \<Rightarrow> db_state"
    and find_email :: "Email \<Rightarrow> ('d, User option) act" and find_id :: "uuid \<Rightarrow> ('d, User option) act"
    and save :: "User \<Rightarrow> ('d, unit) act"
    and find_token :: "pystr \<Rightarrow> ('d, PasswordResetToken option) act"
    and save_tok :: "PasswordResetToken \<Rightarrow> ('d, unit) act" and delete_toks :: "uuid \<Rightarrow> ('d, unit) act"
    and log_event :: "AuditEventDTO \<Rightarrow> ('d, unit) act"
  assumes account_id: "ok d \<Longrightarrow> accounts (abs d) i = Some u \<Longrightarrow>
      user_id u = i \<and> stored_email U (email_value (user_email u))"
    and reset_id: "ok d \<Longrightarrow> resets (abs d) i = Some t \<Longrightarrow> prt_id t = i \<and> accounts (abs d) (prt_user_id t) \<noteq> None"
    and find_email: "ok d \<Longrightarrow> unicode_ok U \<Longrightarrow> Email_new U s = Inr e \<Longrightarrow>
      \<exists>x d'. find_email e d = (Inr x, d') \<and> ok d' \<and> abs d' = abs d \<and>
        (\<forall>u. x = Some u \<longleftrightarrow> accounts (abs d) (user_id u) = Some u \<and> user_email u = e)"
    and find_id: "ok d \<Longrightarrow> \<exists>d'. find_id i d = (Inr (accounts (abs d) i), d') \<and> ok d' \<and> abs d' = abs d"
    and save: "ok d \<Longrightarrow> unicode_ok U \<Longrightarrow> user_storable U text_ok (abs d) u \<Longrightarrow>
      \<exists>d'. save u d = (Inr (), d') \<and> ok d' \<and> abs d' = (abs d)\<lparr>accounts := (accounts (abs d))(user_id u \<mapsto> u)\<rparr>"
    and find_token: "ok d \<Longrightarrow> text_ok token_str \<Longrightarrow>
      \<exists>x d'. find_token token_str d = (Inr x, d') \<and> ok d' \<and> abs d' = abs d \<and>
        (\<forall>y. x = Some y \<longleftrightarrow> resets (abs d) (prt_id y) = Some y \<and> reset_value (prt_token y) = token_str)"
    and save_token: "ok d \<Longrightarrow> token_storable text_ok (abs d) t \<Longrightarrow>
      \<exists>d'. save_tok t d = (Inr (), d') \<and> ok d' \<and> abs d' = (abs d)\<lparr>resets := (resets (abs d))(prt_id t \<mapsto> t)\<rparr>"
    and delete_tokens: "ok d \<Longrightarrow>
      \<exists>d'. delete_toks i d = (Inr (), d') \<and> ok d' \<and>
        abs d' = (abs d)\<lparr>resets := (\<lambda>k. case resets (abs d) k of
            Some t \<Rightarrow> if prt_user_id t = i then None else Some t | None \<Rightarrow> None)\<rparr>"
    and log_event: "ok d \<Longrightarrow> event_storable text_ok inet_ok (abs d) ev \<Longrightarrow>
      \<exists>d'. log_event ev d = (Inr (), d') \<and> ok d' \<and> abs d' = (abs d)\<lparr>events := events (abs d) @ [event_to_model ev]\<rparr>"
begin

text \<open>What is saved is found again, by id and by address.\<close>

lemma save_then_find:
  assumes "ok d" and "unicode_ok U" and "user_storable U text_ok (abs d) u"
  shows "\<exists>d'. save u d = (Inr (), d') \<and> fst (find_id (user_id u) d') = Inr (Some u) \<and>
    fst (find_email (user_email u) d') = Inr (Some u)"
proof -
  obtain d' where d': "save u d = (Inr (), d')" "ok d'" "abs d' = (abs d)\<lparr>accounts := (accounts (abs d))(user_id u \<mapsto> u)\<rparr>"
    using save[OF assms] by blast
  have "Email_new U (email_value (user_email u)) = Inr (user_email u)"
    using assms(3) by (simp add: user_storable_def stored_email_def)
  from find_email[OF d'(2) assms(2) this] obtain x d'' where
    "find_email (user_email u) d' = (Inr x, d'')"
    "\<forall>u'. x = Some u' \<longleftrightarrow> accounts (abs d') (user_id u') = Some u' \<and> user_email u' = user_email u" by blast
  moreover have "fst (find_id (user_id u) d') = Inr (Some u)" using find_id[OF d'(2), of "user_id u"] d'(3) by auto
  ultimately show ?thesis using d' by auto
qed

end

section \<open>Tables as maps\<close>

lemma map_of_key: "distinct (map f xs) \<Longrightarrow> m \<in> set xs \<Longrightarrow> map_of (map (\<lambda>m. (f m, g m)) xs) (f m) = Some (g m)"
  by (induction xs) (auto simp: image_iff)

lemma map_of_key_Some: "map_of (map (\<lambda>m. (f m, g m)) xs) k = Some v \<Longrightarrow> \<exists>m\<in>set xs. f m = k \<and> g m = v"
  by (induction xs) (auto split: if_splits)

lemma map_of_key_None: "map_of (map (\<lambda>m. (f m, g m)) xs) k = None \<longleftrightarrow> (\<forall>m\<in>set xs. f m \<noteq> k)"
  by (induction xs) auto

lemma map_of_put_at:
  assumes "\<forall>m\<in>set T. f m = k \<longrightarrow> f (h m) = k \<and> g (h m) = v"
  shows "map_of (map (\<lambda>m. (f m, g m)) (map (\<lambda>m. if f m = k then h m else m) T)) x =
    (if x = k then (if \<exists>m\<in>set T. f m = k then Some v else None) else map_of (map (\<lambda>m. (f m, g m)) T) x)"
  using assms by (induction T) auto

lemma map_of_put:
  assumes "\<exists>m\<in>set T. f m = k" and "\<forall>m\<in>set T. f m = k \<longrightarrow> f (h m) = k \<and> g (h m) = v"
  shows "map_of (map (\<lambda>m. (f m, g m)) (map (\<lambda>m. if f m = k then h m else m) T)) =
    (map_of (map (\<lambda>m. (f m, g m)) T))(k \<mapsto> v)"
  using map_of_put_at[OF assms(2)] assms(1) by (auto simp: fun_eq_iff simp del: map_map)

lemma filter_key: "distinct (map f xs) \<Longrightarrow> m \<in> set xs \<Longrightarrow> filter (\<lambda>m'. f m' = f m) xs = [m]"
  by (induction xs) (auto simp: filter_empty_conv image_iff)

lemma filter_key_none: "(\<forall>m\<in>set xs. f m \<noteq> k) \<Longrightarrow> filter (\<lambda>m. f m = k) xs = []"
  by (simp add: filter_empty_conv)

lemma one_or_none_filter:
  assumes "distinct (map f xs)"
  obtains (none) "one_or_none (filter (\<lambda>m. f m = k) xs) = Inr None" "\<forall>m\<in>set xs. f m \<noteq> k"
    | (some) m where "one_or_none (filter (\<lambda>m. f m = k) xs) = Inr (Some m)" "m \<in> set xs" "f m = k"
proof (cases "\<exists>m\<in>set xs. f m = k")
  case True
  then obtain m where m: "m \<in> set xs" "f m = k" by blast
  then show thesis using some[of m] filter_key[OF assms m(1)] by simp
next
  case False
  then have "\<forall>m\<in>set xs. f m \<noteq> k" by blast
  then show thesis using none filter_key_none[of xs f k] by (simp del: filter_empty_conv)
qed

lemma distinct_map_eq: "distinct (map f xs) \<Longrightarrow> x \<in> set xs \<Longrightarrow> y \<in> set xs \<Longrightarrow> f x = f y \<Longrightarrow> x = y"
  by (auto simp: distinct_map inj_on_def)


section \<open>The SQL repositories satisfy it\<close>

definition dbs_ok :: "unicode \<Rightarrow> db_view \<Rightarrow> bool" where
  "dbs_ok U V \<longleftrightarrow> active V \<and> tables_ok U (working V)"

lemma dbs_okD:
  assumes "dbs_ok U V"
  shows "active V" and "distinct (map um_id (users (working V)))" and "distinct (map um_email (users (working V)))"
    and "m \<in> set (users (working V)) \<Longrightarrow> stored_email U (um_email m)"
    and "distinct (map tm_id (reset_tokens (working V)))" and "distinct (map tm_token (reset_tokens (working V)))"
    and "t \<in> set (reset_tokens (working V)) \<Longrightarrow> \<exists>m\<in>set (users (working V)). um_id m = tm_user_id t"
  using assms by (fastforce simp: dbs_ok_def tables_ok_def list_all_iff)+

lemma user_to_domain_ok: "stored_email U (um_email m) \<Longrightarrow> user_to_domain U m = Inr (user_dom m)"
  by (simp add: user_to_domain_def stored_email_def user_dom_def)

lemma user_dom_inverse [simp]: "user_dom (user_to_model u) = u" "user_to_model (user_dom m) = m"
  by (simp_all add: user_dom_def user_to_model_def)

lemma token_dom_inverse [simp]: "token_to_domain (token_to_model t) = t" "token_to_model (token_to_domain m) = m"
  by (simp_all add: token_to_domain_def token_to_model_def)

lemma user_dom_simps [simp]:
  "user_id (user_dom m) = um_id m" "user_email (user_dom m) = \<lparr>email_value = um_email m\<rparr>"
  "prt_id (token_to_domain t) = tm_id t" "prt_user_id (token_to_domain t) = tm_user_id t"
  "prt_token (token_to_domain t) = \<lparr>reset_value = tm_token t\<rparr>"
  by (simp_all add: user_dom_def token_to_domain_def)

lemma db_abs_iff:
  assumes "dbs_ok U V"
  shows "accounts (db_abs (working V)) i = Some u \<longleftrightarrow> (\<exists>m\<in>set (users (working V)). um_id m = i \<and> u = user_dom m)"
    and "resets (db_abs (working V)) i = Some t \<longleftrightarrow>
      (\<exists>m\<in>set (reset_tokens (working V)). tm_id m = i \<and> t = token_to_domain m)"
    and "accounts (db_abs (working V)) i = None \<longleftrightarrow> (\<forall>m\<in>set (users (working V)). um_id m \<noteq> i)"
    and "resets (db_abs (working V)) i = None \<longleftrightarrow> (\<forall>m\<in>set (reset_tokens (working V)). tm_id m \<noteq> i)"
  using map_of_key_Some[of um_id user_dom "users (working V)" i u] map_of_key[OF dbs_okD(2)[OF assms], of _ user_dom]
    map_of_key_Some[of tm_id token_to_domain "reset_tokens (working V)" i t]
    map_of_key[OF dbs_okD(5)[OF assms], of _ token_to_domain]
  by (auto simp: db_abs_def map_of_key_None)

lemma put_user_abs:
  assumes "\<exists>m'\<in>set T. um_id m' = um_id m"
  shows "map_of (map (\<lambda>m. (um_id m, user_dom m)) (put_user m T)) =
    (map_of (map (\<lambda>m. (um_id m, user_dom m)) T))(um_id m \<mapsto> user_dom m)"
  unfolding put_user_def by (rule map_of_put[OF assms]) simp

lemma put_token_abs:
  assumes m: "m \<in> set T" "tm_id m = prt_id t" and d: "distinct (map tm_id T)" and u: "tm_user_id m = prt_user_id t"
  shows "map_of (map (\<lambda>m. (tm_id m, token_to_domain m))
      (put_token (prt_id t) (reset_value (prt_token t)) (expires_at t) (used t) T)) =
    (map_of (map (\<lambda>m. (tm_id m, token_to_domain m)) T))(prt_id t \<mapsto> t)"
  unfolding put_token_def
proof (rule map_of_put)
  show "\<exists>m'\<in>set T. tm_id m' = prt_id t" using m by blast
  show "\<forall>m'\<in>set T. tm_id m' = prt_id t \<longrightarrow>
      tm_id (m'\<lparr>tm_token := reset_value (prt_token t), tm_expires_at := expires_at t, tm_used := used t\<rparr>) = prt_id t \<and>
      token_to_domain (m'\<lparr>tm_token := reset_value (prt_token t), tm_expires_at := expires_at t, tm_used := used t\<rparr>) = t"
  proof (intro ballI impI)
    fix m' assume m': "m' \<in> set T" "tm_id m' = prt_id t"
    have "m' = m" using distinct_map_eq[OF d m'(1) m(1)] m'(2) m(2) by simp
    then show "tm_id (m'\<lparr>tm_token := reset_value (prt_token t), tm_expires_at := expires_at t, tm_used := used t\<rparr>) = prt_id t \<and>
      token_to_domain (m'\<lparr>tm_token := reset_value (prt_token t), tm_expires_at := expires_at t, tm_used := used t\<rparr>) = t"
      using m u by (simp add: token_to_domain_def)
  qed
qed

lemma user_fitsD: "user_fits text_ok T m \<Longrightarrow> m' \<in> set T \<Longrightarrow> um_email m' \<noteq> um_email m"
  by (simp add: user_fits_def list_all_iff)

lemma distinct_put_email:
  assumes "distinct (map um_id T)" and "distinct (map um_email T)" and "m0 \<in> set T"
    and "um_id m = um_id m0" and "user_fits text_ok (without_user (um_id m) T) m"
  shows "distinct (map um_email (put_user m T))"
  using assms
proof (induction T)
  case (Cons x T)
  show ?case
  proof (cases "um_id x = um_id m")
    case True
    have "map (\<lambda>m'. if um_id m' = um_id m then m else m') T = T"
      by (rule map_idI) (use Cons.prems(1) True in \<open>auto simp: image_iff\<close>)
    then have "put_user m (x # T) = m # T" using True by (simp add: put_user_def)
    moreover have "um_email m \<notin> um_email ` set T"
    proof
      assume "um_email m \<in> um_email ` set T"
      then obtain y where y: "y \<in> set T" "um_email y = um_email m" by auto
      have "um_id x \<notin> um_id ` set T" using Cons.prems(1) by simp
      then have "um_id y \<noteq> um_id m" using y(1) True by (metis imageI)
      then have "y \<in> set (without_user (um_id m) (x # T))" using y(1) by (simp add: without_user_def)
      then show False using user_fitsD[OF Cons.prems(5)] y(2) by blast
    qed
    ultimately show ?thesis using Cons.prems(2) by simp
  next
    case False
    have "um_email x \<noteq> um_email m" using Cons.prems(5) False by (simp add: user_fits_def without_user_def)
    moreover have "distinct (map um_email (put_user m T))"
      using Cons.IH Cons.prems False by (auto simp: user_fits_def without_user_def)
    ultimately show ?thesis using Cons.prems(2) False by (auto simp: put_user_def split: if_splits)
  qed
qed simp

lemma put_user_ids: "map um_id (put_user m T) = map um_id T"
  by (simp add: put_user_def)

lemma put_token_ids: "map tm_id (put_token i tok ex us T) = map tm_id T"
  by (simp add: put_token_def)

lemma put_token_users: "map tm_user_id (put_token i tok ex us T) = map tm_user_id T"
  by (simp add: put_token_def)

lemma distinct_put_token:
  assumes "distinct (map tm_id T)" and "distinct (map tm_token T)"
    and "\<And>m. m \<in> set T \<Longrightarrow> tm_id m \<noteq> i \<Longrightarrow> tm_token m \<noteq> tok"
  shows "distinct (map tm_token (put_token i tok ex us T))"
  using assms
proof (induction T)
  case (Cons x T)
  have IH: "distinct (map tm_token (put_token i tok ex us T))"
    by (rule Cons.IH) (use Cons.prems(1,2) Cons.prems(3) in auto)
  show ?case
  proof (cases "tm_id x = i")
    case True
    have "put_token i tok ex us T = T"
      unfolding put_token_def by (rule map_idI) (use Cons.prems(1) True in \<open>auto simp: image_iff\<close>)
    moreover have "tok \<notin> tm_token ` set T"
    proof
      assume "tok \<in> tm_token ` set T"
      then obtain y where y: "y \<in> set T" "tm_token y = tok" by auto
      have "tm_id x \<notin> tm_id ` set T" using Cons.prems(1) by simp
      then have "tm_id y \<noteq> i" using y(1) True by (metis imageI)
      then show False using Cons.prems(3)[of y] y by simp
    qed
    ultimately show ?thesis using IH True by (simp add: put_token_def[of i tok ex us "x # T"] put_token_def[of i tok ex us T, symmetric])
  next
    case False
    then have "tm_token x \<noteq> tok" using Cons.prems(3)[of x] by simp
    then show ?thesis using IH Cons.prems(2) False by (auto simp: put_token_def split: if_splits)
  qed
qed (simp add: put_token_def)

context sql_session
begin

lemma sql_call_cases:
  assumes "active (dview d)"
  obtains rep d' where "sql op d = (rep, d')" "db_active text_ok inet_ok op (dview d) rep (dview d')"
  using sql_ok[of op d] assms by (cases "sql op d") (auto simp: db_ok_def)

lemma get_user_run:
  assumes "dbs_ok U (dview d)"
  obtains d' where "user_row sql (GetUser i) d = (one_or_none (filter (\<lambda>m. um_id m = i) (users (working (dview d)))), d')"
    "dview d' = dview d"
proof -
  obtain rep d' where "sql (GetUser i) d = (rep, d')" "db_active text_ok inet_ok (GetUser i) (dview d) rep (dview d')"
    using sql_call_cases[OF dbs_okD(1)[OF assms]] .
  then show thesis using that[of d'] by (simp add: user_row_def sql_call_def bnd_def lift_res_def)
qed

lemma select_users_run:
  assumes "dbs_ok U (dview d)" and "text_ok e"
  obtains d' where "user_row sql (SelectUsers e) d = (one_or_none (filter (\<lambda>m. um_email m = e) (users (working (dview d)))), d')"
    "dview d' = dview d"
proof -
  obtain rep d' where "sql (SelectUsers e) d = (rep, d')" "db_active text_ok inet_ok (SelectUsers e) (dview d) rep (dview d')"
    using sql_call_cases[OF dbs_okD(1)[OF assms(1)]] .
  then show thesis using that[of d'] assms(2) by (simp add: user_row_def sql_call_def bnd_def lift_res_def)
qed

lemma get_token_run:
  assumes "dbs_ok U (dview d)"
  obtains d' where "token_row sql (GetToken i) d = (one_or_none (filter (\<lambda>m. tm_id m = i) (reset_tokens (working (dview d)))), d')"
    "dview d' = dview d"
proof -
  obtain rep d' where "sql (GetToken i) d = (rep, d')" "db_active text_ok inet_ok (GetToken i) (dview d) rep (dview d')"
    using sql_call_cases[OF dbs_okD(1)[OF assms]] .
  then show thesis using that[of d'] by (simp add: token_row_def sql_call_def bnd_def lift_res_def)
qed

lemma select_tokens_run:
  assumes "dbs_ok U (dview d)" and "text_ok t"
  obtains d' where "token_row sql (SelectTokens t) d = (one_or_none (filter (\<lambda>m. tm_token m = t) (reset_tokens (working (dview d)))), d')"
    "dview d' = dview d"
proof -
  obtain rep d' where "sql (SelectTokens t) d = (rep, d')" "db_active text_ok inet_ok (SelectTokens t) (dview d) rep (dview d')"
    using sql_call_cases[OF dbs_okD(1)[OF assms(1)]] .
  then show thesis using that[of d'] assms(2) by (simp add: token_row_def sql_call_def bnd_def lift_res_def)
qed

lemma flush_run:
  assumes "active (dview d)" and "\<And>rep V'. db_active text_ok inet_ok op (dview d) rep V' \<Longrightarrow> rep = DDone \<and> V' = W"
  obtains d' where "flush sql op d = (Inr (), d')" "dview d' = W"
proof -
  obtain rep d' where "sql op d = (rep, d')" "db_active text_ok inet_ok op (dview d) rep (dview d')"
    using sql_call_cases[OF assms(1)] .
  then show thesis using that[of d'] assms(2)[of rep "dview d'"] by (simp add: flush_def sql_call_def bnd_def ret_def)
qed

lemma normal_text: "unicode_ok U \<Longrightarrow> Email_new U s = Inr e \<Longrightarrow> text_ok (email_value e)"
  by (rule text_ascii) (auto simp: Email_new_cases split: if_splits dest: address_char)

lemma user_fits_iff:
  assumes ok: "dbs_ok U (dview d)" and st: "user_storable U text_ok (db_abs (working (dview d))) u" and U: "unicode_ok U"
    and m: "um_email m = email_value (user_email u)" "um_hashed_password m = hashed_value (hashed_password u)"
      "um_id m = user_id u"
    and T: "set T \<subseteq> set (users (working (dview d)))" "\<forall>m'\<in>set T. um_id m' \<noteq> user_id u"
  shows "user_fits text_ok T m"
proof -
  have "um_email m' \<noteq> um_email m" if "m' \<in> set T" for m'
  proof
    assume "um_email m' = um_email m"
    then have "user_email (user_dom m') = user_email u" using m(1) by (cases "user_email u") simp
    moreover have "accounts (db_abs (working (dview d))) (um_id m') = Some (user_dom m')"
      using T(1) that db_abs_iff(1)[OF ok] by auto
    ultimately have "um_id m' = user_id u" using st by (auto simp: user_storable_def)
    then show False using T(2) that by simp
  qed
  moreover have "text_ok (email_value (user_email u))"
    using st normal_text[OF U] by (fastforce simp: user_storable_def stored_email_def)
  ultimately show ?thesis
    using st m T(2) by (auto simp: user_fits_def list_all_iff user_storable_def stored_email_def)
qed

lemma save_user_run:
  assumes ok: "dbs_ok U (dview d)" and U: "unicode_ok U"
    and st: "user_storable U text_ok (db_abs (working (dview d))) u"
  shows "\<exists>d'. save_user sql u d = (Inr (), d') \<and> dbs_ok U (dview d') \<and>
    db_abs (working (dview d')) =
      (db_abs (working (dview d)))\<lparr>accounts := (accounts (db_abs (working (dview d))))(user_id u \<mapsto> u)\<rparr>"
proof -
  let ?T = "working (dview d)"
  obtain d1 where d1: "user_row sql (GetUser (user_id u)) d = (one_or_none (filter (\<lambda>m. um_id m = user_id u) (users ?T)), d1)"
    "dview d1 = dview d" using get_user_run[OF ok] .
  have norm: "stored_email U (email_value (user_email u))" using st by (simp add: user_storable_def)
  from dbs_okD(2)[OF ok] show ?thesis
  proof (cases rule: one_or_none_filter[where k = "user_id u", consumes 1, case_names none some])
    case none
    have model_id: "um_id (user_to_model u) = user_id u" by (simp add: user_to_model_def)
    let ?m = "user_to_model u" and ?W = "?T\<lparr>users := users ?T @ [user_to_model u]\<rparr>"
    have fits: "user_fits text_ok (users ?T) ?m"
      by (rule user_fits_iff[OF ok st U]) (use none in \<open>auto simp: user_to_model_def\<close>)
    obtain d' where d': "flush sql (InsertUser ?m) d1 = (Inr (), d')" "dview d' = (dview d)\<lparr>working := ?W\<rparr>"
      by (rule flush_run[of d1 "InsertUser ?m" "(dview d)\<lparr>working := ?W\<rparr>"])
        (use d1(2) fits dbs_okD(1)[OF ok] in \<open>auto simp: flushed_def\<close>)
    have "tables_ok U ?W"
      using ok fits norm by (auto simp: dbs_ok_def tables_ok_def user_fits_def list_all_iff user_to_model_def)
    moreover have "db_abs ?W = (db_abs ?T)\<lparr>accounts := (accounts (db_abs ?T))(user_id u \<mapsto> u)\<rparr>"
      using none(2) map_of_key_None[of um_id user_dom "users ?T" "user_id u"]
      by (auto simp: db_abs_def fun_eq_iff map_add_def model_id split: option.splits)
    ultimately show ?thesis
      using d1(1) d' none(1) ok by (simp add: save_user_def dbs_ok_def)
  next
    case (some m)
    let ?m = "m\<lparr>um_email := email_value (user_email u), um_hashed_password := hashed_value (hashed_password u),
        um_is_active := is_active u, um_created_at := created_at u\<rparr>"
    let ?W = "?T\<lparr>users := put_user ?m (users ?T)\<rparr>"
    have m: "user_dom ?m = u" "um_id ?m = user_id u" using some(3) by (simp_all add: user_dom_def)
    have fits: "user_fits text_ok (without_user (um_id ?m) (users ?T)) ?m"
      by (rule user_fits_iff[OF ok st U]) (use some(3) in \<open>auto simp: without_user_def\<close>)
    obtain d' where d': "flush sql (UpdateUser ?m) d1 = (Inr (), d')" "dview d' = (dview d)\<lparr>working := ?W\<rparr>"
      by (rule flush_run[of d1 "UpdateUser ?m" "(dview d)\<lparr>working := ?W\<rparr>"])
        (use d1(2) fits dbs_okD(1)[OF ok] in \<open>auto simp: flushed_def\<close>)
    have "tables_ok U ?W"
      unfolding tables_ok_def
    proof (intro conjI)
      show "distinct (map um_email (users ?W))"
        using distinct_put_email[OF dbs_okD(2,3)[OF ok] some(2), of ?m] fits some(3) by simp
      show "list_all (\<lambda>m. stored_email U (um_email m)) (users ?W)"
        using dbs_okD(4)[OF ok] norm by (auto simp: list_all_iff put_user_def)
    qed (use ok in \<open>simp_all add: dbs_ok_def tables_ok_def put_user_ids\<close>)
    moreover have "db_abs ?W = (db_abs ?T)\<lparr>accounts := (accounts (db_abs ?T))(user_id u \<mapsto> u)\<rparr>"
      using put_user_abs[of "users ?T" ?m] some(2,3) m by (auto simp: db_abs_def)
    ultimately show ?thesis
      using d1(1) d' some(1) ok by (simp add: save_user_def dbs_ok_def)
  qed
qed

lemma save_token_run:
  assumes ok: "dbs_ok U (dview d)" and st: "token_storable text_ok (db_abs (working (dview d))) t"
  shows "\<exists>d'. save_token sql t d = (Inr (), d') \<and> dbs_ok U (dview d') \<and>
    db_abs (working (dview d')) =
      (db_abs (working (dview d)))\<lparr>resets := (resets (db_abs (working (dview d))))(prt_id t \<mapsto> t)\<rparr>"
proof -
  let ?T = "working (dview d)"
  obtain d1 where d1: "token_row sql (GetToken (prt_id t)) d = (one_or_none (filter (\<lambda>m. tm_id m = prt_id t) (reset_tokens ?T)), d1)"
    "dview d1 = dview d" using get_token_run[OF ok] .
  have user: "\<exists>m\<in>set (users ?T). um_id m = prt_user_id t"
    using st db_abs_iff(3)[OF ok, of "prt_user_id t"] by (auto simp: token_storable_def)
  have other: "tm_token m \<noteq> reset_value (prt_token t)" if "m \<in> set (reset_tokens ?T)" "tm_id m \<noteq> prt_id t" for m
  proof
    assume "tm_token m = reset_value (prt_token t)"
    then have "prt_token (token_to_domain m) = prt_token t" by (cases "prt_token t") simp
    moreover have "resets (db_abs ?T) (tm_id m) = Some (token_to_domain m)" using db_abs_iff(2)[OF ok] that(1) by auto
    ultimately show False using st that(2) by (auto simp: token_storable_def)
  qed
  from dbs_okD(5)[OF ok] show ?thesis
  proof (cases rule: one_or_none_filter[where k = "prt_id t", consumes 1, case_names none some])
    case none
    let ?m = "token_to_model t" and ?W = "?T\<lparr>reset_tokens := reset_tokens ?T @ [token_to_model t]\<rparr>"
    have m: "tm_id ?m = prt_id t" "tm_token ?m = reset_value (prt_token t)" "tm_user_id ?m = prt_user_id t"
      by (simp_all add: token_to_model_def)
    have fits: "token_fits text_ok ?T (reset_tokens ?T) ?m"
      using none(2) user other st by (simp add: token_fits_def m list_all_iff list_ex_iff token_storable_def)
    obtain d' where d': "flush sql (InsertToken ?m) d1 = (Inr (), d')" "dview d' = (dview d)\<lparr>working := ?W\<rparr>"
      by (rule flush_run[of d1 "InsertToken ?m" "(dview d)\<lparr>working := ?W\<rparr>"])
        (use d1(2) fits dbs_okD(1)[OF ok] in \<open>auto simp: flushed_def\<close>)
    have "tables_ok U ?W"
    proof -
      have id: "tm_id ?m \<notin> tm_id ` set (reset_tokens ?T)" using none(2) m(1) by auto
      moreover have "tm_token ?m \<notin> tm_token ` set (reset_tokens ?T)"
      proof
        assume "tm_token ?m \<in> tm_token ` set (reset_tokens ?T)"
        then obtain y where "y \<in> set (reset_tokens ?T)" "tm_token y = tm_token ?m" by auto
        then show False using other[of y] none(2) m(2) by simp
      qed
      moreover have "tm_user_id ?m \<in> um_id ` set (users ?T)" using user m(3) by force
      ultimately show ?thesis using ok by (simp add: dbs_ok_def tables_ok_def)
    qed
    moreover have "db_abs ?W = (db_abs ?T)\<lparr>resets := (resets (db_abs ?T))(prt_id t \<mapsto> t)\<rparr>"
      using none(2) map_of_key_None[of tm_id token_to_domain "reset_tokens ?T" "prt_id t"]
      by (auto simp: db_abs_def fun_eq_iff map_add_def m split: option.splits)
    ultimately show ?thesis
      using d1(1) d' none(1) ok by (simp add: save_token_def dbs_ok_def)
  next
    case (some m)
    let ?p = "put_token (prt_id t) (reset_value (prt_token t)) (expires_at t) (used t)"
    let ?W = "?T\<lparr>reset_tokens := ?p (reset_tokens ?T)\<rparr>"
    have u: "tm_user_id m = prt_user_id t"
    proof -
      have "resets (db_abs ?T) (prt_id t) = Some (token_to_domain m)"
        using db_abs_iff(2)[OF ok, of "prt_id t" "token_to_domain m"] some(2,3) by blast
      then show ?thesis using st by (auto simp: token_storable_def)
    qed
    have fits: "list_all (\<lambda>m'. tm_token m' \<noteq> reset_value (prt_token t)) (without_token (tm_id m) (reset_tokens ?T)) \<and>
        length (reset_value (prt_token t)) \<le> 255 \<and> text_ok (reset_value (prt_token t))"
      using other st some(3) by (simp add: list_all_iff without_token_def token_storable_def)
    obtain d' where d': "flush sql (UpdateToken (tm_id m) (reset_value (prt_token t)) (expires_at t) (used t)) d1 = (Inr (), d')"
        "dview d' = (dview d)\<lparr>working := ?W\<rparr>"
      by (rule flush_run[of d1 "UpdateToken (tm_id m) (reset_value (prt_token t)) (expires_at t) (used t)" "(dview d)\<lparr>working := ?W\<rparr>"])
        (use d1(2) fits some(3) dbs_okD(1)[OF ok] in \<open>auto simp: flushed_def\<close>)
    have "distinct (map tm_token (?p (reset_tokens ?T)))"
      using dbs_okD(5,6)[OF ok] other by (intro distinct_put_token) auto
    then have "tables_ok U ?W"
      using ok by (auto simp: dbs_ok_def tables_ok_def put_token_ids put_token_users)
    moreover have "db_abs ?W = (db_abs ?T)\<lparr>resets := (resets (db_abs ?T))(prt_id t \<mapsto> t)\<rparr>"
      using put_token_abs[OF some(2,3) dbs_okD(5)[OF ok] u] by (simp add: db_abs_def)
    ultimately show ?thesis
      using d1(1) d' some(1) ok by (simp add: save_token_def dbs_ok_def)
  qed
qed

lemma find_email_run:
  assumes ok: "dbs_ok U (dview d)" and U: "unicode_ok U" and e: "Email_new U s = Inr e"
  shows "\<exists>x d'. find_by_email U sql e d = (Inr x, d') \<and> dview d' = dview d \<and>
    (\<forall>u. x = Some u \<longleftrightarrow> accounts (db_abs (working (dview d))) (user_id u) = Some u \<and> user_email u = e)"
proof -
  let ?T = "working (dview d)"
  obtain d1 where d1: "user_row sql (SelectUsers (email_value e)) d = (one_or_none (filter (\<lambda>m. um_email m = email_value e) (users ?T)), d1)"
    "dview d1 = dview d" using select_users_run[OF ok normal_text[OF U e]] .
  from dbs_okD(3)[OF ok] show ?thesis
  proof (cases rule: one_or_none_filter[where k = "email_value e", consumes 1, case_names none some])
    case none
    have "\<not> (accounts (db_abs ?T) (user_id u) = Some u \<and> user_email u = e)" for u
      using none(2) by (auto simp: db_abs_iff(1)[OF ok])
    then show ?thesis using d1 none(1) by (simp add: find_by_email_def ret_def)
  next
    case (some m)
    have *: "Some (user_dom m) = Some u \<longleftrightarrow> accounts (db_abs ?T) (user_id u) = Some u \<and> user_email u = e" for u
    proof
      assume "Some (user_dom m) = Some u"
      then show "accounts (db_abs ?T) (user_id u) = Some u \<and> user_email u = e"
        using some(2,3) by (auto simp: db_abs_iff(1)[OF ok])
    next
      assume "accounts (db_abs ?T) (user_id u) = Some u \<and> user_email u = e"
      then obtain m' where m': "m' \<in> set (users ?T)" "u = user_dom m'" "user_email u = e"
        using db_abs_iff(1)[OF ok, of "user_id u" u] by blast
      have "um_email m' = email_value e" using m'(2,3) by auto
      then show "Some (user_dom m) = Some u" using distinct_map_eq[OF dbs_okD(3)[OF ok] some(2) m'(1)] some(3) m'(2) by simp
    qed
    have "find_by_email U sql e d = (Inr (Some (user_dom m)), d1)"
      using d1(1) some(1) user_to_domain_ok[OF dbs_okD(4)[OF ok some(2)]] by (simp add: find_by_email_def ret_def)
    then show ?thesis using * d1(2) by blast
  qed
qed

lemma find_id_run:
  assumes ok: "dbs_ok U (dview d)"
  shows "\<exists>d'. find_by_id U sql i d = (Inr (accounts (db_abs (working (dview d))) i), d') \<and> dview d' = dview d"
proof -
  let ?T = "working (dview d)"
  obtain d1 where d1: "user_row sql (GetUser i) d = (one_or_none (filter (\<lambda>m. um_id m = i) (users ?T)), d1)"
    "dview d1 = dview d" using get_user_run[OF ok] .
  from dbs_okD(2)[OF ok] show ?thesis
  proof (cases rule: one_or_none_filter[where k = i, consumes 1, case_names none some])
    case none
    then show ?thesis using d1 db_abs_iff(3)[OF ok, of i] by (simp add: find_by_id_def ret_def)
  next
    case (some m)
    have "accounts (db_abs ?T) i = Some (user_dom m)" using some(2,3) by (auto simp: db_abs_iff(1)[OF ok])
    then show ?thesis
      using d1 some(1) user_to_domain_ok[OF dbs_okD(4)[OF ok some(2)]] by (simp add: find_by_id_def ret_def)
  qed
qed

lemma find_token_run:
  assumes ok: "dbs_ok U (dview d)" and t: "text_ok s"
  shows "\<exists>x d'. find_by_token sql s d = (Inr x, d') \<and> dview d' = dview d \<and>
    (\<forall>y. x = Some y \<longleftrightarrow> resets (db_abs (working (dview d))) (prt_id y) = Some y \<and> reset_value (prt_token y) = s)"
proof -
  let ?T = "working (dview d)"
  obtain d1 where d1: "token_row sql (SelectTokens s) d = (one_or_none (filter (\<lambda>m. tm_token m = s) (reset_tokens ?T)), d1)"
    "dview d1 = dview d" using select_tokens_run[OF ok t] .
  from dbs_okD(6)[OF ok] show ?thesis
  proof (cases rule: one_or_none_filter[where k = s, consumes 1, case_names none some])
    case none
    have "\<not> (resets (db_abs ?T) (prt_id y) = Some y \<and> reset_value (prt_token y) = s)" for y
      using none(2) by (auto simp: db_abs_iff(2)[OF ok])
    then show ?thesis using d1 none(1) by (simp add: find_by_token_def ret_def)
  next
    case (some m)
    have *: "Some (token_to_domain m) = Some y \<longleftrightarrow> resets (db_abs ?T) (prt_id y) = Some y \<and> reset_value (prt_token y) = s" for y
    proof
      assume "Some (token_to_domain m) = Some y"
      then show "resets (db_abs ?T) (prt_id y) = Some y \<and> reset_value (prt_token y) = s"
        using some(2,3) by (auto simp: db_abs_iff(2)[OF ok])
    next
      assume "resets (db_abs ?T) (prt_id y) = Some y \<and> reset_value (prt_token y) = s"
      then obtain m' where m': "m' \<in> set (reset_tokens ?T)" "y = token_to_domain m'" "reset_value (prt_token y) = s"
        using db_abs_iff(2)[OF ok, of "prt_id y" y] by blast
      have "tm_token m' = s" using m'(2,3) by auto
      then show "Some (token_to_domain m) = Some y"
        using distinct_map_eq[OF dbs_okD(6)[OF ok] some(2) m'(1)] some(3) m'(2) by simp
    qed
    have "find_by_token sql s d = (Inr (Some (token_to_domain m)), d1)"
      using d1(1) some(1) by (simp add: find_by_token_def ret_def)
    then show ?thesis using * d1(2) by blast
  qed
qed

lemma delete_tokens_run:
  assumes ok: "dbs_ok U (dview d)"
  shows "\<exists>d'. delete_all_by_user_id sql i d = (Inr (), d') \<and> dbs_ok U (dview d') \<and>
    db_abs (working (dview d')) = (db_abs (working (dview d)))\<lparr>resets := (\<lambda>k. case resets (db_abs (working (dview d))) k of
            Some t \<Rightarrow> if prt_user_id t = i then None else Some t | None \<Rightarrow> None)\<rparr>"
proof -
  let ?T = "working (dview d)"
  let ?W = "?T\<lparr>reset_tokens := filter (\<lambda>m. tm_user_id m \<noteq> i) (reset_tokens ?T)\<rparr>"
  obtain d' where d': "flush sql (DeleteTokens i) d = (Inr (), d')" "dview d' = (dview d)\<lparr>working := ?W\<rparr>"
    by (rule flush_run[of d "DeleteTokens i" "(dview d)\<lparr>working := ?W\<rparr>"]) (use dbs_okD(1)[OF ok] in auto)
  have "tables_ok U ?W"
    using ok by (auto simp: dbs_ok_def tables_ok_def distinct_map inj_on_def)
  moreover have "map_of (map (\<lambda>m. (tm_id m, token_to_domain m)) (filter (\<lambda>m. tm_user_id m \<noteq> i) xs)) k =
      (case map_of (map (\<lambda>m. (tm_id m, token_to_domain m)) xs) k of
         Some t \<Rightarrow> if prt_user_id t = i then None else Some t | None \<Rightarrow> None)" if "distinct (map tm_id xs)" for xs k
    using that by (induction xs) (auto simp: map_of_key_None image_iff split: option.splits)
  ultimately show ?thesis
    using d' dbs_okD(1,5)[OF ok] by (simp add: delete_all_by_user_id_def dbs_ok_def db_abs_def fun_eq_iff)
qed

text \<open>An event fits its table exactly when it is storable.\<close>

lemma event_fits_iff:
  assumes ok: "dbs_ok U V"
  shows "event_fits text_ok inet_ok (working V) (event_to_model ev) \<longleftrightarrow>
    event_storable text_ok inet_ok (db_abs (working V)) ev"
proof -
  have "length (event_type_value y) \<le> 50" for y by (cases y) simp_all
  moreover have "text_ok (event_type_value y)" for y
    by (cases y) (rule text_ascii, auto simp: lit_def)+
  moreover have "list_ex (\<lambda>u. um_id u = i) (users (working V)) \<longleftrightarrow> accounts (db_abs (working V)) i \<noteq> None" for i
    using db_abs_iff(3)[OF ok, of i] by (auto simp: list_ex_iff)
  moreover have "events (db_abs (working V)) = auth_events (working V)" by (simp add: db_abs_def)
  ultimately show ?thesis
    by (simp add: event_fits_def event_storable_def event_to_model_def list_all_iff split: option.split)
qed

lemma log_event_fail:
  assumes ok: "dbs_ok U (dview d)" and st: "\<not> event_storable text_ok inet_ok (db_abs (working (dview d))) ev"
  shows "\<exists>m d'. record_event sql ev d = (Inl (ExternalError m), d') \<and> dview d' = dead (dview d)"
proof -
  have "failed (fst (sql (InsertEvent (event_to_model ev)) d))" "dview (snd (sql (InsertEvent (event_to_model ev)) d)) = dead (dview d)"
    using sql_ok[of "InsertEvent (event_to_model ev)" d] dbs_okD(1)[OF ok] event_fits_iff[OF ok, of ev] st
    by (simp_all add: db_ok_def flushed_def)
  then show ?thesis
    by (cases "sql (InsertEvent (event_to_model ev)) d") (auto simp: record_event_def flush_def sql_call_def failed_def)
qed

lemma log_event_run:
  assumes ok: "dbs_ok U (dview d)" and st: "event_storable text_ok inet_ok (db_abs (working (dview d))) ev"
  shows "\<exists>d'. record_event sql ev d = (Inr (), d') \<and> dbs_ok U (dview d') \<and>
    db_abs (working (dview d')) =
      (db_abs (working (dview d)))\<lparr>events := events (db_abs (working (dview d))) @ [event_to_model ev]\<rparr>"
proof -
  let ?T = "working (dview d)"
  let ?W = "?T\<lparr>auth_events := auth_events ?T @ [event_to_model ev]\<rparr>"
  have fits: "event_fits text_ok inet_ok ?T (event_to_model ev)" using event_fits_iff[OF ok] st by simp
  obtain d' where d': "flush sql (InsertEvent (event_to_model ev)) d = (Inr (), d')" "dview d' = (dview d)\<lparr>working := ?W\<rparr>"
    by (rule flush_run[of d "InsertEvent (event_to_model ev)" "(dview d)\<lparr>working := ?W\<rparr>"])
      (use fits dbs_okD(1)[OF ok] in \<open>auto simp: flushed_def\<close>)
  then show ?thesis
    using ok by (simp add: record_event_def dbs_ok_def tables_ok_def db_abs_def)
qed

end

locale sql_repositories = sql_session sql dview text_ok inet_ok
  for sql :: "'d sql" and dview :: "'d \<Rightarrow> db_view" and text_ok inet_ok :: "pystr \<Rightarrow> bool" +
  fixes U :: unicode

sublocale sql_repositories \<subseteq> repo: repositories U text_ok inet_ok
  "\<lambda>d. dbs_ok U (dview d)" "\<lambda>d. db_abs (working (dview d))"
  "find_by_email U sql" "find_by_id U sql" "save_user sql" "find_by_token sql" "save_token sql"
  "delete_all_by_user_id sql" "record_event sql"
proof
  fix d i u t s e token_str ev
  assume ok: "dbs_ok U (dview d)"
  let ?A = "db_abs (working (dview d))"
  show "accounts ?A i = Some u \<Longrightarrow> user_id u = i \<and> stored_email U (email_value (user_email u))"
    using dbs_okD(4)[OF ok] by (auto simp: db_abs_iff(1)[OF ok])
  show "resets ?A i = Some t \<Longrightarrow> prt_id t = i \<and> accounts ?A (prt_user_id t) \<noteq> None"
    using dbs_okD(7)[OF ok] db_abs_iff(3)[OF ok] by (fastforce simp: db_abs_iff(2)[OF ok])
  show "\<exists>x d'. find_by_email U sql e d = (Inr x, d') \<and> dbs_ok U (dview d') \<and> db_abs (working (dview d')) = ?A \<and>
        (\<forall>u. x = Some u \<longleftrightarrow> accounts ?A (user_id u) = Some u \<and> user_email u = e)"
    if U: "unicode_ok U" "Email_new U s = Inr e"
  proof -
    obtain x d' where "find_by_email U sql e d = (Inr x, d')" "dview d' = dview d"
        "\<forall>u. x = Some u \<longleftrightarrow> accounts ?A (user_id u) = Some u \<and> user_email u = e"
      using find_email_run[OF ok U] by blast
    then show ?thesis using ok by (intro exI[of _ x] exI[of _ d']) simp
  qed
  show "\<exists>d'. find_by_id U sql i d = (Inr (accounts ?A i), d') \<and> dbs_ok U (dview d') \<and> db_abs (working (dview d')) = ?A"
    using find_id_run[OF ok, of i] ok by auto
  show "\<exists>x d'. find_by_token sql token_str d = (Inr x, d') \<and> dbs_ok U (dview d') \<and>
      db_abs (working (dview d')) = ?A \<and>
      (\<forall>y. x = Some y \<longleftrightarrow> resets ?A (prt_id y) = Some y \<and> reset_value (prt_token y) = token_str)"
    if t: "text_ok token_str"
  proof -
    obtain x d' where "find_by_token sql token_str d = (Inr x, d')" "dview d' = dview d"
        "\<forall>y. x = Some y \<longleftrightarrow> resets ?A (prt_id y) = Some y \<and> reset_value (prt_token y) = token_str"
      using find_token_run[OF ok t] by blast
    then show ?thesis using ok by (intro exI[of _ x] exI[of _ d']) simp
  qed
qed (use save_user_run save_token_run delete_tokens_run log_event_run in blast)+

section \<open>A reference session\<close>

text \<open>An executable session that behaves as documented; its state is the visible state.\<close>

definition ref_text_ok :: "pystr \<Rightarrow> bool" where
  "ref_text_ok s \<longleftrightarrow> list_all (\<lambda>c. 0 < c \<and> \<not> is_surrogate c) s"

fun split_dots :: "pystr \<Rightarrow> pystr list" where
  "split_dots [] = [[]]"
| "split_dots (c # s) = (if c = 46 then [] # split_dots s else (c # hd (split_dots s)) # tl (split_dots s))"

definition ref_inet_ok :: "pystr \<Rightarrow> bool" where
  "ref_inet_ok s \<longleftrightarrow>
     length (split_dots s) = 4 \<and>
     list_all (\<lambda>p. p \<noteq> [] \<and> length p \<le> 3 \<and> list_all ascii_digit p \<and>
       foldl (\<lambda>a c. 10 * a + (c - 48)) 0 p \<le> 255) (split_dots s)"

definition ref_flush :: "bool \<Rightarrow> tables \<Rightarrow> db_view \<Rightarrow> db_reply \<times> db_view" where
  "ref_flush fits T V = (if fits then (DDone, V\<lparr>working := T\<rparr>) else (DFail (lit ''constraint''), dead V))"

fun ref_run :: "db_op \<Rightarrow> db_view \<Rightarrow> db_reply \<times> db_view" where
  "ref_run (GetUser i) V = (DUsers (filter (\<lambda>m. um_id m = i) (users (working V))), V)"
| "ref_run (SelectUsers e) V =
     (if ref_text_ok e then (DUsers (filter (\<lambda>m. um_email m = e) (users (working V))), V)
      else (DFail (lit ''encoding''), V))"
| "ref_run (InsertUser m) V =
     ref_flush (user_fits ref_text_ok (users (working V)) m)
       ((working V)\<lparr>users := users (working V) @ [m]\<rparr>) V"
| "ref_run (UpdateUser m) V =
     ref_flush (user_fits ref_text_ok (without_user (um_id m) (users (working V))) m)
       ((working V)\<lparr>users := put_user m (users (working V))\<rparr>) V"
| "ref_run (GetToken i) V = (DTokens (filter (\<lambda>m. tm_id m = i) (reset_tokens (working V))), V)"
| "ref_run (SelectTokens t) V =
     (if ref_text_ok t then (DTokens (filter (\<lambda>m. tm_token m = t) (reset_tokens (working V))), V)
      else (DFail (lit ''encoding''), V))"
| "ref_run (InsertToken m) V =
     ref_flush (token_fits ref_text_ok (working V) (reset_tokens (working V)) m)
       ((working V)\<lparr>reset_tokens := reset_tokens (working V) @ [m]\<rparr>) V"
| "ref_run (UpdateToken i tok ex us) V =
     ref_flush (list_all (\<lambda>m'. tm_token m' \<noteq> tok) (without_token i (reset_tokens (working V))) \<and>
         length tok \<le> 255 \<and> ref_text_ok tok)
       ((working V)\<lparr>reset_tokens := put_token i tok ex us (reset_tokens (working V))\<rparr>) V"
| "ref_run (DeleteTokens u) V =
     (DDone, V\<lparr>working := (working V)\<lparr>reset_tokens := filter (\<lambda>m. tm_user_id m \<noteq> u) (reset_tokens (working V))\<rparr>\<rparr>)"
| "ref_run (InsertEvent m) V =
     ref_flush (event_fits ref_text_ok ref_inet_ok (working V) m)
       ((working V)\<lparr>auth_events := auth_events (working V) @ [m]\<rparr>) V"
| "ref_run BeginTransaction V = (DDone, V\<lparr>working := committed V, active := True\<rparr>)"
| "ref_run CommitTransaction V = (DDone, V\<lparr>committed := working V\<rparr>)"
| "ref_run RollbackTransaction V = (DDone, dead V)"

definition ref_sql :: "db_view sql" where
  "ref_sql op V =
     (if active V \<or> op = BeginTransaction then ref_run op V
      else if op = CommitTransaction \<or> op = RollbackTransaction then (DDone, dead V)
      else (DFail (lit ''transaction rolled back''), V))"

lemma ref_run_ok: "db_active ref_text_ok ref_inet_ok op V (fst (ref_run op V)) (snd (ref_run op V))"
  by (cases op) (simp_all add: flushed_def failed_def ref_flush_def)

interpretation refdb: sql_repositories ref_sql "\<lambda>V. V" ref_text_ok ref_inet_ok latin_unicode
proof
  show "db_ok ref_text_ok ref_inet_ok op V (fst (ref_sql op V)) (snd (ref_sql op V))" for op V
    using ref_run_ok[of op V] by (simp add: db_ok_def ref_sql_def failed_def)
  show "ref_text_ok s" if "\<And>c. c \<in> set s \<Longrightarrow> 0 < c \<and> c < 128" for s
    using that by (fastforce simp: ref_text_ok_def list_all_iff is_surrogate_def)
qed

end
