(* ===== verification/PySha256.thy ===== *)
theory PySha256
  imports PyBase "HOL-Library.Word"
begin

text \<open>
  SHA-256 as \<open>hashlib.sha256\<close> computes it (FIPS 180-4), and the hexadecimal digest the
  service stores for reset tokens and idempotency records. Bytes are numbers below 256, the
  eight working variables and the message schedule are 32-bit words, additions wrap; the
  two tables of the standard are in decimal.
\<close>

unbundle bit_operations_syntax

type_synonym w32 = "32 word"

definition sha_k :: "w32 list" where
  "sha_k =
    [1116352408, 1899447441, 3049323471, 3921009573, 961987163, 1508970993, 2453635748, 2870763221,
     3624381080, 310598401, 607225278, 1426881987, 1925078388, 2162078206, 2614888103, 3248222580,
     3835390401, 4022224774, 264347078, 604807628, 770255983, 1249150122, 1555081692, 1996064986,
     2554220882, 2821834349, 2952996808, 3210313671, 3336571891, 3584528711, 113926993, 338241895,
     666307205, 773529912, 1294757372, 1396182291, 1695183700, 1986661051, 2177026350, 2456956037,
     2730485921, 2820302411, 3259730800, 3345764771, 3516065817, 3600352804, 4094571909, 275423344,
     430227734, 506948616, 659060556, 883997877, 958139571, 1322822218, 1537002063, 1747873779,
     1955562222, 2024104815, 2227730452, 2361852424, 2428436474, 2756734187, 3204031479, 3329325298]"

definition sha_iv :: "w32 list" where
  "sha_iv =
    [1779033703, 3144134277, 1013904242, 2773480762, 1359893119, 2600822924, 528734635, 1541459225]"

definition rotr :: "nat \<Rightarrow> w32 \<Rightarrow> w32" where
  "rotr n x = drop_bit n x OR push_bit (32 - n) x"

definition s0 :: "w32 \<Rightarrow> w32" where
  "s0 x = rotr 7 x XOR rotr 18 x XOR drop_bit 3 x"

definition s1 :: "w32 \<Rightarrow> w32" where
  "s1 x = rotr 17 x XOR rotr 19 x XOR drop_bit 10 x"

definition S0 :: "w32 \<Rightarrow> w32" where
  "S0 x = rotr 2 x XOR rotr 13 x XOR rotr 22 x"

definition S1 :: "w32 \<Rightarrow> w32" where
  "S1 x = rotr 6 x XOR rotr 11 x XOR rotr 25 x"

definition ch :: "w32 \<Rightarrow> w32 \<Rightarrow> w32 \<Rightarrow> w32" where
  "ch x y z = (x AND y) XOR (NOT x AND z)"

definition maj :: "w32 \<Rightarrow> w32 \<Rightarrow> w32 \<Rightarrow> w32" where
  "maj x y z = (x AND y) XOR (x AND z) XOR (y AND z)"

text \<open>The padded message: a one bit, zeros, the bit length in eight bytes.\<close>

fun be_bytes :: "nat \<Rightarrow> nat \<Rightarrow> nat list" where
  "be_bytes 0 n = []"
| "be_bytes (Suc k) n = be_bytes k (n div 256) @ [n mod 256]"

definition sha_pad :: "nat list \<Rightarrow> nat list" where
  "sha_pad m =
     m @ [128] @ replicate ((119 - length m mod 64) mod 64) 0 @ be_bytes 8 (8 * length m)"

fun be_words :: "nat list \<Rightarrow> w32 list" where
  "be_words (a # b # c # d # rest) =
     word_of_nat (((a * 256 + b) * 256 + c) * 256 + d) # be_words rest"
| "be_words _ = []"

text \<open>The message schedule, newest word first.\<close>

fun schedule :: "nat \<Rightarrow> w32 list \<Rightarrow> w32 list" where
  "schedule 0 ws = ws"
| "schedule (Suc k) ws =
     schedule k ((s1 (ws ! 1) + ws ! 6 + s0 (ws ! 14) + ws ! 15) # ws)"

fun sha_round :: "w32 list \<Rightarrow> w32 \<times> w32 \<Rightarrow> w32 list" where
  "sha_round [a, b, c, d, e, f, g, h] (k, w) =
     (let t1 = h + S1 e + ch e f g + k + w; t2 = S0 a + maj a b c
      in [t1 + t2, a, b, c, d + t1, e, f, g])"
| "sha_round hs kw = hs"

definition sha_block :: "w32 list \<Rightarrow> w32 list \<Rightarrow> w32 list" where
  "sha_block hs block =
     map2 (+) hs (foldl sha_round hs (zip sha_k (rev (schedule 48 (rev block)))))"

function sha_blocks :: "w32 list \<Rightarrow> w32 list \<Rightarrow> w32 list" where
  "sha_blocks hs ws = (if ws = [] then hs else sha_blocks (sha_block hs (take 16 ws)) (drop 16 ws))"
  by auto
termination by (relation "measure (\<lambda>(hs, ws). length ws)") auto

declare sha_blocks.simps [simp del]

definition sha256 :: "nat list \<Rightarrow> w32 list" where
  "sha256 m = sha_blocks sha_iv (be_words (sha_pad m))"

text \<open>\<open>hashlib.sha256(b).hexdigest()\<close>\<close>

definition sha256_hex :: "nat list \<Rightarrow> pystr" where
  "sha256_hex m = concat (map (\<lambda>w. hex_pad 8 (unat w)) (sha256 m))"

section \<open>The shape of a digest\<close>

lemma length_sha_round [simp]: "length (sha_round hs kw) = length hs"
  by (induction hs kw rule: sha_round.induct) (auto simp: Let_def)

lemma length_foldl_round: "length (foldl sha_round hs kws) = length hs"
  by (induction kws arbitrary: hs) simp_all

lemma length_sha_block: "length (sha_block hs block) = length hs"
  by (simp add: sha_block_def length_foldl_round)

lemma length_sha_blocks: "length (sha_blocks hs ws) = length hs"
  by (induction hs ws rule: sha_blocks.induct) (subst sha_blocks.simps, simp add: length_sha_block)

lemma length_sha256 [simp]: "length (sha256 m) = 8"
  by (simp add: sha256_def length_sha_blocks sha_iv_def)

lemma length_sha256_hex [simp]: "length (sha256_hex m) = 64"
proof -
  have "length (concat (map (\<lambda>w. hex_pad 8 (unat w)) ws)) = 8 * length ws" for ws :: "w32 list"
    by (induction ws) simp_all
  then show ?thesis by (simp add: sha256_hex_def)
qed

lemma sha256_hex_is_hex: "c \<in> set (sha256_hex m) \<Longrightarrow> is_hex c"
  by (auto simp: sha256_hex_def dest: hex_pad_is_hex)

lemma sha256_hex_ascii: "c \<in> set (sha256_hex m) \<Longrightarrow> c < 128"
  by (drule sha256_hex_is_hex) (auto simp: is_hex_def)

lemma py_text_sha256_hex [simp]: "py_text (sha256_hex m)"
  by (rule py_text_ascii) (rule sha256_hex_ascii)

end
