(* ===== verification/Security.thy ===== *)
theory Security
  imports Domain PySha256
begin

text \<open>
  The adapters of \<open>auth_service/infrastructure/security\<close> around bcrypt and PyJWT. The two
  libraries are parameters, gathered in the record \<open>crypto\<close>: their functions return a value
  or the exception they raise. What the service relies on is stated by \<open>bcrypt_ok\<close> and
  \<open>jwt_ok\<close>, and an instance of the record satisfies both.
\<close>

section \<open>Decoding\<close>

text \<open>\<open>b.decode()\<close>; \<open>UnicodeDecodeError\<close> is a \<open>ValueError\<close>.\<close>

function py_decode :: "nat list \<Rightarrow> exn + pystr" where
  "py_decode [] = Inr []"
| "py_decode (b # bs) =
     (let n = (if b < 0x80 then 0 else if b < 0xE0 then 1 else if b < 0xF0 then 2 else 3);
          c = fst (utf8_lead b (take n bs @ [0, 0, 0]))
      in if utf8_char c = b # take n bs \<and> \<not> is_surrogate c \<and> c < 0x110000
         then (case py_decode (drop n bs) of Inl e \<Rightarrow> Inl e | Inr s \<Rightarrow> Inr (c # s))
         else Inl ValueError)"
  by pat_completeness auto
termination by (relation "measure length") auto

lemma py_decode_ascii: "(\<And>c. c \<in> set s \<Longrightarrow> c < 128) \<Longrightarrow> py_decode s = Inr s"
proof (induction s)
  case (Cons c s)
  have c: "c < 128" using Cons.prems by simp
  then have "\<not> is_surrogate c" "c < 0x110000" by (simp_all add: is_surrogate_def)
  moreover have "py_decode s = Inr s" by (rule Cons.IH) (use Cons.prems in simp)
  ultimately show ?case using c by (simp add: Let_def utf8_lead_def utf8_char_ascii)
qed simp

section \<open>The libraries\<close>

record jwt_claims =
  jc_sub :: pystr
  jc_sid :: pystr
  jc_jti :: pystr
  jc_iat :: datetime
  jc_exp :: datetime

datatype jwt_error = ExpiredSignatureError | OtherPyJWTError

type_synonym claims = "pystr \<rightharpoonup> pystr"

record crypto =
  c_gensalt :: "nat \<Rightarrow> nat \<Rightarrow> nat list"
  c_hashpw :: "nat list \<Rightarrow> nat list \<Rightarrow> exn + nat list"
  c_checkpw :: "nat list \<Rightarrow> nat list \<Rightarrow> exn + bool"
  c_jwt_encode :: "jwt_claims \<Rightarrow> pystr \<Rightarrow> pystr"
  c_jwt_decode :: "datetime \<Rightarrow> pystr \<Rightarrow> pystr \<Rightarrow> jwt_error + claims"

text \<open>
  The arguments that stand for an effect of the outside are a seed for the random salt and
  the time at which a token is decoded. A claim set read back has its text claims.
\<close>

section \<open>BcryptHasher\<close>

definition ROUNDS :: nat where
  "ROUNDS = 12"

definition hash :: "crypto \<Rightarrow> nat \<Rightarrow> pystr \<Rightarrow> exn + pystr" where
  "hash C seed plain_password =
     (case py_encode plain_password of
        Inl e \<Rightarrow> Inl e
      | Inr b \<Rightarrow>
          (case c_hashpw C b (c_gensalt C ROUNDS seed) of
             Inl e \<Rightarrow> Inl e
           | Inr hashed \<Rightarrow> py_decode hashed))"

definition or_false :: "exn \<Rightarrow> exn + bool" where
  "or_false e = (if is_ValueError e then Inr False else Inl e)"

definition verify :: "crypto \<Rightarrow> pystr \<Rightarrow> pystr \<Rightarrow> exn + bool" where
  "verify C plain_password hashed =
     (case py_encode plain_password of
        Inl e \<Rightarrow> or_false e
      | Inr b \<Rightarrow>
          (case py_encode hashed of
             Inl e \<Rightarrow> or_false e
           | Inr h \<Rightarrow> (case c_checkpw C b h of Inl e \<Rightarrow> or_false e | Inr x \<Rightarrow> Inr x)))"

section \<open>JwtTokenService\<close>

definition minutes :: "int \<Rightarrow> datetime" where
  "minutes n = n * 60 * 1000000"

definition generate_access_token ::
  "crypto \<Rightarrow> pystr \<Rightarrow> int \<Rightarrow> datetime \<Rightarrow> uuid \<Rightarrow> uuid \<Rightarrow> uuid \<Rightarrow> pystr \<times> pystr" where
  "generate_access_token C secret access_ttl_minutes now jti uid sid =
     (c_jwt_encode C
        \<lparr>jc_sub = str_uuid uid, jc_sid = str_uuid sid, jc_jti = str_uuid jti,
         jc_iat = now, jc_exp = now + minutes access_ttl_minutes\<rparr> secret,
      str_uuid jti)"

definition decode_access_token :: "crypto \<Rightarrow> pystr \<Rightarrow> datetime \<Rightarrow> pystr \<Rightarrow> exn + claims" where
  "decode_access_token C secret now token =
     (case c_jwt_decode C now token secret of
        Inr claims \<Rightarrow> Inr claims
      | Inl ExpiredSignatureError \<Rightarrow> Inl (TokenExpiredError (lit ''Access token has expired''))
      | Inl OtherPyJWTError \<Rightarrow> Inl (InvalidTokenError (lit ''Invalid access token'')))"

section \<open>What the libraries promise\<close>

text \<open>
  bcrypt: a password of at most 72 bytes without a zero byte can be hashed, and checks
  against its hash; a hash is always 60 bytes of ASCII; a check that cannot be made raises
  \<open>ValueError\<close>.
\<close>

definition bcrypt_ok :: "crypto \<Rightarrow> bool" where
  "bcrypt_ok C \<longleftrightarrow>
     (\<forall>b seed. length b \<le> 72 \<longrightarrow> 0 \<notin> set b \<longrightarrow>
        (\<exists>h. c_hashpw C b (c_gensalt C ROUNDS seed) = Inr h \<and> c_checkpw C b h = Inr True)) \<and>
     (\<forall>b seed h. c_hashpw C b (c_gensalt C ROUNDS seed) = Inr h \<longrightarrow> length h = 60 \<and> (\<forall>x\<in>set h. 0 < x \<and> x < 128)) \<and>
     (\<forall>b h e. c_checkpw C b h = Inl e \<longrightarrow> is_ValueError e)"

text \<open>
  PyJWT: a token decodes under its own secret, from its issue on, to its claims until the
  second of its expiry, and is reported as expired from then on. A token is text that
  begins and ends with a printable ASCII character.
\<close>

definition second :: "datetime \<Rightarrow> datetime" where
  "second t = t div 1000000 * 1000000"

definition claims_map :: "jwt_claims \<Rightarrow> claims" where
  "claims_map c = [lit ''sub'' \<mapsto> jc_sub c, lit ''sid'' \<mapsto> jc_sid c, lit ''jti'' \<mapsto> jc_jti c]"

definition printable :: "nat \<Rightarrow> bool" where
  "printable c \<longleftrightarrow> 33 \<le> c \<and> c \<le> 126"

definition jwt_ok :: "crypto \<Rightarrow> bool" where
  "jwt_ok C \<longleftrightarrow>
     (\<forall>c secret. c_jwt_encode C c secret \<noteq> [] \<and> printable (hd (c_jwt_encode C c secret)) \<and>
        printable (last (c_jwt_encode C c secret))) \<and>
     (\<forall>c secret now. jc_iat c \<le> now \<longrightarrow>
        c_jwt_decode C now (c_jwt_encode C c secret) secret =
          (if second (jc_exp c) \<le> now then Inl ExpiredSignatureError else Inr (claims_map c)))"

section \<open>The adapters\<close>

lemma verify_total: "bcrypt_ok C \<Longrightarrow> \<exists>x. verify C p h = Inr x"
  by (auto simp: bcrypt_ok_def verify_def or_false_def is_ValueError_def py_encode_def split: sum.splits)

text \<open>A password that the domain accepts can be hashed, and verifies against the hash.\<close>

definition no_nul :: "pystr \<Rightarrow> bool" where
  "no_nul s \<longleftrightarrow> 0 \<notin> set s"

lemma encode_no_nul:
  assumes "py_encode s = Inr b" and "no_nul s"
  shows "0 \<notin> set b"
proof -
  have "0 \<notin> set (utf8_char c)" if "c \<noteq> 0" for c using that by (simp add: utf8_char_def)
  moreover have "b = concat (map utf8_char s)" using assms(1) by (simp add: py_encode_def split: if_splits)
  moreover have "c \<noteq> 0" if "c \<in> set s" for c using that assms(2) unfolding no_nul_def by metis
  ultimately show ?thesis by auto
qed

lemma hash_text:
  assumes "bcrypt_ok C" and "hash C seed s = Inr h"
  shows "length h = 60" and "\<forall>c\<in>set h. 0 < c \<and> c < 128"
proof -
  obtain b h' where h': "c_hashpw C b (c_gensalt C ROUNDS seed) = Inr h'" "py_decode h' = Inr h"
    using assms(2) by (auto simp: hash_def split: sum.splits)
  then have a: "length h' = 60" "\<forall>c\<in>set h'. 0 < c \<and> c < 128" using assms(1) unfolding bcrypt_ok_def by blast+
  then have "py_decode h' = Inr h'" by (auto intro: py_decode_ascii)
  then show "length h = 60" "\<forall>c\<in>set h. 0 < c \<and> c < 128" using a h'(2) by simp_all
qed

lemma hash_verify:
  assumes "bcrypt_ok C" and "PlainPassword_new U s = Inr p" and "no_nul s"
  obtains h where "hash C seed s = Inr h" "verify C s h = Inr True" "length h = 60" "\<forall>c\<in>set h. 0 < c \<and> c < 128"
proof -
  obtain b where b: "py_encode s = Inr b" "length b \<le> 72"
    using assms(2) by (auto simp: PlainPassword_new_def MAX_BYTES_def split: if_splits sum.splits)
  obtain h where h: "c_hashpw C b (c_gensalt C ROUNDS seed) = Inr h" "length h = 60"
      "\<forall>x\<in>set h. 0 < x \<and> x < 128" "c_checkpw C b h = Inr True"
    using assms(1) b(2) encode_no_nul[OF b(1) assms(3)] unfolding bcrypt_ok_def by meson
  have "py_decode h = Inr h" "py_encode h = Inr h" using h(3) by (auto intro: py_decode_ascii encode_ascii)
  then show thesis using that[of h] b h by (simp add: hash_def verify_def)
qed

section \<open>A reference instance\<close>

text \<open>
  An instance that keeps the promises, with no claim to secrecy: a hash is part of the
  SHA-256 digest, a token is its claims and the secret written out with their lengths.
\<close>

definition ref_hash :: "nat list \<Rightarrow> nat list" where
  "ref_hash b = take 60 (sha256_hex b)"

definition ref_jwt_encode :: "jwt_claims \<Rightarrow> pystr \<Rightarrow> pystr" where
  "ref_jwt_encode c secret =
     [101, length (jc_sub c), length (jc_sid c), length (jc_jti c), if jc_exp c < 0 then 1 else 0, nat \<bar>jc_exp c\<bar>]
       @ jc_sub c @ jc_sid c @ jc_jti c @ secret @ [101]"

fun ref_jwt_decode :: "datetime \<Rightarrow> pystr \<Rightarrow> pystr \<Rightarrow> jwt_error + claims" where
  "ref_jwt_decode now (p # a # b # c # sg # e # rest) secret =
     (if drop (a + b + c) rest \<noteq> secret @ [101] then Inl OtherPyJWTError
      else if second (if sg = 1 then - int e else int e) \<le> now then Inl ExpiredSignatureError
      else Inr [lit ''sub'' \<mapsto> take a rest, lit ''sid'' \<mapsto> take b (drop a rest),
                lit ''jti'' \<mapsto> take c (drop (a + b) rest)])"
| "ref_jwt_decode now _ secret = Inl OtherPyJWTError"

definition ref_crypto :: crypto where
  "ref_crypto =
     \<lparr>c_gensalt = (\<lambda>rounds seed. [rounds, seed]), c_hashpw = (\<lambda>b salt. Inr (ref_hash b)),
      c_checkpw = (\<lambda>b h. Inr (h = ref_hash b)), c_jwt_encode = ref_jwt_encode, c_jwt_decode = ref_jwt_decode\<rparr>"

lemma ref_bcrypt_ok: "bcrypt_ok ref_crypto"
proof -
  have "0 < x \<and> x < 128" if "x \<in> set (ref_hash b)" for x b
    using sha256_hex_is_hex[of x b] in_set_takeD[OF that[unfolded ref_hash_def]] by (auto simp: is_hex_def)
  then show ?thesis by (auto simp: bcrypt_ok_def ref_crypto_def ref_hash_def)
qed

lemma ref_jwt_ok: "jwt_ok ref_crypto"
  by (auto simp: jwt_ok_def ref_crypto_def ref_jwt_encode_def claims_map_def printable_def)

end
