(* ===== verification/Handlers.thy ===== *)
theory Handlers
  imports StoreSystem Repositories Security
begin

text \<open>
  The six command handlers of \<open>auth_service/application/commands\<close>, over the world they act
  on: the Redis server, the database session of the request, the outbox of the mock e-mail
  service and the module's cached dummy hash. A handler takes the wired service (what
  \<open>RequestScope\<close> injects), the random and clock values it draws, and the command. The
  logging calls have no effect on the world and are left out; \<open>except Exception\<close> around an
  audit record is \<open>swallow\<close>, and the outer handler of each method re-raises.
\<close>

section \<open>The world and the service\<close>

record ('r, 'd) world =
  w_redis :: 'r
  w_db :: 'd
  w_outbox :: "(pystr \<times> pystr) list"
  w_dummy :: pystr

definition on_redis :: "('r, 'a) act \<Rightarrow> (('r, 'd) world, 'a) act" where
  "on_redis f w = (case f (w_redis w) of (res, r) \<Rightarrow> (res, w\<lparr>w_redis := r\<rparr>))"

definition on_db :: "('d, 'a) act \<Rightarrow> (('r, 'd) world, 'a) act" where
  "on_db f w = (case f (w_db w) of (res, d) \<Rightarrow> (res, w\<lparr>w_db := d\<rparr>))"

record ('r, 'd) service =
  sv_unicode :: unicode
  sv_exec :: "'r redis_exec"
  sv_sql :: "'d sql"
  sv_crypto :: crypto
  sv_secret :: pystr
  sv_access_minutes :: int
  sv_access_ttl :: int
  sv_refresh_ttl :: int
  sv_reset_minutes :: int

text \<open>What a handler draws from the random source and the clock.\<close>

record draws =
  dr_now :: datetime
  dr_now_iso :: pystr
  dr_seed :: nat
  dr_user_id :: uuid
  dr_session_id :: uuid
  dr_jti :: uuid
  dr_refresh :: pystr
  dr_reset :: pystr
  dr_reset_id :: uuid
  dr_event_id :: uuid
  dr_event_now :: datetime

section \<open>Commands\<close>

record RegisterUserCommand =
  ru_email :: pystr
  ru_password :: pystr

record AuthenticateUserCommand =
  au_email :: pystr
  au_password :: pystr
  au_device_info :: "pystr option"
  au_ip_address :: "pystr option"

record RefreshTokenCommand =
  rt_refresh_token :: pystr
  rt_ip_address :: "pystr option"

record RevokeSessionCommand =
  rs_session_id :: uuid
  rs_ip_address :: "pystr option"

record RequestPasswordResetCommand =
  rq_email :: pystr
  rq_ip_address :: "pystr option"

record ResetPasswordCommand =
  rp_token :: pystr
  rp_new_password :: pystr
  rp_ip_address :: "pystr option"

record TokenPairDTO =
  tp_access_token :: pystr
  tp_refresh_token :: pystr
  tp_session_id :: uuid
  tp_token_type :: pystr

section \<open>Audit records and mail\<close>

definition audit_event ::
  "draws \<Rightarrow> AuthEventType \<Rightarrow> uuid option \<Rightarrow> uuid option \<Rightarrow> pystr option \<Rightarrow> (pystr \<times> pystr) list \<Rightarrow> AuditEventDTO" where
  "audit_event dr ty uid sid ip meta =
     \<lparr>ev_id = dr_event_id dr, ev_type = ty, ev_occurred_at = dr_event_now dr, ev_user_id = uid,
      ev_session_id = sid, ev_ip_address = ip, ev_metadata = meta\<rparr>"

definition audit ::
  "('r, 'd) service \<Rightarrow> draws \<Rightarrow> AuthEventType \<Rightarrow> uuid option \<Rightarrow> uuid option \<Rightarrow> pystr option \<Rightarrow>
   (pystr \<times> pystr) list \<Rightarrow> (('r, 'd) world, unit) act" where
  "audit S dr ty uid sid ip meta =
     swallow (on_db (record_event (sv_sql S) (audit_event dr ty uid sid ip meta)))"

definition send_reset_email :: "pystr \<Rightarrow> pystr \<Rightarrow> (('r, 'd) world, unit) act" where
  "send_reset_email to_email reset_token w = (Inr (), w\<lparr>w_outbox := w_outbox w @ [(to_email, reset_token)]\<rparr>)"

section \<open>RegisterUserHandler\<close>

definition register_user :: "('r, 'd) service \<Rightarrow> draws \<Rightarrow> RegisterUserCommand \<Rightarrow> (('r, 'd) world, unit) act" where
  "register_user S dr cmd =
     bnd (lift_res (Email_new (sv_unicode S) (ru_email cmd))) (\<lambda>email.
     bnd (lift_res (PlainPassword_new (sv_unicode S) (ru_password cmd))) (\<lambda>_.
     bnd (on_db (find_by_email (sv_unicode S) (sv_sql S) email)) (\<lambda>existing.
       case existing of
         Some _ \<Rightarrow> raise_exn (UserAlreadyExistsError (lit ''An account with this email already exists''))
       | None \<Rightarrow>
           bnd (lift_res (hash (sv_crypto S) (dr_seed dr) (ru_password cmd))) (\<lambda>hashed.
             on_db (save_user (sv_sql S)
               \<lparr>user_id = dr_user_id dr, user_email = email, hashed_password = \<lparr>hashed_value = hashed\<rparr>,
                is_active = True, created_at = dr_now dr\<rparr>)))))"

section \<open>AuthenticateUserHandler\<close>

definition record_login_failed ::
  "('r, 'd) service \<Rightarrow> draws \<Rightarrow> uuid option \<Rightarrow> pystr option \<Rightarrow> string \<Rightarrow> (('r, 'd) world, unit) act" where
  "record_login_failed S dr uid ip reason =
     audit S dr LOGIN_FAILED uid None ip [(lit ''reason'', lit reason)]"

definition bad_credentials :: exn where
  "bad_credentials = InvalidCredentialsError (lit ''Invalid email or password'')"

text \<open>The dummy verification for an unknown address, with the hash cached in the module.\<close>

definition dummy_verify :: "('r, 'd) service \<Rightarrow> draws \<Rightarrow> pystr \<Rightarrow> (('r, 'd) world, unit) act" where
  "dummy_verify S dr password w =
     bnd (\<lambda>w. if w_dummy w = []
            then bnd (lift_res (hash (sv_crypto S) (dr_seed dr) (lit ''__dummy_timing_guard__'')))
                   (\<lambda>h w. (Inr h, w\<lparr>w_dummy := h\<rparr>)) w
            else (Inr (w_dummy w), w))
         (\<lambda>h. bnd (lift_res (verify (sv_crypto S) password h)) (\<lambda>_. ret ())) w"

definition device_text :: "pystr option \<Rightarrow> pystr option" where
  "device_text device_info =
     (let s = take 512 (case device_info of None \<Rightarrow> [] | Some d \<Rightarrow> d) in if s = [] then None else Some s)"

definition authenticate_user ::
  "('r, 'd) service \<Rightarrow> draws \<Rightarrow> AuthenticateUserCommand \<Rightarrow> (('r, 'd) world, TokenPairDTO) act" where
  "authenticate_user S dr cmd =
     bnd (lift_res (Email_new (sv_unicode S) (au_email cmd))) (\<lambda>email.
     bnd (on_db (find_by_email (sv_unicode S) (sv_sql S) email)) (\<lambda>found.
       case found of
         None \<Rightarrow>
           bnd (dummy_verify S dr (au_password cmd)) (\<lambda>_.
           bnd (record_login_failed S dr None (au_ip_address cmd) ''user_not_found'') (\<lambda>_.
             raise_exn bad_credentials))
       | Some user \<Rightarrow>
           if \<not> is_active user
           then bnd (record_login_failed S dr (Some (user_id user)) (au_ip_address cmd) ''inactive_account'') (\<lambda>_.
                  raise_exn bad_credentials)
           else
             bnd (lift_res (verify (sv_crypto S) (au_password cmd) (hashed_value (hashed_password user)))) (\<lambda>matches.
               if \<not> matches
               then bnd (record_login_failed S dr (Some (user_id user)) (au_ip_address cmd) ''invalid_password'') (\<lambda>_.
                      raise_exn bad_credentials)
               else
                 (case generate_access_token (sv_crypto S) (sv_secret S) (sv_access_minutes S) (dr_now dr)
                         (dr_jti dr) (user_id user) (dr_session_id dr) of
                    (access_token, jti) \<Rightarrow>
                      bnd (on_redis (create_session (sv_exec S) (dr_now_iso dr) (dr_session_id dr) (user_id user)
                             jti (dr_refresh dr) (device_text (au_device_info cmd)) (sv_access_ttl S) (sv_refresh_ttl S))) (\<lambda>_.
                      bnd (audit S dr LOGIN_SUCCESS (Some (user_id user)) (Some (dr_session_id dr)) (au_ip_address cmd)
                             [(lit ''device_info'', case device_text (au_device_info cmd) of None \<Rightarrow> [] | Some d \<Rightarrow> d)]) (\<lambda>_.
                        ret \<lparr>tp_access_token = access_token, tp_refresh_token = dr_refresh dr,
                             tp_session_id = dr_session_id dr, tp_token_type = lit ''Bearer''\<rparr>))))))"

section \<open>RefreshTokenHandler\<close>

text \<open>The handler once the token has been found.\<close>

definition rotate_tokens ::
  "('r, 'd) service \<Rightarrow> draws \<Rightarrow> RefreshTokenCommand \<Rightarrow> uuid \<Rightarrow> uuid \<Rightarrow> (('r, 'd) world, TokenPairDTO) act" where
  "rotate_tokens S dr cmd uid sid =
     (case generate_access_token (sv_crypto S) (sv_secret S) (sv_access_minutes S) (dr_now dr) (dr_jti dr) uid sid of
        (new_access_token, new_jti) \<Rightarrow>
          bnd (on_redis (rotate_session (sv_unicode S) (sv_exec S) (dr_now_iso dr) sid (rt_refresh_token cmd)
                 new_jti (dr_refresh dr) (sv_access_ttl S) (sv_refresh_ttl S))) (\<lambda>_.
          bnd (audit S dr TOKEN_REFRESHED (Some uid) (Some sid) (rt_ip_address cmd) []) (\<lambda>_.
            ret \<lparr>tp_access_token = new_access_token, tp_refresh_token = dr_refresh dr,
                 tp_session_id = sid, tp_token_type = lit ''Bearer''\<rparr>)))"

definition refresh_token ::
  "('r, 'd) service \<Rightarrow> draws \<Rightarrow> RefreshTokenCommand \<Rightarrow> (('r, 'd) world, TokenPairDTO) act" where
  "refresh_token S dr cmd =
     bnd (on_redis (get_session_by_refresh_token (sv_exec S) (rt_refresh_token cmd))) (\<lambda>session_data.
       case session_data of
         None \<Rightarrow> raise_exn (InvalidTokenError (lit ''Invalid or expired refresh token''))
       | Some ref \<Rightarrow>
           bnd (lift_res (UUID (sv_unicode S) (ref_user_id ref))) (\<lambda>uid.
           bnd (lift_res (UUID (sv_unicode S) (ref_session_id ref))) (\<lambda>sid.
             rotate_tokens S dr cmd uid sid)))"

section \<open>RevokeSessionHandler\<close>

definition revoke_session_handler ::
  "('r, 'd) service \<Rightarrow> draws \<Rightarrow> RevokeSessionCommand \<Rightarrow> (('r, 'd) world, unit) act" where
  "revoke_session_handler S dr cmd =
     bnd (on_redis (get_session (sv_exec S) (rs_session_id cmd))) (\<lambda>session_data.
     bnd (case session_data of
            None \<Rightarrow> ret None
          | Some data \<Rightarrow>
              (case map_of data (lit ''user_id'') of
                 None \<Rightarrow> ret None
               | Some raw_uid \<Rightarrow> bnd (lift_res (UUID (sv_unicode S) raw_uid)) (\<lambda>uid. ret (Some uid)))) (\<lambda>uid.
     bnd (on_redis (revoke_session (sv_exec S) (rs_session_id cmd))) (\<lambda>_.
       audit S dr SESSION_REVOKED uid (Some (rs_session_id cmd)) (rs_ip_address cmd)
         [(lit ''reason'', lit ''user_logout'')])))"

section \<open>RequestPasswordResetHandler\<close>

text \<open>\<open>hashlib.sha256(token.encode()).hexdigest()\<close>\<close>

definition token_digest :: "pystr \<Rightarrow> exn + pystr" where
  "token_digest raw = (case py_encode raw of Inl e \<Rightarrow> Inl e | Inr b \<Rightarrow> Inr (sha256_hex b))"

definition request_password_reset ::
  "('r, 'd) service \<Rightarrow> draws \<Rightarrow> RequestPasswordResetCommand \<Rightarrow> (('r, 'd) world, unit) act" where
  "request_password_reset S dr cmd =
     bnd (lift_res (Email_new (sv_unicode S) (rq_email cmd))) (\<lambda>email.
     bnd (on_db (find_by_email (sv_unicode S) (sv_sql S) email)) (\<lambda>found.
       case found of
         None \<Rightarrow> raise_exn (UserNotFoundError (lit ''No user with email '' @ rq_email cmd))
       | Some user \<Rightarrow>
           bnd (on_db (delete_all_by_user_id (sv_sql S) (user_id user))) (\<lambda>_.
           bnd (lift_res (token_digest (dr_reset dr))) (\<lambda>token_hash.
           bnd (on_db (save_token (sv_sql S)
                  \<lparr>prt_id = dr_reset_id dr, prt_user_id = user_id user, prt_token = \<lparr>reset_value = token_hash\<rparr>,
                   expires_at = dr_now dr + minutes (sv_reset_minutes S), used = False\<rparr>)) (\<lambda>_.
           bnd (send_reset_email (email_value email) (dr_reset dr)) (\<lambda>_.
             audit S dr PASSWORD_RESET_REQUESTED (Some (user_id user)) None (rq_ip_address cmd) []))))))"

section \<open>ResetPasswordHandler\<close>

text \<open>The handler once the token is consumed and its user found.\<close>

definition complete_reset ::
  "('r, 'd) service \<Rightarrow> draws \<Rightarrow> ResetPasswordCommand \<Rightarrow> PasswordResetToken \<Rightarrow> User \<Rightarrow> (('r, 'd) world, unit) act" where
  "complete_reset S dr cmd reset_token user =
     bnd (lift_res (hash (sv_crypto S) (dr_seed dr) (rp_new_password cmd))) (\<lambda>new_hash.
     bnd (on_db (save_user (sv_sql S) (change_password \<lparr>hashed_value = new_hash\<rparr> user))) (\<lambda>_.
     bnd (on_db (save_token (sv_sql S) reset_token)) (\<lambda>_.
     bnd (on_redis (revoke_all_user_sessions (sv_unicode S) (sv_exec S) (user_id user))) (\<lambda>_.
       audit S dr PASSWORD_RESET_COMPLETED (Some (user_id user)) None (rp_ip_address cmd) []))))"

definition reset_password :: "('r, 'd) service \<Rightarrow> draws \<Rightarrow> ResetPasswordCommand \<Rightarrow> (('r, 'd) world, unit) act" where
  "reset_password S dr cmd =
     bnd (lift_res (PlainPassword_new (sv_unicode S) (rp_new_password cmd))) (\<lambda>_.
     bnd (lift_res (token_digest (rp_token cmd))) (\<lambda>token_hash.
     bnd (on_db (find_by_token (sv_sql S) token_hash)) (\<lambda>found.
       case found of
         None \<Rightarrow> raise_exn (TokenNotFoundError (lit ''Reset token not found''))
       | Some stored \<Rightarrow>
           bnd (lift_res (consume (dr_now dr) stored)) (\<lambda>reset_token.
           bnd (on_db (find_by_id (sv_unicode S) (sv_sql S) (prt_user_id reset_token))) (\<lambda>found_user.
             case found_user of
               None \<Rightarrow> raise_exn (UserNotFoundError (lit ''User associated with reset token not found''))
             | Some user \<Rightarrow> complete_reset S dr cmd reset_token user)))))"

end
