(* ===== verification/HandlerRuns.thy ===== *)
theory HandlerRuns
  imports Handlers
begin

text \<open>
  How the handlers run from a state in which the token store and the database are in
  order. The locale \<open>auth_service\<close> gathers what a deployment provides: a Redis server and
  a database session that behave as documented, the libraries' promises, and lifetimes of
  which the access token's is the shorter. The token store is used through its contract
  \<open>session_store\<close>, the repositories through theirs.
\<close>

locale auth_service =
  fixes S :: "('r, 'd) service" and view :: "'r \<Rightarrow> redis_view" and elapse :: "nat \<Rightarrow> 'r \<Rightarrow> 'r"
    and dview :: "'d \<Rightarrow> db_view" and text_ok inet_ok :: "pystr \<Rightarrow> bool"
  assumes server: "redis_sessions (sv_exec S) view elapse (sv_access_ttl S) (sv_refresh_ttl S)"
    and session: "sql_session (sv_sql S) dview text_ok inet_ok"
    and unicode: "unicode_ok (sv_unicode S)" and bcrypt: "bcrypt_ok (sv_crypto S)" and jwt: "jwt_ok (sv_crypto S)"

sublocale auth_service \<subseteq> redis_sessions "sv_exec S" view elapse "sv_unicode S" "sv_access_ttl S" "sv_refresh_ttl S"
  by (rule server)

sublocale auth_service \<subseteq> sql_repositories "sv_sql S" dview text_ok inet_ok "sv_unicode S"
  using session by (simp add: sql_repositories_def)

section \<open>States\<close>

definition good_state ::
  "('r, 'd) service \<Rightarrow> ('r \<Rightarrow> redis_view) \<Rightarrow> ('d \<Rightarrow> db_view) \<Rightarrow> ('r, 'd) world \<Rightarrow> bool" where
  "good_state S view dview w \<longleftrightarrow>
     store_ok (ms (sv_refresh_ttl S)) {} (view (w_redis w)) \<and> dbs_ok (sv_unicode S) (dview (w_db w))"

abbreviation the_db :: "('d \<Rightarrow> db_view) \<Rightarrow> ('r, 'd) world \<Rightarrow> db_state" where
  "the_db dview w \<equiv> db_abs (working (dview (w_db w)))"

abbreviation the_sessions :: "('r \<Rightarrow> redis_view) \<Rightarrow> ('r, 'd) world \<Rightarrow> sessions" where
  "the_sessions view w \<equiv> abs_store (view (w_redis w))"

lemma on_db_run [act_simps]: "f (w_db w) = (res, d) \<Longrightarrow> on_db f w = (res, w\<lparr>w_db := d\<rparr>)"
  by (simp add: on_db_def)

lemma on_redis_run [act_simps]: "f (w_redis w) = (res, r) \<Longrightarrow> on_redis f w = (res, w\<lparr>w_redis := r\<rparr>)"
  by (simp add: on_redis_def)

text \<open>No account has the address; no reset token has the digest.\<close>

definition email_free :: "db_state \<Rightarrow> Email \<Rightarrow> bool" where
  "email_free A e \<longleftrightarrow> (\<forall>i u. accounts A i = Some u \<longrightarrow> user_email u \<noteq> e)"

definition digest_free :: "db_state \<Rightarrow> pystr \<Rightarrow> bool" where
  "digest_free A h \<longleftrightarrow> (\<forall>k t. resets A k = Some t \<longrightarrow> reset_value (prt_token t) \<noteq> h)"

lemma email_freeD: "email_free A e \<Longrightarrow> accounts A i = Some u \<Longrightarrow> user_email u \<noteq> e"
  by (simp add: email_free_def)

lemma digest_freeD: "digest_free A h \<Longrightarrow> resets A k = Some t \<Longrightarrow> reset_value (prt_token t) \<noteq> h"
  by (simp add: digest_free_def)

text \<open>The draws of a login or a refresh are new to the store, and what it writes is text.\<close>

definition fresh_draws :: "('r \<Rightarrow> redis_view) \<Rightarrow> ('r, 'd) world \<Rightarrow> draws \<Rightarrow> bool" where
  "fresh_draws view w dr \<longleftrightarrow>
     fresh_pair (view (w_redis w)) (str_uuid (dr_jti dr)) (dr_refresh dr) \<and> py_text (dr_now_iso dr)"

text \<open>The three reasons a login fails for, each recorded with the account when there is one.\<close>

fun failure_reason :: "Email \<Rightarrow> db_state \<Rightarrow> uuid option \<Rightarrow> string \<Rightarrow> bool" where
  "failure_reason e A None reason \<longleftrightarrow> reason = ''user_not_found'' \<and> email_free A e"
| "failure_reason e A (Some i) reason \<longleftrightarrow>
     (\<exists>u. accounts A i = Some u \<and> user_email u = e \<and>
        reason = (if is_active u then ''invalid_password'' else ''inactive_account''))"

text \<open>
  What an audit record leaves of the session: a storable event is appended; any other one
  ends the transaction, which the handler does not notice.
\<close>

definition logged ::
  "unicode \<Rightarrow> ('d \<Rightarrow> db_view) \<Rightarrow> (pystr \<Rightarrow> bool) \<Rightarrow> (pystr \<Rightarrow> bool) \<Rightarrow> 'd \<Rightarrow> AuditEventDTO \<Rightarrow> 'd \<Rightarrow> bool" where
  "logged U dview text_ok inet_ok d0 ev d \<longleftrightarrow>
     (if event_storable text_ok inet_ok (db_abs (working (dview d0))) ev
      then dbs_ok U (dview d) \<and>
        db_abs (working (dview d)) =
          (db_abs (working (dview d0)))\<lparr>events := events (db_abs (working (dview d0))) @ [event_to_model ev]\<rparr>
      else dview d = dead (dview d0))"

lemma loggedD:
  assumes "logged U dview text_ok inet_ok d0 ev d" and "event_storable text_ok inet_ok (db_abs (working (dview d0))) ev"
  shows "dbs_ok U (dview d)" and "accounts (db_abs (working (dview d))) = accounts (db_abs (working (dview d0)))"
    and "resets (db_abs (working (dview d))) = resets (db_abs (working (dview d0)))"
    and "events (db_abs (working (dview d))) = events (db_abs (working (dview d0))) @ [event_to_model ev]"
  using assms by (simp_all add: logged_def)

text \<open>An audit record never raises and touches only the database session.\<close>

lemma audit_result: "\<exists>d. audit S dr ty uid sid ip meta w = (Inr (), w\<lparr>w_db := d\<rparr>)"
  by (cases "record_event (sv_sql S) (audit_event dr ty uid sid ip meta) (w_db w)")
    (auto simp: audit_def swallow_def on_db_run)

lemma bnd_audit: "\<exists>d. bnd (audit S dr ty uid sid ip meta) f w = f () (w\<lparr>w_db := d\<rparr>)"
  using audit_result[of S dr ty uid sid ip meta w] by (metis bnd_Inr)

context auth_service
begin

abbreviation "good \<equiv> good_state S view dview"
abbreviation "db \<equiv> the_db dview"
abbreviation "sess \<equiv> the_sessions view"
abbreviation "recorded \<equiv> logged (sv_unicode S) dview text_ok inet_ok"

lemma goodD:
  assumes "good w"
  shows "store_ok (ms (sv_refresh_ttl S)) {} (view (w_redis w))" and "dbs_ok (sv_unicode S) (dview (w_db w))"
  using assms by (simp_all add: good_state_def)

lemma goodI:
  "store_ok (ms (sv_refresh_ttl S)) {} (view (w_redis w)) \<Longrightarrow> dbs_ok (sv_unicode S) (dview (w_db w)) \<Longrightarrow> good w"
  by (simp add: good_state_def)

lemma audit_run:
  assumes ok: "dbs_ok (sv_unicode S) (dview (w_db w))"
  obtains d where "audit S dr ty uid sid ip meta w = (Inr (), w\<lparr>w_db := d\<rparr>)"
    "recorded (w_db w) (audit_event dr ty uid sid ip meta) d"
proof (cases "event_storable text_ok inet_ok (db w) (audit_event dr ty uid sid ip meta)")
  case True
  then show ?thesis
    using repo.log_event[OF ok True] that by (fastforce simp: audit_def swallow_def on_db_run logged_def)
next
  case False
  then obtain m d where "record_event (sv_sql S) (audit_event dr ty uid sid ip meta) (w_db w) = (Inl (ExternalError m), d)"
      "dview d = dead (dview (w_db w))"
    using log_event_fail[OF ok False] by blast
  then show ?thesis using that[of d] False by (simp add: audit_def swallow_def on_db_run logged_def)
qed

section \<open>Registration\<close>

lemma register_run:
  assumes g: "good w" and e: "Email_new (sv_unicode S) (ru_email cmd) = Inr e"
    and p: "PlainPassword_new (sv_unicode S) (ru_password cmd) = Inr p" and nul: "no_nul (ru_password cmd)"
    and new: "email_free (db w) e" and len: "length (email_value e) \<le> 255"
    and id: "accounts (db w) (dr_user_id dr) = None"
  obtains w' h where "register_user S dr cmd w = (Inr (), w')" "good w'" "w_redis w' = w_redis w"
    "w_outbox w' = w_outbox w" "verify (sv_crypto S) (ru_password cmd) h = Inr True" "length h = 60"
    "db w' = (db w)\<lparr>accounts := (accounts (db w))(dr_user_id dr \<mapsto>
      \<lparr>user_id = dr_user_id dr, user_email = e, hashed_password = \<lparr>hashed_value = h\<rparr>,
       is_active = True, created_at = dr_now dr\<rparr>)\<rparr>"
proof -
  obtain x d1 where f: "find_by_email (sv_unicode S) (sv_sql S) e (w_db w) = (Inr x, d1)"
      "dbs_ok (sv_unicode S) (dview d1)" "db_abs (working (dview d1)) = db w"
      "\<forall>u. x = Some u \<longleftrightarrow> accounts (db w) (user_id u) = Some u \<and> user_email u = e"
    using repo.find_email[OF goodD(2)[OF g] unicode e] by blast
  have x: "x = None" using f(4) email_freeD[OF new] by (cases x) auto
  obtain h where h: "hash (sv_crypto S) (dr_seed dr) (ru_password cmd) = Inr h"
      "verify (sv_crypto S) (ru_password cmd) h = Inr True" "length h = 60" "\<forall>c\<in>set h. 0 < c \<and> c < 128"
    using hash_verify[OF bcrypt p nul] .
  let ?u = "\<lparr>user_id = dr_user_id dr, user_email = e, hashed_password = \<lparr>hashed_value = h\<rparr>,
       is_active = True, created_at = dr_now dr\<rparr>"
  have "stored_email (sv_unicode S) (email_value e)"
    using Email_new_idem[OF unicode e] len by (simp add: stored_email_def)
  then have "user_storable (sv_unicode S) text_ok (db_abs (working (dview d1))) ?u"
    using f(3) h(3,4) len email_freeD[OF new] text_ascii[of h] by (auto simp: user_storable_def)
  then obtain d2 where d2: "save_user (sv_sql S) ?u d1 = (Inr (), d2)" "dbs_ok (sv_unicode S) (dview d2)"
      "db_abs (working (dview d2)) = (db_abs (working (dview d1)))\<lparr>accounts := (accounts (db_abs (working (dview d1))))(dr_user_id dr \<mapsto> ?u)\<rparr>"
    using repo.save[OF f(2) unicode] by fastforce
  have "register_user S dr cmd w = (Inr (), w\<lparr>w_db := d2\<rparr>)"
    by (simp add: register_user_def e p x h(1) on_db_def f(1)[unfolded x] d2(1))
  then show thesis
    using that[of "w\<lparr>w_db := d2\<rparr>" h] d2 f(3) h goodD(1)[OF g] by (simp add: good_state_def)
qed

section \<open>Login\<close>

lemma found_account:
  assumes g: "good w" and e: "Email_new (sv_unicode S) s = Inr e"
    and u: "accounts (db w) i = Some u" "user_email u = e"
  obtains d where "find_by_email (sv_unicode S) (sv_sql S) e (w_db w) = (Inr (Some u), d)"
    "dbs_ok (sv_unicode S) (dview d)" "db_abs (working (dview d)) = db w"
proof -
  obtain x d where f: "find_by_email (sv_unicode S) (sv_sql S) e (w_db w) = (Inr x, d)"
      "dbs_ok (sv_unicode S) (dview d)" "db_abs (working (dview d)) = db w"
      "\<forall>u. x = Some u \<longleftrightarrow> accounts (db w) (user_id u) = Some u \<and> user_email u = e"
    using repo.find_email[OF goodD(2)[OF g] unicode e] by blast
  have "accounts (db w) (user_id u) = Some u" using repo.account_id[OF goodD(2)[OF g] u(1)] u(1) by simp
  then have "x = Some u" using f(4) u(2) by simp
  then show thesis using that f by simp
qed

lemma no_account:
  assumes g: "good w" and e: "Email_new (sv_unicode S) s = Inr e"
    and none: "email_free (db w) e"
  obtains d where "find_by_email (sv_unicode S) (sv_sql S) e (w_db w) = (Inr None, d)"
    "dbs_ok (sv_unicode S) (dview d)" "db_abs (working (dview d)) = db w"
proof -
  obtain x d where f: "find_by_email (sv_unicode S) (sv_sql S) e (w_db w) = (Inr x, d)"
      "dbs_ok (sv_unicode S) (dview d)" "db_abs (working (dview d)) = db w"
      "\<forall>u. x = Some u \<longleftrightarrow> accounts (db w) (user_id u) = Some u \<and> user_email u = e"
    using repo.find_email[OF goodD(2)[OF g] unicode e] by blast
  have "x = None" using f(4) email_freeD[OF none] by (cases x) auto
  then show thesis using that f by simp
qed

lemma login_run:
  assumes g: "good w" and e: "Email_new (sv_unicode S) (au_email cmd) = Inr e"
    and u: "accounts (db w) i = Some u" "user_email u = e" "is_active u"
    and v: "verify (sv_crypto S) (au_password cmd) (hashed_value (hashed_password u)) = Inr True"
    and fresh: "fresh_draws view w dr" "fresh_session (view (w_redis w)) (dr_session_id dr)"
    and dev: "pred_option py_text (device_text (au_device_info cmd))"
  obtains r d0 d where "authenticate_user S dr cmd w =
      (Inr \<lparr>tp_access_token = fst (generate_access_token (sv_crypto S) (sv_secret S) (sv_access_minutes S) (dr_now dr)
              (dr_jti dr) (user_id u) (dr_session_id dr)),
            tp_refresh_token = dr_refresh dr, tp_session_id = dr_session_id dr, tp_token_type = lit ''Bearer''\<rparr>,
       w\<lparr>w_redis := r, w_db := d\<rparr>)"
    "store_ok (ms (sv_refresh_ttl S)) {} (view r)"
    "abs_store (view r) = a_create (str_uuid (dr_session_id dr)) (str_uuid (user_id u)) (str_uuid (dr_jti dr)) (dr_refresh dr) (sess w)"
    "db_abs (working (dview d0)) = db w"
    "recorded d0 (audit_event dr LOGIN_SUCCESS (Some (user_id u)) (Some (dr_session_id dr))
       (au_ip_address cmd) [(lit ''device_info'', case device_text (au_device_info cmd) of None \<Rightarrow> [] | Some d \<Rightarrow> d)]) d"
proof -
  obtain d1 where f: "find_by_email (sv_unicode S) (sv_sql S) e (w_db w) = (Inr (Some u), d1)"
    "dbs_ok (sv_unicode S) (dview d1)" "db_abs (working (dview d1)) = db w"
    using found_account[OF g e u(1,2)] .
  have fr: "fresh_pair (view (w_redis w)) (str_uuid (dr_jti dr)) (dr_refresh dr)" "py_text (dr_now_iso dr)"
    using fresh(1) by (simp_all add: fresh_draws_def)
  obtain r where r: "create_session (sv_exec S) (dr_now_iso dr) (dr_session_id dr) (user_id u) (str_uuid (dr_jti dr))
        (dr_refresh dr) (device_text (au_device_info cmd)) (sv_access_ttl S) (sv_refresh_ttl S) (w_redis w) = (Inr (), r)"
      "store_ok (ms (sv_refresh_ttl S)) {} (view r)"
      "abs_store (view r) = a_create (str_uuid (dr_session_id dr)) (str_uuid (user_id u)) (str_uuid (dr_jti dr)) (dr_refresh dr) (sess w)"
    using rts.create[OF goodD(1)[OF g] fresh(2) fr dev] by blast
  let ?w = "w\<lparr>w_db := d1, w_redis := r\<rparr>"
  let ?m = "[(lit ''device_info'', case device_text (au_device_info cmd) of None \<Rightarrow> [] | Some d \<Rightarrow> d)]"
  obtain d where a: "audit S dr LOGIN_SUCCESS (Some (user_id u)) (Some (dr_session_id dr)) (au_ip_address cmd) ?m ?w =
        (Inr (), ?w\<lparr>w_db := d\<rparr>)"
      "recorded (w_db ?w) (audit_event dr LOGIN_SUCCESS (Some (user_id u)) (Some (dr_session_id dr)) (au_ip_address cmd) ?m) d"
    using audit_run[of ?w dr LOGIN_SUCCESS "Some (user_id u)" "Some (dr_session_id dr)" "au_ip_address cmd" ?m] f(2) by auto
  have "authenticate_user S dr cmd w =
      (Inr \<lparr>tp_access_token = fst (generate_access_token (sv_crypto S) (sv_secret S) (sv_access_minutes S) (dr_now dr)
              (dr_jti dr) (user_id u) (dr_session_id dr)),
            tp_refresh_token = dr_refresh dr, tp_session_id = dr_session_id dr, tp_token_type = lit ''Bearer''\<rparr>,
       w\<lparr>w_redis := r, w_db := d\<rparr>)"
    using a(1) by (simp add: authenticate_user_def e on_db_def f(1) u(3) v generate_access_token_def on_redis_def r(1) ret_def)
  then show thesis using that[of d r d1] r(2,3) a(2) f(3) by auto
qed

text \<open>The dummy verification always comes back, and keeps its hash.\<close>

lemma dummy_run: "\<exists>c. dummy_verify S dr password w = (Inr (), w\<lparr>w_dummy := c\<rparr>)"
proof -
  have enc: "py_encode (lit ''__dummy_timing_guard__'') = Inr (lit ''__dummy_timing_guard__'')"
    by (rule encode_ascii) (simp add: lit_def)
  have "0 \<notin> set (lit ''__dummy_timing_guard__'')" "length (lit ''__dummy_timing_guard__'') \<le> 72"
    by (simp_all add: lit_def)
  then obtain b where b: "c_hashpw (sv_crypto S) (lit ''__dummy_timing_guard__'') (c_gensalt (sv_crypto S) ROUNDS (dr_seed dr)) = Inr b"
      "\<forall>x\<in>set b. 0 < x \<and> x < 128"
    using bcrypt unfolding bcrypt_ok_def by meson
  then have "hash (sv_crypto S) (dr_seed dr) (lit ''__dummy_timing_guard__'') = Inr b"
    using enc py_decode_ascii[of b] by (simp add: hash_def)
  moreover obtain x where "verify (sv_crypto S) password b = Inr x" using verify_total[OF bcrypt] by blast
  moreover obtain y where "verify (sv_crypto S) password (w_dummy w) = Inr y" using verify_total[OF bcrypt] by blast
  ultimately show ?thesis
    by (cases "w_dummy w = []")
      (auto simp: dummy_verify_def bnd_def lift_res_def ret_def intro: exI[of _ b] exI[of _ "w_dummy w"])
qed

lemma record_failed_run:
  assumes "dbs_ok (sv_unicode S) (dview (w_db w))"
  obtains d where "bnd (record_login_failed S dr uid ip reason) (\<lambda>_. raise_exn x) w = (Inl x, w\<lparr>w_db := d\<rparr>)"
    "recorded (w_db w) (audit_event dr LOGIN_FAILED uid None ip [(lit ''reason'', lit reason)]) d"
  by (rule audit_run[OF assms, of dr LOGIN_FAILED uid None ip "[(lit ''reason'', lit reason)]"])
    (rule that, simp_all add: record_login_failed_def raise_exn_def)

lemma login_failure_run:
  assumes g: "good w" and e: "Email_new (sv_unicode S) (au_email cmd) = Inr e"
    and bad: "\<forall>i u. accounts (db w) i = Some u \<longrightarrow> user_email u = e \<longrightarrow> is_active u \<longrightarrow>
      verify (sv_crypto S) (au_password cmd) (hashed_value (hashed_password u)) = Inr False"
  shows "\<exists>d0 d c uid reason. authenticate_user S dr cmd w = (Inl bad_credentials, w\<lparr>w_db := d, w_dummy := c\<rparr>) \<and>
    db_abs (working (dview d0)) = db w \<and> failure_reason e (db w) uid reason \<and>
    recorded d0 (audit_event dr LOGIN_FAILED uid None (au_ip_address cmd) [(lit ''reason'', lit reason)]) d"
proof (cases "email_free (db w) e")
  case False
  then obtain i u where u: "accounts (db w) i = Some u" "user_email u = e" by (auto simp: email_free_def)
  obtain d1 where f: "find_by_email (sv_unicode S) (sv_sql S) e (w_db w) = (Inr (Some u), d1)"
      "dbs_ok (sv_unicode S) (dview d1)" "db_abs (working (dview d1)) = db w"
    using found_account[OF g e u] .
  have i: "user_id u = i" using repo.account_id[OF goodD(2)[OF g] u(1)] by simp
  let ?reason = "if is_active u then ''invalid_password'' else ''inactive_account''"
  obtain d where d: "bnd (record_login_failed S dr (Some (user_id u)) (au_ip_address cmd) ?reason) (\<lambda>_. raise_exn bad_credentials :: (_, TokenPairDTO) act)
        (w\<lparr>w_db := d1\<rparr>) = (Inl bad_credentials, w\<lparr>w_db := d\<rparr>)"
      "recorded d1 (audit_event dr LOGIN_FAILED (Some (user_id u)) None (au_ip_address cmd) [(lit ''reason'', lit ?reason)]) d"
    using record_failed_run[of "w\<lparr>w_db := d1\<rparr>" dr "Some (user_id u)" "au_ip_address cmd" ?reason bad_credentials] f(2) by auto
  have "authenticate_user S dr cmd w = (Inl bad_credentials, w\<lparr>w_db := d\<rparr>)"
    using d(1) bad u by (cases "is_active u") (simp_all add: authenticate_user_def e on_db_def f(1))
  then have "authenticate_user S dr cmd w = (Inl bad_credentials, w\<lparr>w_db := d, w_dummy := w_dummy w\<rparr>)" by simp
  moreover have "failure_reason e (db w) (Some (user_id u)) ?reason" using u i by simp
  ultimately show ?thesis using d(2) f(3) by blast
next
  case True
  then obtain d1 where f: "find_by_email (sv_unicode S) (sv_sql S) e (w_db w) = (Inr None, d1)"
      "dbs_ok (sv_unicode S) (dview d1)" "db_abs (working (dview d1)) = db w"
    using no_account[OF g e] by blast
  obtain c where c: "dummy_verify S dr (au_password cmd) (w\<lparr>w_db := d1\<rparr>) = (Inr (), w\<lparr>w_db := d1, w_dummy := c\<rparr>)"
    using dummy_run[of dr "au_password cmd" "w\<lparr>w_db := d1\<rparr>"] by auto
  let ?w = "w\<lparr>w_db := d1, w_dummy := c\<rparr>"
  obtain d where d: "bnd (record_login_failed S dr None (au_ip_address cmd) ''user_not_found'') (\<lambda>_. raise_exn bad_credentials :: (_, TokenPairDTO) act) ?w =
        (Inl bad_credentials, ?w\<lparr>w_db := d\<rparr>)"
      "recorded d1 (audit_event dr LOGIN_FAILED None None (au_ip_address cmd) [(lit ''reason'', lit ''user_not_found'')]) d"
    using record_failed_run[of ?w dr None "au_ip_address cmd" "''user_not_found''" bad_credentials] f(2) by auto
  have "authenticate_user S dr cmd w = (Inl bad_credentials, ?w\<lparr>w_db := d\<rparr>)"
    using d(1) c by (simp add: authenticate_user_def e on_db_def f(1))
  moreover have "?w\<lparr>w_db := d\<rparr> = w\<lparr>w_db := d, w_dummy := c\<rparr>" by simp
  moreover have "failure_reason e (db w) None ''user_not_found''" using True by simp
  ultimately show ?thesis using d(2) f(3) by metis
qed

section \<open>Refresh\<close>

lemma refresh_handler_run:
  assumes g: "good w" and t: "refresh (sess w) (rt_refresh_token cmd) = Some (str_uuid uid, str_uuid sid)"
    and tx: "py_text (rt_refresh_token cmd)" and fresh: "fresh_draws view w dr"
  obtains r d where "refresh_token S dr cmd w =
      (Inr \<lparr>tp_access_token = fst (generate_access_token (sv_crypto S) (sv_secret S) (sv_access_minutes S) (dr_now dr)
              (dr_jti dr) uid sid),
            tp_refresh_token = dr_refresh dr, tp_session_id = sid, tp_token_type = lit ''Bearer''\<rparr>,
       w\<lparr>w_redis := r, w_db := d\<rparr>)"
    "store_ok (ms (sv_refresh_ttl S)) {} (view r)"
    "abs_store (view r) = a_rotate (str_uuid sid) (str_uuid uid) (str_uuid (dr_jti dr)) (dr_refresh dr) (sess w)"
    "recorded (w_db w) (audit_event dr TOKEN_REFRESHED (Some uid) (Some sid) (rt_ip_address cmd) []) d"
proof -
  let ?ref = "\<lparr>ref_user_id = str_uuid uid, ref_session_id = str_uuid sid\<rparr>"
  obtain r1 where l: "get_session_by_refresh_token (sv_exec S) (rt_refresh_token cmd) (w_redis w) = (Inr (Some ?ref), r1)"
    using rts.look_up[OF goodD(1)[OF g] tx] t by auto
  have fr: "fresh_pair (view (w_redis w)) (str_uuid (dr_jti dr)) (dr_refresh dr)" "py_text (dr_now_iso dr)"
    using fresh by (simp_all add: fresh_draws_def)
  have sid: "UUID (sv_unicode S) (ref_session_id ?ref) = Inr sid" by (simp add: UUID_str)
  obtain uid' r where r: "?ref = \<lparr>ref_user_id = str_uuid uid', ref_session_id = str_uuid sid\<rparr>"
    "rotate_session (sv_unicode S) (sv_exec S) (dr_now_iso dr) sid (rt_refresh_token cmd) (str_uuid (dr_jti dr)) (dr_refresh dr)
       (sv_access_ttl S) (sv_refresh_ttl S) r1 = (Inr (), r)"
    "store_ok (ms (sv_refresh_ttl S)) {} (view r)"
    "abs_store (view r) = a_rotate (str_uuid sid) (str_uuid uid') (str_uuid (dr_jti dr)) (dr_refresh dr) (sess w)"
    using refresh_run[OF goodD(1)[OF g] l sid fr] by metis
  let ?w = "w\<lparr>w_redis := r\<rparr>"
  obtain d where a: "audit S dr TOKEN_REFRESHED (Some uid) (Some sid) (rt_ip_address cmd) [] ?w = (Inr (), ?w\<lparr>w_db := d\<rparr>)"
      "recorded (w_db ?w) (audit_event dr TOKEN_REFRESHED (Some uid) (Some sid) (rt_ip_address cmd) []) d"
    using audit_run[of ?w dr TOKEN_REFRESHED "Some uid" "Some sid" "rt_ip_address cmd" "[]"] goodD(2)[OF g] by auto
  have "refresh_token S dr cmd w =
      (Inr \<lparr>tp_access_token = fst (generate_access_token (sv_crypto S) (sv_secret S) (sv_access_minutes S) (dr_now dr)
              (dr_jti dr) uid sid),
            tp_refresh_token = dr_refresh dr, tp_session_id = sid, tp_token_type = lit ''Bearer''\<rparr>,
       w\<lparr>w_redis := r, w_db := d\<rparr>)"
    using a(1) by (simp add: refresh_token_def rotate_tokens_def on_redis_def l UUID_str generate_access_token_def r(2) ret_def)
  then show thesis using that[of d r] r a(2) by simp
qed

lemma refresh_unknown_run:
  assumes ok: "store_ok (ms (sv_refresh_ttl S)) {} (view (w_redis w))" and t: "refresh (sess w) (rt_refresh_token cmd) = None" and tx: "py_text (rt_refresh_token cmd)"
  shows "\<exists>r. refresh_token S dr cmd w =
      (Inl (InvalidTokenError (lit ''Invalid or expired refresh token'')), w\<lparr>w_redis := r\<rparr>) \<and>
    abs_store (view r) = sess w \<and> store_ok (ms (sv_refresh_ttl S)) {} (view r)"
proof -
  obtain r where l: "get_session_by_refresh_token (sv_exec S) (rt_refresh_token cmd) (w_redis w) = (Inr None, r)"
      "store_ok (ms (sv_refresh_ttl S)) {} (view r)" "abs_store (view r) = a_take (rt_refresh_token cmd) (sess w)"
    using rts.look_up[OF ok tx] t by auto
  have "a_take (rt_refresh_token cmd) (sess w) = sess w" using t by (simp add: a_take_def abs_store_def fun_upd_idem)
  then show ?thesis using l by (intro exI[of _ r]) (simp add: refresh_token_def on_redis_def raise_exn_def)
qed

section \<open>Revocation\<close>

lemma revoke_handler_run:
  assumes g: "good w"
  obtains r d where "revoke_session_handler S dr cmd w = (Inr (), w\<lparr>w_redis := r, w_db := d\<rparr>)"
    "store_ok (ms (sv_refresh_ttl S)) {} (view r)" "abs_store (view r) = a_revoke {str_uuid (rs_session_id cmd)} (sess w)"
    "\<exists>uid. recorded (w_db w) (audit_event dr SESSION_REVOKED uid (Some (rs_session_id cmd)) (rs_ip_address cmd)
       [(lit ''reason'', lit ''user_logout'')]) d \<and>
     map_option str_uuid uid = owner (sess w) (str_uuid (rs_session_id cmd))"
proof -
  let ?sid = "rs_session_id cmd"
  obtain x r1 uid where s: "get_session (sv_exec S) ?sid (w_redis w) = (Inr x, r1)" "view r1 = view (w_redis w)"
    "(case x of None \<Rightarrow> ret None | Some data \<Rightarrow> (case map_of data (lit ''user_id'') of None \<Rightarrow> ret None
        | Some raw_uid \<Rightarrow> bnd (lift_res (UUID (sv_unicode S) raw_uid)) (\<lambda>uid. ret (Some uid)))) (w\<lparr>w_redis := r1\<rparr>) = (Inr uid, w\<lparr>w_redis := r1\<rparr>)"
    "map_option str_uuid uid = owner (sess w) (str_uuid ?sid)"
    using store_okD(1)[OF goodD(1)[OF g]]
  proof (cases rule: get_session_run[where sid = ?sid, consumes 1, case_names none some])
    case (none r')
    then show thesis using that[of None r' None] by (simp add: ret_def abs_store_def)
  next
    case (some data r' m)
    obtain u where "map_of data (lit ''user_id'') = Some (str_uuid u)"
      using session_data_fields[OF store_okD(1)[OF goodD(1)[OF g]] some(3)] by blast
    then show thesis using that[of "Some data" r' "Some u"] some by (simp add: UUID_str ret_def abs_store_def)
  qed
  have "store_ok (ms (sv_refresh_ttl S)) {} (view r1)" using goodD(1)[OF g] s(2) by simp
  then obtain r where r: "revoke_session (sv_exec S) ?sid r1 = (Inr (), r)"
      "store_ok (ms (sv_refresh_ttl S)) {} (view r)" "abs_store (view r) = a_revoke {str_uuid ?sid} (sess w)"
    using rts.revoke[of r1 ?sid] s(2) by auto
  let ?w = "w\<lparr>w_redis := r\<rparr>"
  obtain d where a: "audit S dr SESSION_REVOKED uid (Some ?sid) (rs_ip_address cmd) [(lit ''reason'', lit ''user_logout'')] ?w =
        (Inr (), ?w\<lparr>w_db := d\<rparr>)"
      "recorded (w_db ?w) (audit_event dr SESSION_REVOKED uid (Some ?sid) (rs_ip_address cmd) [(lit ''reason'', lit ''user_logout'')]) d"
    using audit_run[of ?w dr SESSION_REVOKED uid "Some ?sid" "rs_ip_address cmd" "[(lit ''reason'', lit ''user_logout'')]"]
      goodD(2)[OF g] by auto
  have "revoke_session_handler S dr cmd w = (Inr (), w\<lparr>w_redis := r, w_db := d\<rparr>)"
    using a(1) s(3) by (simp add: revoke_session_handler_def on_redis_def s(1) r(1))
  then show thesis using that[of d r] r a(2) s(4) by auto
qed

section \<open>Password reset\<close>

lemma digest_text:
  assumes "token_digest raw = Inr h"
  shows "length h = 64" and "text_ok h"
proof -
  obtain b where "h = sha256_hex b" using assms by (auto simp: token_digest_def split: sum.splits)
  then show "length h = 64" "text_ok h"
    using text_ascii[of h] sha256_hex_is_hex by (fastforce simp: is_hex_def)+
qed

lemma request_run:
  assumes g: "good w" and e: "Email_new (sv_unicode S) (rq_email cmd) = Inr e"
    and u: "accounts (db w) i = Some u" "user_email u = e"
    and h: "token_digest (dr_reset dr) = Inr h"
    and new: "resets (db w) (dr_reset_id dr) = None"
      "digest_free (db w) h"
  obtains d0 d where "request_password_reset S dr cmd w =
      (Inr (), w\<lparr>w_db := d, w_outbox := w_outbox w @ [(email_value e, dr_reset dr)]\<rparr>)"
    "dbs_ok (sv_unicode S) (dview d0)"
    "db_abs (working (dview d0)) = (db w)\<lparr>resets := (\<lambda>k. case resets (db w) k of
        Some t \<Rightarrow> if prt_user_id t = user_id u then None else Some t | None \<Rightarrow> None)(dr_reset_id dr \<mapsto>
        \<lparr>prt_id = dr_reset_id dr, prt_user_id = user_id u, prt_token = \<lparr>reset_value = h\<rparr>,
         expires_at = dr_now dr + minutes (sv_reset_minutes S), used = False\<rparr>)\<rparr>"
    "recorded d0 (audit_event dr PASSWORD_RESET_REQUESTED (Some (user_id u)) None (rq_ip_address cmd) []) d"
proof -
  let ?U = "sv_unicode S"
  let ?tok = "\<lparr>prt_id = dr_reset_id dr, prt_user_id = user_id u, prt_token = \<lparr>reset_value = h\<rparr>,
     expires_at = dr_now dr + minutes (sv_reset_minutes S), used = False\<rparr>"
  let ?rest = "\<lambda>k. case resets (db w) k of Some t \<Rightarrow> if prt_user_id t = user_id u then None else Some t | None \<Rightarrow> None"
  obtain d1 where f: "find_by_email ?U (sv_sql S) e (w_db w) = (Inr (Some u), d1)"
    "dbs_ok ?U (dview d1)" "db_abs (working (dview d1)) = db w"
    using found_account[OF g e u] .
  have acc: "accounts (db w) (user_id u) = Some u" using repo.account_id[OF goodD(2)[OF g] u(1)] u(1) by simp
  obtain d2 where d2: "delete_all_by_user_id (sv_sql S) (user_id u) d1 = (Inr (), d2)" "dbs_ok ?U (dview d2)"
      "db_abs (working (dview d2)) = (db w)\<lparr>resets := ?rest\<rparr>"
    using repo.delete_tokens[OF f(2), of "user_id u"] f(3) by auto
  have "prt_token t \<noteq> \<lparr>reset_value = h\<rparr>" if "resets (db w) k = Some t" for k t using digest_freeD[OF new(2) that] by auto
  then have "token_storable text_ok (db_abs (working (dview d2))) ?tok"
    using acc new(1) digest_text[OF h] unfolding d2(3)
    by (auto simp: token_storable_def split: option.splits if_splits)
  then obtain d3 where d3: "save_token (sv_sql S) ?tok d2 = (Inr (), d3)" "dbs_ok ?U (dview d3)"
      "db_abs (working (dview d3)) = (db w)\<lparr>resets := ?rest(dr_reset_id dr \<mapsto> ?tok)\<rparr>"
    using repo.save_token[OF d2(2), of ?tok] d2(3) by auto
  let ?w = "w\<lparr>w_db := d3, w_outbox := w_outbox w @ [(email_value e, dr_reset dr)]\<rparr>"
  obtain d where a: "audit S dr PASSWORD_RESET_REQUESTED (Some (user_id u)) None (rq_ip_address cmd) [] ?w = (Inr (), ?w\<lparr>w_db := d\<rparr>)"
      "recorded (w_db ?w) (audit_event dr PASSWORD_RESET_REQUESTED (Some (user_id u)) None (rq_ip_address cmd) []) d"
    using audit_run[of ?w dr PASSWORD_RESET_REQUESTED "Some (user_id u)" None "rq_ip_address cmd" "[]"] d3(2) by auto
  have "request_password_reset S dr cmd w = (Inr (), ?w\<lparr>w_db := d\<rparr>)"
    using a(1) by (simp add: request_password_reset_def e on_db_def f(1) d2(1) h d3(1) send_reset_email_def)
  moreover have "?w\<lparr>w_db := d\<rparr> = w\<lparr>w_db := d, w_outbox := w_outbox w @ [(email_value e, dr_reset dr)]\<rparr>" by simp
  ultimately show thesis using that[of d d3] d3 a(2) by simp
qed

lemma found_token:
  assumes ok: "dbs_ok (sv_unicode S) (dview d)" and h: "token_digest raw = Inr h"
    and t: "resets (db_abs (working (dview d))) k = Some t" "reset_value (prt_token t) = h"
  obtains d1 where "find_by_token (sv_sql S) h d = (Inr (Some t), d1)" "dbs_ok (sv_unicode S) (dview d1)"
    "db_abs (working (dview d1)) = db_abs (working (dview d))"
proof -
  obtain x d1 where f: "find_by_token (sv_sql S) h d = (Inr x, d1)" "dbs_ok (sv_unicode S) (dview d1)"
      "db_abs (working (dview d1)) = db_abs (working (dview d))"
      "\<forall>y. x = Some y \<longleftrightarrow> resets (db_abs (working (dview d))) (prt_id y) = Some y \<and> reset_value (prt_token y) = h"
    using repo.find_token[OF ok digest_text(2)[OF h]] by blast
  have "prt_id t = k" using repo.reset_id[OF ok t(1)] by simp
  then have "x = Some t" using f(4) t by blast
  then show thesis using that f(1-3) by simp
qed

lemma unknown_token:
  assumes ok: "dbs_ok (sv_unicode S) (dview d)" and h: "token_digest raw = Inr h"
    and t: "digest_free (db_abs (working (dview d))) h"
  obtains d1 where "find_by_token (sv_sql S) h d = (Inr None, d1)" "dbs_ok (sv_unicode S) (dview d1)"
    "db_abs (working (dview d1)) = db_abs (working (dview d))"
proof -
  obtain x d1 where f: "find_by_token (sv_sql S) h d = (Inr x, d1)" "dbs_ok (sv_unicode S) (dview d1)"
      "db_abs (working (dview d1)) = db_abs (working (dview d))"
      "\<forall>y. x = Some y \<longleftrightarrow> resets (db_abs (working (dview d))) (prt_id y) = Some y \<and> reset_value (prt_token y) = h"
    using repo.find_token[OF ok digest_text(2)[OF h]] by blast
  have "x = None" using f(4) digest_freeD[OF t] by (cases x) auto
  then show thesis using that f(1-3) by simp
qed

lemma emails_unique:
  assumes ok: "dbs_ok (sv_unicode S) (dview d)"
    and u: "accounts (db_abs (working (dview d))) i = Some u" "accounts (db_abs (working (dview d))) j = Some u'"
      "user_email u' = user_email u"
  shows "j = i"
proof -
  have e: "Email_new (sv_unicode S) (email_value (user_email u)) = Inr (user_email u)"
    using repo.account_id[OF ok u(1)] by (simp add: stored_email_def)
  obtain x where "\<forall>v. x = Some v \<longleftrightarrow> accounts (db_abs (working (dview d))) (user_id v) = Some v \<and> user_email v = user_email u"
    using repo.find_email[OF ok unicode e] by blast
  moreover have "user_id u = i" "user_id u' = j" using repo.account_id[OF ok u(1)] repo.account_id[OF ok u(2)] by simp_all
  ultimately have "x = Some u" "x = Some u'" using u by auto
  then show ?thesis using \<open>user_id u = i\<close> \<open>user_id u' = j\<close> by simp
qed

lemma reset_run_hashed:
  assumes g: "good w" and p: "PlainPassword_new (sv_unicode S) (rp_new_password cmd) = Inr p"
    and nh: "hash (sv_crypto S) (dr_seed dr) (rp_new_password cmd) = Inr nh"
    and h: "token_digest (rp_token cmd) = Inr h"
    and t: "resets (db w) k = Some t" "reset_value (prt_token t) = h"
    and live: "dr_now dr < expires_at t" "\<not> used t"
    and u: "accounts (db w) (prt_user_id t) = Some u"
  obtains r d0 d where "reset_password S dr cmd w = (Inr (), w\<lparr>w_redis := r, w_db := d\<rparr>)"
    "store_ok (ms (sv_refresh_ttl S)) {} (view r)" "abs_store (view r) = a_revoke_all (str_uuid (user_id u)) (sess w)"
    "dbs_ok (sv_unicode S) (dview d0)"
    "db_abs (working (dview d0)) =
      (db w)\<lparr>accounts := (accounts (db w))(user_id u \<mapsto> u\<lparr>hashed_password := \<lparr>hashed_value = nh\<rparr>\<rparr>),
             resets := (resets (db w))(k \<mapsto> t\<lparr>used := True\<rparr>)\<rparr>"
    "recorded d0 (audit_event dr PASSWORD_RESET_COMPLETED (Some (user_id u)) None (rp_ip_address cmd) []) d"
proof -
  let ?U = "sv_unicode S"
  note ok = goodD(2)[OF g]
  obtain d1 where f: "find_by_token (sv_sql S) h (w_db w) = (Inr (Some t), d1)" "dbs_ok ?U (dview d1)"
      "db_abs (working (dview d1)) = db w"
    using found_token[OF ok h t] .
  obtain d2 where f2: "find_by_id ?U (sv_sql S) (prt_user_id t) d1 = (Inr (Some u), d2)" "dbs_ok ?U (dview d2)"
      "db_abs (working (dview d2)) = db w"
    using repo.find_id[OF f(2), of "prt_user_id t"] f(3) u by auto
  let ?u = "u\<lparr>hashed_password := \<lparr>hashed_value = nh\<rparr>\<rparr>" and ?t = "t\<lparr>used := True\<rparr>"
  have cu: "change_password \<lparr>hashed_value = nh\<rparr> u = ?u" by (simp add: change_password_def)
  have id: "user_id u = prt_user_id t" "prt_id t = k"
    using repo.account_id[OF ok u] repo.reset_id[OF ok t(1)] by simp_all
  have "user_storable ?U text_ok (db_abs (working (dview d2))) ?u"
    using repo.account_id[OF ok u] emails_unique[OF ok u] hash_text[OF bcrypt nh] text_ascii[of nh] f2(3) by (auto simp: user_storable_def)
  then obtain d3 where d3: "save_user (sv_sql S) ?u d2 = (Inr (), d3)" "dbs_ok ?U (dview d3)"
      "db_abs (working (dview d3)) = (db w)\<lparr>accounts := (accounts (db w))(user_id u \<mapsto> ?u)\<rparr>"
    using repo.save[OF f2(2) unicode, of ?u] f2(3) by auto
  have "token_storable text_ok (db_abs (working (dview d3))) ?t"
  proof -
    have one: "j = k" if t': "resets (db w) j = Some t'" "prt_token t' = prt_token t" for j t'
    proof -
      obtain d' where "find_by_token (sv_sql S) h (w_db w) = (Inr (Some t'), d')"
        using found_token[OF ok h t'(1)] t'(2) t(2) by auto
      then have "t' = t" using f(1) by simp
      then show ?thesis using repo.reset_id[OF ok t'(1)] id(2) by simp
    qed
    show ?thesis unfolding token_storable_def d3(3)
    proof (intro conjI allI impI)
      show "i = prt_id ?t" if "resets (db w\<lparr>accounts := (accounts (db w))(user_id u \<mapsto> ?u)\<rparr>) i = Some t'"
          "prt_token t' = prt_token ?t" for i t'
        using one[of i t'] that id(2) by simp
    qed (use id t u digest_text[OF h] in auto)
  qed
  then obtain d4 where d4: "save_token (sv_sql S) ?t d3 = (Inr (), d4)" "dbs_ok ?U (dview d4)"
      "db_abs (working (dview d4)) =
        (db w)\<lparr>accounts := (accounts (db w))(user_id u \<mapsto> ?u), resets := (resets (db w))(k \<mapsto> ?t)\<rparr>"
    using repo.save_token[OF d3(2), of ?t] d3(3) id(2) by auto
  obtain r where r: "revoke_all_user_sessions ?U (sv_exec S) (user_id u) (w_redis w) = (Inr (), r)"
      "store_ok (ms (sv_refresh_ttl S)) {} (view r)" "abs_store (view r) = a_revoke_all (str_uuid (user_id u)) (sess w)"
    using rts.revoke_all[OF goodD(1)[OF g], of "user_id u"] by blast
  let ?w = "w\<lparr>w_db := d4, w_redis := r\<rparr>"
  obtain d where a: "audit S dr PASSWORD_RESET_COMPLETED (Some (user_id u)) None (rp_ip_address cmd) [] ?w = (Inr (), ?w\<lparr>w_db := d\<rparr>)"
      "recorded (w_db ?w) (audit_event dr PASSWORD_RESET_COMPLETED (Some (user_id u)) None (rp_ip_address cmd) []) d"
    using audit_run[of ?w dr PASSWORD_RESET_COMPLETED "Some (user_id u)" None "rp_ip_address cmd" "[]"] d4(2) by auto
  have "consume (dr_now dr) t = Inr ?t" using live by (simp add: consume_def)
  then have "reset_password S dr cmd w = (Inr (), w\<lparr>w_redis := r, w_db := d\<rparr>)"
    using a(1) by (simp add: reset_password_def complete_reset_def p h on_db_def f(1) f2(1) nh cu d3(1) d4(1) on_redis_def r(1))
  then show thesis using that[of d r d4] r d4 a(2) by simp
qed

lemma reset_run:
  assumes g: "good w" and p: "PlainPassword_new (sv_unicode S) (rp_new_password cmd) = Inr p" "no_nul (rp_new_password cmd)"
    and h: "token_digest (rp_token cmd) = Inr h"
    and t: "resets (db w) k = Some t" "reset_value (prt_token t) = h"
    and live: "dr_now dr < expires_at t" "\<not> used t"
    and u: "accounts (db w) (prt_user_id t) = Some u"
  obtains r d0 d nh where "reset_password S dr cmd w = (Inr (), w\<lparr>w_redis := r, w_db := d\<rparr>)"
    "store_ok (ms (sv_refresh_ttl S)) {} (view r)" "abs_store (view r) = a_revoke_all (str_uuid (user_id u)) (sess w)"
    "dbs_ok (sv_unicode S) (dview d0)"
    "db_abs (working (dview d0)) =
      (db w)\<lparr>accounts := (accounts (db w))(user_id u \<mapsto> u\<lparr>hashed_password := \<lparr>hashed_value = nh\<rparr>\<rparr>),
             resets := (resets (db w))(k \<mapsto> t\<lparr>used := True\<rparr>)\<rparr>"
    "verify (sv_crypto S) (rp_new_password cmd) nh = Inr True"
    "recorded d0 (audit_event dr PASSWORD_RESET_COMPLETED (Some (user_id u)) None (rp_ip_address cmd) []) d"
proof -
  obtain nh where nh: "hash (sv_crypto S) (dr_seed dr) (rp_new_password cmd) = Inr nh" "verify (sv_crypto S) (rp_new_password cmd) nh = Inr True"
    using hash_verify[OF bcrypt p] by metis
  show thesis by (rule reset_run_hashed[OF g p(1) nh(1) h t live u]) (use that nh(2) in blast)
qed

lemma reset_refused:
  assumes g: "good w" and p: "PlainPassword_new (sv_unicode S) (rp_new_password cmd) = Inr p"
    and h: "token_digest (rp_token cmd) = Inr h"
    and t: "resets (db w) k = Some t" "reset_value (prt_token t) = h" and e: "consume (dr_now dr) t = Inl e"
  shows "\<exists>d. reset_password S dr cmd w = (Inl e, w\<lparr>w_db := d\<rparr>) \<and> good (w\<lparr>w_db := d\<rparr>) \<and> db (w\<lparr>w_db := d\<rparr>) = db w"
proof -
  obtain d where f: "find_by_token (sv_sql S) h (w_db w) = (Inr (Some t), d)" "dbs_ok (sv_unicode S) (dview d)"
      "db_abs (working (dview d)) = db w"
    using found_token[OF goodD(2)[OF g] h t] .
  have "reset_password S dr cmd w = (Inl e, w\<lparr>w_db := d\<rparr>)"
    by (simp add: reset_password_def p h on_db_def f(1) e raise_exn_def)
  then show ?thesis using f goodD(1)[OF g] by (intro exI[of _ d]) (simp add: good_state_def)
qed

text \<open>A live token and a password that cannot be hashed.\<close>

lemma reset_unhashed:
  assumes g: "good w" and p: "PlainPassword_new (sv_unicode S) (rp_new_password cmd) = Inr p"
    and e: "hash (sv_crypto S) (dr_seed dr) (rp_new_password cmd) = Inl e"
    and h: "token_digest (rp_token cmd) = Inr h"
    and t: "resets (db w) k = Some t" "reset_value (prt_token t) = h"
    and live: "dr_now dr < expires_at t" "\<not> used t"
  shows "\<exists>d. reset_password S dr cmd w = (Inl e, w\<lparr>w_db := d\<rparr>) \<and> good (w\<lparr>w_db := d\<rparr>) \<and> db (w\<lparr>w_db := d\<rparr>) = db w"
proof -
  obtain d1 where f: "find_by_token (sv_sql S) h (w_db w) = (Inr (Some t), d1)" "dbs_ok (sv_unicode S) (dview d1)"
      "db_abs (working (dview d1)) = db w"
    using found_token[OF goodD(2)[OF g] h t] .
  obtain u where "accounts (db w) (prt_user_id t) = Some u" using repo.reset_id[OF goodD(2)[OF g] t(1)] by auto
  then obtain d where f2: "find_by_id (sv_unicode S) (sv_sql S) (prt_user_id t) d1 = (Inr (Some u), d)" "dbs_ok (sv_unicode S) (dview d)"
      "db_abs (working (dview d)) = db w"
    using repo.find_id[OF f(2), of "prt_user_id t"] f(3) by auto
  have "consume (dr_now dr) t = Inr (t\<lparr>used := True\<rparr>)" using live by (simp add: consume_def)
  then have "reset_password S dr cmd w = (Inl e, w\<lparr>w_db := d\<rparr>)"
    by (simp add: reset_password_def complete_reset_def p h on_db_def f(1) f2(1) e raise_exn_def)
  then show ?thesis using f2(2,3) goodD(1)[OF g] by (intro exI[of _ d]) (simp add: good_state_def)
qed

lemma reset_unknown:
  assumes g: "good w" and p: "PlainPassword_new (sv_unicode S) (rp_new_password cmd) = Inr p"
    and h: "token_digest (rp_token cmd) = Inr h"
    and t: "digest_free (db w) h"
  shows "\<exists>d. reset_password S dr cmd w = (Inl (TokenNotFoundError (lit ''Reset token not found'')), w\<lparr>w_db := d\<rparr>) \<and>
    good (w\<lparr>w_db := d\<rparr>) \<and> db (w\<lparr>w_db := d\<rparr>) = db w"
proof -
  obtain d where f: "find_by_token (sv_sql S) h (w_db w) = (Inr None, d)" "dbs_ok (sv_unicode S) (dview d)"
      "db_abs (working (dview d)) = db w"
    using unknown_token[OF goodD(2)[OF g] h t] .
  have "reset_password S dr cmd w = (Inl (TokenNotFoundError (lit ''Reset token not found'')), w\<lparr>w_db := d\<rparr>)"
    by (simp add: reset_password_def p h on_db_def f(1) raise_exn_def)
  then show ?thesis using f goodD(1)[OF g] by (intro exI[of _ d]) (simp add: good_state_def)
qed

end

end
