(* ===== verification/HandlerProps.thy ===== *)
theory HandlerProps
  imports HandlerRuns
begin

text \<open>
  What the six use cases guarantee, over every deployment that keeps the promises of
  \<open>auth_service\<close>: registration and login, uniform login failures, refresh and replay,
  logout, the password reset flow and its error branches. A reference deployment, in which
  every part is executable, shows that the promises can be kept, and carries the examples.
\<close>

section \<open>A reference deployment\<close>

definition ref_service :: "(ref_state, db_view) service" where
  "ref_service =
     \<lparr>sv_unicode = latin_unicode, sv_exec = ref_exec, sv_sql = ref_sql, sv_crypto = ref_crypto,
      sv_secret = lit ''secret'', sv_access_minutes = 15, sv_access_ttl = 900, sv_refresh_ttl = 2592000,
      sv_reset_minutes = 15\<rparr>"

lemma ref_service_simps [simp]:
  "sv_unicode ref_service = latin_unicode" "sv_exec ref_service = ref_exec" "sv_sql ref_service = ref_sql"
  "sv_crypto ref_service = ref_crypto" "sv_secret ref_service = lit ''secret''" "sv_access_minutes ref_service = 15"
  "sv_access_ttl ref_service = 900" "sv_refresh_ttl ref_service = 2592000" "sv_reset_minutes ref_service = 15"
  by (simp_all add: ref_service_def)

abbreviation (input) id_view :: "db_view \<Rightarrow> db_view" where
  "id_view \<equiv> (\<lambda>V. V)"

interpretation refsvc: auth_service ref_service ref_view ref_elapse id_view ref_text_ok ref_inet_ok
  by (rule auth_service.intro)
    (simp_all add: refs.redis_sessions_axioms refdb.sql_session_axioms latin_unicode_ok ref_bcrypt_ok ref_jwt_ok)


text \<open>Its empty world, a user's draws, and the world after one registration.\<close>

definition no_tables :: tables where
  "no_tables = \<lparr>users = [], reset_tokens = [], auth_events = []\<rparr>"

definition empty_world :: "(ref_state, db_view) world" where
  "empty_world =
     \<lparr>w_redis = Map.empty, w_db = \<lparr>committed = no_tables, working = no_tables, active = True\<rparr>,
      w_outbox = [], w_dummy = []\<rparr>"

definition demo_draws :: draws where
  "demo_draws =
     \<lparr>dr_now = 0, dr_now_iso = lit ''2026'', dr_seed = 5, dr_user_id = 1, dr_session_id = 7, dr_jti = 3,
      dr_refresh = lit ''tok'', dr_reset = lit ''raw'', dr_reset_id = 11, dr_event_id = 21, dr_event_now = 0\<rparr>"

lemma empty_world_good: "good_state ref_service ref_view id_view empty_world"
  using refs.reach_ok[OF demo_start]
  by (simp add: good_state_def empty_world_def dbs_ok_def tables_ok_def no_tables_def)

lemma empty_world_simps [simp]:
  "w_redis empty_world = Map.empty" "accounts (the_db id_view empty_world) = Map.empty"
  "resets (the_db id_view empty_world) = Map.empty" "events (the_db id_view empty_world) = []"
  by (simp_all add: empty_world_def no_tables_def db_abs_def)

lemma demo_draws_simps [simp]:
  "dr_now demo_draws = 0" "dr_user_id demo_draws = 1" "dr_session_id demo_draws = 7" "dr_jti demo_draws = 3"
  "dr_reset demo_draws = lit ''raw''" "dr_reset_id demo_draws = 11" "dr_event_id demo_draws = 21"
  "dr_refresh demo_draws = lit ''tok''"
  by (simp_all add: demo_draws_def)

lemma demo_fresh_draws: "fresh_draws ref_view empty_world demo_draws" "fresh_session (ref_view Map.empty) 7"
  by (simp_all add: fresh_draws_def fresh_pair_def demo_draws_def token_text_uuid)

lemma demo_email_fits [simp]: "length (lit ''bob@x.org'') \<le> 255"
  by (simp add: lit_def)

lemma demo_no_nul [simp]: "no_nul (lit ''secret-42'')" "no_nul (lit ''secret-43'')"
  by (simp_all add: no_nul_def lit_def)

definition demo_world :: "(ref_state, db_view) world" where
  "demo_world = snd (register_user ref_service demo_draws \<lparr>ru_email = lit '' Bob@X.Org'', ru_password = lit ''secret-42''\<rparr> empty_world)"

definition demo_user :: User where
  "demo_user = the (accounts (the_db id_view demo_world) 1)"

lemma demo_world:
  "good_state ref_service ref_view id_view demo_world" "w_redis demo_world = Map.empty" "w_outbox demo_world = []"
  "the_db id_view demo_world = \<lparr>accounts = [1 \<mapsto> demo_user], resets = Map.empty, events = []\<rparr>"
  "user_id demo_user = 1" "user_email demo_user = \<lparr>email_value = lit ''bob@x.org''\<rparr>" "is_active demo_user"
  "verify ref_crypto (lit ''secret-42'') (hashed_value (hashed_password demo_user)) = Inr True"
proof -
  let ?c = "\<lparr>ru_email = lit '' Bob@X.Org'', ru_password = lit ''secret-42''\<rparr>"
  obtain w' h where r: "register_user ref_service demo_draws ?c empty_world = (Inr (), w')"
      "good_state ref_service ref_view id_view w'" "w_redis w' = w_redis empty_world" "w_outbox w' = w_outbox empty_world"
      "verify (sv_crypto ref_service) (ru_password ?c) h = Inr True"
      "the_db id_view w' = (the_db id_view empty_world)\<lparr>accounts := (accounts (the_db id_view empty_world))(dr_user_id demo_draws \<mapsto>
        \<lparr>user_id = dr_user_id demo_draws, user_email = \<lparr>email_value = lit ''bob@x.org''\<rparr>, hashed_password = \<lparr>hashed_value = h\<rparr>,
         is_active = True, created_at = dr_now demo_draws\<rparr>)\<rparr>"
    by (rule refsvc.register_run[OF empty_world_good, where cmd = ?c and e = "\<lparr>email_value = lit ''bob@x.org''\<rparr>" and
        p = "\<lparr>plain_value = lit ''secret-42''\<rparr>" and dr = demo_draws])
      (simp_all add: demo_emails demo_passwords email_free_def that)
  have w': "w' = demo_world" using r(1) by (simp add: demo_world_def)
  have db: "the_db id_view demo_world = \<lparr>accounts = [1 \<mapsto> demo_user], resets = Map.empty, events = []\<rparr>"
      and u: "demo_user = \<lparr>user_id = 1, user_email = \<lparr>email_value = lit ''bob@x.org''\<rparr>, hashed_password = \<lparr>hashed_value = h\<rparr>,
         is_active = True, created_at = 0\<rparr>"
    using r(6) by (simp_all add: w' demo_user_def db_abs_def empty_world_def no_tables_def)
  show "good_state ref_service ref_view id_view demo_world" "w_redis demo_world = Map.empty" "w_outbox demo_world = []"
    "the_db id_view demo_world = \<lparr>accounts = [1 \<mapsto> demo_user], resets = Map.empty, events = []\<rparr>"
    "user_id demo_user = 1" "user_email demo_user = \<lparr>email_value = lit ''bob@x.org''\<rparr>" "is_active demo_user"
    "verify ref_crypto (lit ''secret-42'') (hashed_value (hashed_password demo_user)) = Inr True"
    using r(2-5) by (simp_all add: w' u db[unfolded u] empty_world_def)
qed

lemma demo_world_fresh: "fresh_draws ref_view demo_world demo_draws" "fresh_session (ref_view (w_redis demo_world)) 7"
  using demo_fresh_draws by (simp_all add: fresh_draws_def demo_world(2))

section \<open>Registration and login\<close>

context auth_service
begin

text \<open>What a successful login or refresh returns works: the access token decodes to the
  user and the session and is on the allowlist, the refresh token finds the session.\<close>

lemma access_claims:
  assumes "iat \<le> now" and "now < second (iat + minutes (sv_access_minutes S))"
  shows "decode_access_token (sv_crypto S) (sv_secret S) now
      (fst (generate_access_token (sv_crypto S) (sv_secret S) (sv_access_minutes S) iat jti uid sid)) =
    Inr [lit ''sub'' \<mapsto> str_uuid uid, lit ''sid'' \<mapsto> str_uuid sid, lit ''jti'' \<mapsto> str_uuid jti]"
  using jwt assms by (simp add: jwt_ok_def decode_access_token_def generate_access_token_def claims_map_def)

lemma access_expired:
  assumes "iat \<le> now" and "second (iat + minutes (sv_access_minutes S)) \<le> now"
  shows "decode_access_token (sv_crypto S) (sv_secret S) now
      (fst (generate_access_token (sv_crypto S) (sv_secret S) (sv_access_minutes S) iat jti uid sid)) =
    Inl (TokenExpiredError (lit ''Access token has expired''))"
  using jwt assms by (simp add: jwt_ok_def decode_access_token_def generate_access_token_def)

lemma created_tokens_work:
  assumes "store_ok (ms (sv_refresh_ttl S)) {} (view r)"
    and "abs_store (view r) = a_create s u j t A" and "py_text j" "py_text t"
  shows "fst (is_access_jti_valid (sv_exec S) j r) = Inr True"
    and "fst (get_session_by_refresh_token (sv_exec S) t r) = Inr (Some \<lparr>ref_user_id = u, ref_session_id = s\<rparr>)"
  using rts.valid[OF assms(1,3)] rts.look_up[OF assms(1,4)] assms(2) by (auto simp: a_create_def)

lemma register_login:
  assumes g: "good w" and e: "Email_new (sv_unicode S) (ru_email c) = Inr e" "Email_new (sv_unicode S) (au_email c') = Inr e"
    and p: "PlainPassword_new (sv_unicode S) (ru_password c) = Inr p" "no_nul (ru_password c)" "au_password c' = ru_password c"
    and new: "email_free (db w) e" "length (email_value e) \<le> 255"
      "accounts (db w) (dr_user_id dr) = None"
    and fresh: "fresh_draws view w dr'" "fresh_session (view (w_redis w)) (dr_session_id dr')"
    and dev: "pred_option py_text (device_text (au_device_info c'))"
  shows "\<exists>w1 pair w2. register_user S dr c w = (Inr (), w1) \<and> w_redis w1 = w_redis w \<and>
    authenticate_user S dr' c' w1 = (Inr pair, w2) \<and>
    (\<forall>now. dr_now dr' \<le> now \<longrightarrow> now < second (dr_now dr' + minutes (sv_access_minutes S)) \<longrightarrow>
       decode_access_token (sv_crypto S) (sv_secret S) now (tp_access_token pair) =
         Inr [lit ''sub'' \<mapsto> str_uuid (dr_user_id dr), lit ''sid'' \<mapsto> str_uuid (tp_session_id pair),
              lit ''jti'' \<mapsto> str_uuid (dr_jti dr')]) \<and>
    fst (is_access_jti_valid (sv_exec S) (str_uuid (dr_jti dr')) (w_redis w2)) = Inr True \<and>
    fst (get_session_by_refresh_token (sv_exec S) (tp_refresh_token pair) (w_redis w2)) =
      Inr (Some \<lparr>ref_user_id = str_uuid (dr_user_id dr), ref_session_id = str_uuid (tp_session_id pair)\<rparr>)"
proof -
  obtain w1 h where r: "register_user S dr c w = (Inr (), w1)" "good w1" "w_redis w1 = w_redis w"
      "verify (sv_crypto S) (ru_password c) h = Inr True"
      "db w1 = (db w)\<lparr>accounts := (accounts (db w))(dr_user_id dr \<mapsto>
      \<lparr>user_id = dr_user_id dr, user_email = e, hashed_password = \<lparr>hashed_value = h\<rparr>,
       is_active = True, created_at = dr_now dr\<rparr>)\<rparr>"
    by (rule register_run[OF g e(1) p(1,2) new]) (rule that)
  let ?u = "\<lparr>user_id = dr_user_id dr, user_email = e, hashed_password = \<lparr>hashed_value = h\<rparr>,
       is_active = True, created_at = dr_now dr\<rparr>"
  have u: "accounts (db w1) (dr_user_id dr) = Some ?u" "user_email ?u = e" "is_active ?u"
      "verify (sv_crypto S) (au_password c') (hashed_value (hashed_password ?u)) = Inr True"
      "fresh_draws view w1 dr'" "fresh_session (view (w_redis w1)) (dr_session_id dr')"
    using r(3-5) p(3) fresh by (simp_all add: fresh_draws_def)
  obtain r' d where l: "authenticate_user S dr' c' w1 =
      (Inr \<lparr>tp_access_token = fst (generate_access_token (sv_crypto S) (sv_secret S) (sv_access_minutes S) (dr_now dr')
              (dr_jti dr') (user_id ?u) (dr_session_id dr')),
            tp_refresh_token = dr_refresh dr', tp_session_id = dr_session_id dr', tp_token_type = lit ''Bearer''\<rparr>,
       w1\<lparr>w_redis := r', w_db := d\<rparr>)"
    "store_ok (ms (sv_refresh_ttl S)) {} (view r')"
    "abs_store (view r') = a_create (str_uuid (dr_session_id dr')) (str_uuid (user_id ?u)) (str_uuid (dr_jti dr')) (dr_refresh dr') (sess w1)"
    by (rule login_run[OF r(2) e(2) u dev]) (rule that)
  have "py_text (str_uuid (dr_jti dr'))" "py_text (dr_refresh dr')"
    using fresh(1) by (simp_all add: fresh_draws_def fresh_pair_def token_text_def)
  then show ?thesis
    using r(1,3) l(1) created_tokens_work[OF l(2,3)] access_claims[of "dr_now dr'"] by simp
qed

end

text \<open>
  Claim C14. After a registration, a login with the same password and any spelling of the
  address succeeds: the access token decodes, until its expiry, to the new user and the
  new session, its id is on the allowlist, and the refresh token finds the session.
\<close>

theorem register_then_login:
  assumes "auth_service S view elapse dview text_ok inet_ok" and "good_state S view dview w"
    and "Email_new (sv_unicode S) (ru_email c) = Inr e" and "Email_new (sv_unicode S) (au_email c') = Inr e"
    and "PlainPassword_new (sv_unicode S) (ru_password c) = Inr p" and "no_nul (ru_password c)"
    and "au_password c' = ru_password c"
    and "email_free (the_db dview w) e" and "length (email_value e) \<le> 255"
    and "accounts (the_db dview w) (dr_user_id dr) = None"
    and "fresh_draws view w dr'" and "fresh_session (view (w_redis w)) (dr_session_id dr')"
    and "pred_option py_text (device_text (au_device_info c'))"
  shows "\<exists>w1 pair w2. register_user S dr c w = (Inr (), w1) \<and> w_redis w1 = w_redis w \<and>
    authenticate_user S dr' c' w1 = (Inr pair, w2) \<and>
    (\<forall>now. dr_now dr' \<le> now \<longrightarrow> now < second (dr_now dr' + minutes (sv_access_minutes S)) \<longrightarrow>
       decode_access_token (sv_crypto S) (sv_secret S) now (tp_access_token pair) =
         Inr [lit ''sub'' \<mapsto> str_uuid (dr_user_id dr), lit ''sid'' \<mapsto> str_uuid (tp_session_id pair),
              lit ''jti'' \<mapsto> str_uuid (dr_jti dr')]) \<and>
    fst (is_access_jti_valid (sv_exec S) (str_uuid (dr_jti dr')) (w_redis w2)) = Inr True \<and>
    fst (get_session_by_refresh_token (sv_exec S) (tp_refresh_token pair) (w_redis w2)) =
      Inr (Some \<lparr>ref_user_id = str_uuid (dr_user_id dr), ref_session_id = str_uuid (tp_session_id pair)\<rparr>)"
  by (rule auth_service.register_login[OF assms])

theorem register_then_login_witness:
  "\<exists>w1 pair w2. register_user ref_service demo_draws \<lparr>ru_email = lit '' Bob@X.Org'', ru_password = lit ''secret-42''\<rparr> empty_world = (Inr (), w1) \<and>
    authenticate_user ref_service demo_draws
      \<lparr>au_email = lit ''bob@x.org'', au_password = lit ''secret-42'', au_device_info = None, au_ip_address = None\<rparr> w1 = (Inr pair, w2) \<and>
    fst (is_access_jti_valid ref_exec (str_uuid 3) (w_redis w2)) = Inr True"
  using register_then_login[OF refsvc.auth_service_axioms empty_world_good,
      where c = "\<lparr>ru_email = lit '' Bob@X.Org'', ru_password = lit ''secret-42''\<rparr>" and
        c' = "\<lparr>au_email = lit ''bob@x.org'', au_password = lit ''secret-42'', au_device_info = None, au_ip_address = None\<rparr>"
        and dr = demo_draws and dr' = demo_draws and e = "\<lparr>email_value = lit ''bob@x.org''\<rparr>" and
        p = "\<lparr>plain_value = lit ''secret-42''\<rparr>"]
  by (fastforce simp: demo_emails demo_passwords demo_fresh_draws device_text_def email_free_def)


lemma login_failed_keeps:
  "bnd (record_login_failed S dr uid ip reason) (\<lambda>_. raise_exn e) w = (res, w1) \<Longrightarrow> res = Inl e \<and> w_redis w1 = w_redis w"
  using audit_result[of S dr LOGIN_FAILED uid None ip "[(lit ''reason'', lit reason)]" w]
  by (auto simp: record_login_failed_def raise_exn_def)

lemma dummy_keeps: "dummy_verify S dr password w = (res, w') \<Longrightarrow> w_redis w' = w_redis w"
  by (auto simp: dummy_verify_def bnd_def lift_res_def ret_def split: if_splits sum.splits)

text \<open>
  Claim C3. Whatever the database, the libraries and Redis do, a login succeeds, or so much
  as changes Redis, only for an existing, active account whose stored hash the given
  password was checked against with success.
\<close>

theorem login_requires_password:
  assumes "authenticate_user S dr cmd w = (res, w')" and "(\<exists>pair. res = Inr pair) \<or> w_redis w' \<noteq> w_redis w"
  shows "\<exists>email user d. Email_new (sv_unicode S) (au_email cmd) = Inr email \<and>
    find_by_email (sv_unicode S) (sv_sql S) email (w_db w) = (Inr (Some user), d) \<and> is_active user \<and>
    verify (sv_crypto S) (au_password cmd) (hashed_value (hashed_password user)) = Inr True"
proof (cases "Email_new (sv_unicode S) (au_email cmd)")
  case (Inl e)
  then show ?thesis using assms by (auto simp: authenticate_user_def raise_exn_def)
next
  case (Inr email)
  obtain x d where f: "find_by_email (sv_unicode S) (sv_sql S) email (w_db w) = (x, d)" by fastforce
  consider (err) e where "x = Inl e" | (none) "x = Inr None" | (inactive) u where "x = Inr (Some u)" "\<not> is_active u"
    | (active) u where "x = Inr (Some u)" "is_active u" by (cases x) fastforce+
  then show ?thesis
  proof cases
    case err
    then show ?thesis using assms f Inr by (auto simp: authenticate_user_def on_db_def)
  next
    case none
    obtain y v where v: "dummy_verify S dr (au_password cmd) (w\<lparr>w_db := d\<rparr>) = (y, v)" by fastforce
    show ?thesis
      using assms f Inr none v dummy_keeps[OF v]
      by (cases y) (auto simp: authenticate_user_def on_db_def dest!: login_failed_keeps)
  next
    case (inactive u)
    then show ?thesis
      using assms f Inr by (auto simp: authenticate_user_def on_db_def dest!: login_failed_keeps)
  next
    case (active u)
    consider (raised) e where "verify (sv_crypto S) (au_password cmd) (hashed_value (hashed_password u)) = Inl e"
      | (wrong) "verify (sv_crypto S) (au_password cmd) (hashed_value (hashed_password u)) = Inr False"
      | (right) "verify (sv_crypto S) (au_password cmd) (hashed_value (hashed_password u)) = Inr True"
      by (metis sum.exhaust)
    then show ?thesis
    proof cases
      case raised
      then show ?thesis using assms f Inr active by (auto simp: authenticate_user_def on_db_def raise_exn_def)
    next
      case wrong
      then show ?thesis
        using assms f Inr active by (auto simp: authenticate_user_def on_db_def dest!: login_failed_keeps)
    qed (use f Inr active in blast)
  qed
qed


abbreviation demo_login :: "pystr \<Rightarrow> AuthenticateUserCommand" where
  "demo_login password \<equiv>
     \<lparr>au_email = lit '' Bob@X.Org '', au_password = password, au_device_info = None, au_ip_address = None\<rparr>"

theorem login_requires_password_witness:
  "\<exists>pair w'. authenticate_user ref_service demo_draws (demo_login (lit ''secret-42'')) demo_world = (Inr pair, w') \<and>
    (\<exists>user d. find_by_email latin_unicode ref_sql \<lparr>email_value = lit ''bob@x.org''\<rparr> (w_db demo_world) = (Inr (Some user), d) \<and>
       is_active user)"
proof -
  obtain pair w' where r: "authenticate_user ref_service demo_draws (demo_login (lit ''secret-42'')) demo_world = (Inr pair, w')"
    by (rule refsvc.login_run[OF demo_world(1), where cmd = "demo_login (lit ''secret-42'')" and i = 1 and u = demo_user and
        e = "\<lparr>email_value = lit ''bob@x.org''\<rparr>" and dr = demo_draws])
      (simp_all add: demo_emails demo_world demo_world_fresh device_text_def demo_world_fresh[unfolded demo_world(2)] that)
  then show ?thesis using login_requires_password[OF r] demo_emails(3) by auto
qed

text \<open>
  A login for a well-formed address fails in one way only, whether no account has
  the address, the account is inactive or the password is wrong: the same exception with
  the same message, no session, no mail.
\<close>

theorem login_failures_alike:
  assumes "auth_service S view elapse dview text_ok inet_ok" and "good_state S view dview w"
    and "Email_new (sv_unicode S) (au_email cmd) = Inr e"
    and "\<forall>i u. accounts (the_db dview w) i = Some u \<longrightarrow> user_email u = e \<longrightarrow> is_active u \<longrightarrow>
      verify (sv_crypto S) (au_password cmd) (hashed_value (hashed_password u)) = Inr False"
  shows "\<exists>w'. authenticate_user S dr cmd w =
      (Inl (InvalidCredentialsError (lit ''Invalid email or password'')), w') \<and>
    w_redis w' = w_redis w \<and> w_outbox w' = w_outbox w"
  using auth_service.login_failure_run[OF assms, of dr] by (auto simp: bad_credentials_def)

theorem login_failures_alike_witness:
  "\<exists>w'. authenticate_user ref_service demo_draws (demo_login [0xD800]) demo_world =
     (Inl (InvalidCredentialsError (lit ''Invalid email or password'')), w')"
proof -
  have "verify ref_crypto [0xD800] h = Inr False" for h
    by (simp add: verify_def py_encode_def is_surrogate_def or_false_def is_ValueError_def)
  then show ?thesis
    using login_failures_alike[OF refsvc.auth_service_axioms demo_world(1), where cmd = "demo_login [0xD800]" and
        e = "\<lparr>email_value = lit ''bob@x.org''\<rparr>" and dr = demo_draws] demo_emails(3) by auto
qed


section \<open>Refresh and logout\<close>

abbreviation invalid_refresh :: exn where
  "invalid_refresh \<equiv> InvalidTokenError (lit ''Invalid or expired refresh token'')"

context auth_service
begin

lemma refused_refresh:
  assumes "store_ok (ms (sv_refresh_ttl S)) {} (view (w_redis w))" and "refresh (sess w) (rt_refresh_token cmd) = None"
    and "py_text (rt_refresh_token cmd)"
  shows "fst (refresh_token S dr cmd w) = Inl invalid_refresh"
  using refresh_unknown_run[OF assms, of dr] by auto

lemma refresh_replay:
  assumes g: "good w" and t: "refresh (sess w) (rt_refresh_token cmd) = Some (str_uuid uid, str_uuid sid)"
    and tx: "py_text (rt_refresh_token cmd)" and fresh: "fresh_draws view w dr"
  shows "\<exists>pair w1. refresh_token S dr cmd w = (Inr pair, w1) \<and> tp_session_id pair = sid \<and>
    (\<forall>now. dr_now dr \<le> now \<longrightarrow> now < second (dr_now dr + minutes (sv_access_minutes S)) \<longrightarrow>
       decode_access_token (sv_crypto S) (sv_secret S) now (tp_access_token pair) =
         Inr [lit ''sub'' \<mapsto> str_uuid uid, lit ''sid'' \<mapsto> str_uuid sid, lit ''jti'' \<mapsto> str_uuid (dr_jti dr)]) \<and>
    (\<forall>j. py_text j \<longrightarrow> fst (is_access_jti_valid (sv_exec S) j (w_redis w1)) =
       Inr (j = str_uuid (dr_jti dr) \<or> (\<exists>u s. access (sess w) j = Some (u, s) \<and> s \<noteq> str_uuid sid))) \<and>
    fst (get_session_by_refresh_token (sv_exec S) (tp_refresh_token pair) (w_redis w1)) =
      Inr (Some \<lparr>ref_user_id = str_uuid uid, ref_session_id = str_uuid sid\<rparr>) \<and>
    (\<forall>dr'. fst (refresh_token S dr' cmd w1) = Inl invalid_refresh)"
proof -
  obtain r d where l: "refresh_token S dr cmd w =
      (Inr \<lparr>tp_access_token = fst (generate_access_token (sv_crypto S) (sv_secret S) (sv_access_minutes S) (dr_now dr)
              (dr_jti dr) uid sid),
            tp_refresh_token = dr_refresh dr, tp_session_id = sid, tp_token_type = lit ''Bearer''\<rparr>,
       w\<lparr>w_redis := r, w_db := d\<rparr>)"
    "store_ok (ms (sv_refresh_ttl S)) {} (view r)"
    "abs_store (view r) = a_rotate (str_uuid sid) (str_uuid uid) (str_uuid (dr_jti dr)) (dr_refresh dr) (sess w)"
    by (rule refresh_handler_run[OF g t tx fresh]) (rule that)
  have txs: "py_text (str_uuid (dr_jti dr))" "py_text (dr_refresh dr)"
    and ft: "fresh_token (view (w_redis w)) ''current_refresh'' (dr_refresh dr)"
    using fresh by (simp_all add: fresh_draws_def fresh_pair_def token_text_def)
  have "current (sess w) (str_uuid sid) = Some (rt_refresh_token cmd)" using rts.refresh_owner[OF goodD(1)[OF g] t] by simp
  then obtain h e where "ses (view (w_redis w)) (str_uuid sid) = Some (RHash h, e)" "h (lit ''current_refresh'') = Some (rt_refresh_token cmd)"
    by (auto simp: abs_store_def hash_field_def split: option.splits redis_value.splits prod.splits)
  then have ne: "rt_refresh_token cmd \<noteq> dr_refresh dr" using fresh_tokenD[OF ft] by metis
  have acc: "access (abs_store (view r)) j \<noteq> None \<longleftrightarrow> j = str_uuid (dr_jti dr) \<or> (\<exists>u s. access (sess w) j = Some (u, s) \<and> s \<noteq> str_uuid sid)" for j
    unfolding l(3) a_rotate_def a_create_def a_revoke_def by (auto simp: without_iff)
  have "refresh (abs_store (view r)) (rt_refresh_token cmd) = None"
    unfolding l(3) a_rotate_def a_create_def a_revoke_def using t ne by (simp add: without_def)
  then have "fst (refresh_token S dr' cmd (w\<lparr>w_redis := r, w_db := d\<rparr>)) = Inl invalid_refresh" for dr'
    using refused_refresh[of "w\<lparr>w_redis := r, w_db := d\<rparr>"] l(2) tx by simp
  moreover have "abs_store (view r) = a_create (str_uuid sid) (str_uuid uid) (str_uuid (dr_jti dr)) (dr_refresh dr)
      (a_revoke {str_uuid sid} (sess w))" using l(3) by (simp add: a_rotate_def)
  ultimately show ?thesis
    using l(1) created_tokens_work(2)[OF l(2) _ txs] observations(1)[OF l(2)] acc access_claims[of "dr_now dr"] by simp
qed

lemma logout:
  assumes g: "good w"
  shows "\<exists>w1. revoke_session_handler S dr cmd w = (Inr (), w1) \<and>
    (\<forall>j. py_text j \<longrightarrow> fst (is_access_jti_valid (sv_exec S) j (w_redis w1)) =
       Inr (\<exists>u s. access (sess w) j = Some (u, s) \<and> s \<noteq> str_uuid (rs_session_id cmd))) \<and>
    (\<forall>dr' c u. py_text (rt_refresh_token c) \<longrightarrow>
       refresh (sess w) (rt_refresh_token c) = Some (u, str_uuid (rs_session_id cmd)) \<longrightarrow>
       fst (refresh_token S dr' c w1) = Inl invalid_refresh)"
proof -
  obtain r d where l: "revoke_session_handler S dr cmd w = (Inr (), w\<lparr>w_redis := r, w_db := d\<rparr>)"
    "store_ok (ms (sv_refresh_ttl S)) {} (view r)" "abs_store (view r) = a_revoke {str_uuid (rs_session_id cmd)} (sess w)"
    by (rule revoke_handler_run[OF g]) (rule that)
  have acc: "access (abs_store (view r)) j \<noteq> None \<longleftrightarrow> (\<exists>u s. access (sess w) j = Some (u, s) \<and> s \<noteq> str_uuid (rs_session_id cmd))" for j
    unfolding l(3) a_revoke_def by (auto simp: without_iff)
  have "fst (refresh_token S dr' c (w\<lparr>w_redis := r, w_db := d\<rparr>)) = Inl invalid_refresh"
    if "py_text (rt_refresh_token c)" "refresh (sess w) (rt_refresh_token c) = Some (u, str_uuid (rs_session_id cmd))" for dr' c u
    using refused_refresh[of "w\<lparr>w_redis := r, w_db := d\<rparr>" c] l(2,3) that by (simp add: a_revoke_def without_def)
  then show ?thesis using l(1) observations(1)[OF l(2)] acc by auto
qed

end


text \<open>
  Claim C6. Refreshing with the current refresh token of a session answers with tokens of
  the same session and user: the new access token decodes to them, it is the only access
  token of the session on the allowlist, all other sessions keep theirs, and the used
  refresh token is refused from then on.
\<close>

theorem refresh_handler_rotates:
  assumes "auth_service S view elapse dview text_ok inet_ok" and "good_state S view dview w"
    and "refresh (the_sessions view w) (rt_refresh_token cmd) = Some (str_uuid uid, str_uuid sid)"
    and "py_text (rt_refresh_token cmd)" and "fresh_draws view w dr"
  shows "\<exists>pair w1. refresh_token S dr cmd w = (Inr pair, w1) \<and> tp_session_id pair = sid \<and>
    (\<forall>now. dr_now dr \<le> now \<longrightarrow> now < second (dr_now dr + minutes (sv_access_minutes S)) \<longrightarrow>
       decode_access_token (sv_crypto S) (sv_secret S) now (tp_access_token pair) =
         Inr [lit ''sub'' \<mapsto> str_uuid uid, lit ''sid'' \<mapsto> str_uuid sid, lit ''jti'' \<mapsto> str_uuid (dr_jti dr)]) \<and>
    (\<forall>j. py_text j \<longrightarrow> fst (is_access_jti_valid (sv_exec S) j (w_redis w1)) =
       Inr (j = str_uuid (dr_jti dr) \<or> (\<exists>u s. access (the_sessions view w) j = Some (u, s) \<and> s \<noteq> str_uuid sid))) \<and>
    fst (get_session_by_refresh_token (sv_exec S) (tp_refresh_token pair) (w_redis w1)) =
      Inr (Some \<lparr>ref_user_id = str_uuid uid, ref_session_id = str_uuid sid\<rparr>) \<and>
    (\<forall>dr'. fst (refresh_token S dr' cmd w1) = Inl (InvalidTokenError (lit ''Invalid or expired refresh token'')))"
  by (rule auth_service.refresh_replay[OF assms])

text \<open>A world with one session of the registered user, and new draws.\<close>

definition session_world :: "(ref_state, db_view) world" where
  "session_world = demo_world\<lparr>w_redis := demo_store\<rparr>"

definition demo_draws2 :: draws where
  "demo_draws2 = demo_draws\<lparr>dr_session_id := 8, dr_jti := 4, dr_refresh := lit ''tok2'', dr_event_id := 22\<rparr>"

lemma demo_jti: "str_uuid 4 \<noteq> lit ''jti''"
proof
  assume "str_uuid 4 = lit ''jti''"
  then have "length (str_uuid 4) = length (lit ''jti'')" by (rule arg_cong)
  then show False by (simp add: lit_def)
qed

lemma session_world:
  "good_state ref_service ref_view id_view session_world"
  "the_sessions ref_view session_world = a_create (str_uuid 7) (str_uuid 1) (lit ''jti'') (lit ''tok'') (abs_store Map.empty)"
  "fresh_draws ref_view session_world demo_draws2" "the_db id_view session_world = the_db id_view demo_world"
proof -
  show "fresh_draws ref_view session_world demo_draws2"
    using demo_fresh_pair[of "str_uuid 4" "lit ''tok2''"] demo_jti
    by (simp add: fresh_draws_def session_world_def demo_draws2_def demo_draws_def token_text_uuid)
qed (use demo_world(1) demo_created(3) refs.reach_ok[OF demo_created(2)] in \<open>simp_all add: good_state_def session_world_def\<close>)

theorem refresh_handler_rotates_witness:
  "refresh (the_sessions ref_view session_world) (lit ''tok'') = Some (str_uuid 1, str_uuid 7) \<and>
   (\<exists>pair w1. refresh_token ref_service demo_draws2 \<lparr>rt_refresh_token = lit ''tok'', rt_ip_address = None\<rparr> session_world = (Inr pair, w1) \<and>
     fst (is_access_jti_valid ref_exec (lit ''jti'') (w_redis w1)) = Inr False \<and>
     fst (refresh_token ref_service demo_draws2 \<lparr>rt_refresh_token = lit ''tok'', rt_ip_address = None\<rparr> w1) = Inl invalid_refresh)"
proof -
  let ?c = "\<lparr>rt_refresh_token = lit ''tok'', rt_ip_address = None\<rparr>"
  have t: "refresh (the_sessions ref_view session_world) (rt_refresh_token ?c) = Some (str_uuid 1, str_uuid 7)"
    by (simp add: session_world(2) a_create_def)
  have a: "access (the_sessions ref_view session_world) (lit ''jti'') = Some (str_uuid 1, str_uuid 7)"
    by (simp add: session_world(2) a_create_def)
  have tx: "py_text (rt_refresh_token ?c)" by simp
  from refresh_handler_rotates[OF refsvc.auth_service_axioms session_world(1) t tx session_world(3)]
  show ?thesis using t demo_jti[symmetric] a by (fastforce simp: demo_draws2_def)
qed

text \<open>
  Logging a session out always succeeds, known session or not: afterwards an
  access token is valid exactly when it was before and belongs to another session, and
  every refresh token of the session is refused.
\<close>

theorem logout_ends_session:
  assumes "auth_service S view elapse dview text_ok inet_ok" and "good_state S view dview w"
  shows "\<exists>w1. revoke_session_handler S dr cmd w = (Inr (), w1) \<and>
    (\<forall>j. py_text j \<longrightarrow> fst (is_access_jti_valid (sv_exec S) j (w_redis w1)) =
       Inr (\<exists>u s. access (the_sessions view w) j = Some (u, s) \<and> s \<noteq> str_uuid (rs_session_id cmd))) \<and>
    (\<forall>dr' c u. py_text (rt_refresh_token c) \<longrightarrow>
       refresh (the_sessions view w) (rt_refresh_token c) = Some (u, str_uuid (rs_session_id cmd)) \<longrightarrow>
       fst (refresh_token S dr' c w1) = Inl (InvalidTokenError (lit ''Invalid or expired refresh token'')))"
  by (rule auth_service.logout[OF assms])

theorem logout_ends_session_witness:
  "access (the_sessions ref_view session_world) (lit ''jti'') = Some (str_uuid 1, str_uuid 7) \<and>
   (\<exists>w1. revoke_session_handler ref_service demo_draws2 \<lparr>rs_session_id = 7, rs_ip_address = None\<rparr> session_world = (Inr (), w1) \<and>
     fst (is_access_jti_valid ref_exec (lit ''jti'') (w_redis w1)) = Inr False)"
proof -
  have a: "access (the_sessions ref_view session_world) (lit ''jti'') = Some (str_uuid 1, str_uuid 7)"
    by (simp add: session_world(2) a_create_def)
  then show ?thesis
    using logout_ends_session[OF refsvc.auth_service_axioms session_world(1), of demo_draws2 "\<lparr>rs_session_id = 7, rs_ip_address = None\<rparr>"]
    by fastforce
qed


section \<open>Password reset\<close>

lemma event_storable_mono:
  assumes "event_storable text_ok inet_ok A ev" and "\<And>i. accounts A i \<noteq> None \<Longrightarrow> accounts A' i \<noteq> None"
    and "\<And>m. m \<in> set (events A') \<Longrightarrow> m \<in> set (events A) \<or> em_id m \<noteq> ev_id ev"
  shows "event_storable text_ok inet_ok A' ev"
  using assms by (auto simp: event_storable_def)

abbreviation token_used :: exn where
  "token_used \<equiv> TokenAlreadyUsedError (lit ''Reset token has already been used'')"

abbreviation token_expired :: exn where
  "token_expired \<equiv> TokenExpiredError (lit ''Reset token has expired'')"

lemma consume_used: "used t \<Longrightarrow> consume now t = Inl (if expires_at t \<le> now then token_expired else token_used)"
  by (simp add: consume_def)

context auth_service
begin

lemma request_issues:
  assumes g: "good w" and e: "Email_new (sv_unicode S) (rq_email c) = Inr e"
    and u: "accounts (db w) i = Some u" "user_email u = e" and h: "token_digest (dr_reset dr) = Inr h"
    and new: "resets (db w) (dr_reset_id dr) = None" "digest_free (db w) h"
    and ev: "event_storable text_ok inet_ok (db w) (audit_event dr PASSWORD_RESET_REQUESTED (Some (user_id u)) None (rq_ip_address c) [])"
  obtains w1 m where "request_password_reset S dr c w = (Inr (), w1)" "good w1" "w_redis w1 = w_redis w"
    "w_outbox w1 = w_outbox w @ [(email_value e, dr_reset dr)]" "accounts (db w1) = accounts (db w)"
    "resets (db w1) (dr_reset_id dr) = Some \<lparr>prt_id = dr_reset_id dr, prt_user_id = user_id u,
       prt_token = \<lparr>reset_value = h\<rparr>, expires_at = dr_now dr + minutes (sv_reset_minutes S), used = False\<rparr>"
    "\<forall>k. k \<noteq> dr_reset_id dr \<longrightarrow> resets (db w1) k =
       (case resets (db w) k of Some t \<Rightarrow> if prt_user_id t = user_id u then None else Some t | None \<Rightarrow> None)"
    "events (db w1) = events (db w) @ [m]" "em_id m = dr_event_id dr"
proof -
  let ?ev = "audit_event dr PASSWORD_RESET_REQUESTED (Some (user_id u)) None (rq_ip_address c) []"
  obtain d0 d where r: "request_password_reset S dr c w =
      (Inr (), w\<lparr>w_db := d, w_outbox := w_outbox w @ [(email_value e, dr_reset dr)]\<rparr>)"
    "dbs_ok (sv_unicode S) (dview d0)"
    "db_abs (working (dview d0)) = (db w)\<lparr>resets := (\<lambda>k. case resets (db w) k of
        Some t \<Rightarrow> if prt_user_id t = user_id u then None else Some t | None \<Rightarrow> None)(dr_reset_id dr \<mapsto>
        \<lparr>prt_id = dr_reset_id dr, prt_user_id = user_id u, prt_token = \<lparr>reset_value = h\<rparr>,
         expires_at = dr_now dr + minutes (sv_reset_minutes S), used = False\<rparr>)\<rparr>"
    "recorded d0 ?ev d"
    by (rule request_run[OF g e u h new]) (rule that)
  have "event_storable text_ok inet_ok (db_abs (working (dview d0))) ?ev"
    by (rule event_storable_mono[OF ev]) (simp_all add: r(3))
  note l = loggedD[OF r(4) this]
  show thesis
    by (rule that[OF r(1), of "event_to_model ?ev"])
      (use l r(3) goodD(1)[OF g] in \<open>simp_all add: good_state_def event_to_model_def audit_event_def\<close>)
qed

lemma reset_completes:
  assumes g: "good w" and p: "PlainPassword_new (sv_unicode S) (rp_new_password c) = Inr p" "no_nul (rp_new_password c)"
    and h: "token_digest (rp_token c) = Inr h" and t: "resets (db w) k = Some t" "reset_value (prt_token t) = h"
    and live: "dr_now dr < expires_at t" "\<not> used t" and u: "accounts (db w) (prt_user_id t) = Some u"
    and ev: "event_storable text_ok inet_ok (db w) (audit_event dr PASSWORD_RESET_COMPLETED (Some (user_id u)) None (rp_ip_address c) [])"
  obtains w1 nh where "reset_password S dr c w = (Inr (), w1)" "good w1" "w_outbox w1 = w_outbox w"
    "sess w1 = a_revoke_all (str_uuid (user_id u)) (sess w)"
    "accounts (db w1) = (accounts (db w))(user_id u \<mapsto> u\<lparr>hashed_password := \<lparr>hashed_value = nh\<rparr>\<rparr>)"
    "resets (db w1) = (resets (db w))(k \<mapsto> t\<lparr>used := True\<rparr>)" "verify (sv_crypto S) (rp_new_password c) nh = Inr True"
proof -
  let ?ev = "audit_event dr PASSWORD_RESET_COMPLETED (Some (user_id u)) None (rp_ip_address c) []"
  obtain r d0 d nh where r: "reset_password S dr c w = (Inr (), w\<lparr>w_redis := r, w_db := d\<rparr>)"
    "store_ok (ms (sv_refresh_ttl S)) {} (view r)" "abs_store (view r) = a_revoke_all (str_uuid (user_id u)) (sess w)"
    "dbs_ok (sv_unicode S) (dview d0)"
    "db_abs (working (dview d0)) =
      (db w)\<lparr>accounts := (accounts (db w))(user_id u \<mapsto> u\<lparr>hashed_password := \<lparr>hashed_value = nh\<rparr>\<rparr>),
             resets := (resets (db w))(k \<mapsto> t\<lparr>used := True\<rparr>)\<rparr>"
    "verify (sv_crypto S) (rp_new_password c) nh = Inr True" "recorded d0 ?ev d"
    by (rule reset_run[OF g p h t live u]) (rule that)
  have "event_storable text_ok inet_ok (db_abs (working (dview d0))) ?ev"
    by (rule event_storable_mono[OF ev]) (simp_all add: r(5))
  note l = loggedD[OF r(7) this]
  show thesis
    by (rule that[OF r(1), of nh]) (use l r(2,3,5,6) in \<open>simp_all add: good_state_def\<close>)
qed

lemma reset_flow:
  assumes g: "good w" and e: "Email_new (sv_unicode S) (rq_email c) = Inr e"
    and u: "accounts (db w) i = Some u" "user_email u = e" and h: "token_digest (dr_reset dr) = Inr h"
    and new: "resets (db w) (dr_reset_id dr) = None" "digest_free (db w) h"
    and ev: "event_storable text_ok inet_ok (db w) (audit_event dr PASSWORD_RESET_REQUESTED (Some (user_id u)) None (rq_ip_address c) [])"
    and p: "PlainPassword_new (sv_unicode S) (rp_new_password c') = Inr p" "no_nul (rp_new_password c')"
    and tok: "rp_token c' = dr_reset dr" and time: "dr_now dr' < dr_now dr + minutes (sv_reset_minutes S)"
    and ev': "event_storable text_ok inet_ok (db w) (audit_event dr' PASSWORD_RESET_COMPLETED (Some (user_id u)) None (rp_ip_address c') [])"
      "dr_event_id dr' \<noteq> dr_event_id dr"
  shows "\<exists>w1 w2 nh. request_password_reset S dr c w = (Inr (), w1) \<and>
    w_outbox w1 = w_outbox w @ [(email_value e, dr_reset dr)] \<and>
    (\<forall>k t. resets (db w1) k = Some t \<longrightarrow> prt_user_id t = user_id u \<longrightarrow> k = dr_reset_id dr \<and> reset_value (prt_token t) = h) \<and>
    reset_password S dr' c' w1 = (Inr (), w2) \<and>
    accounts (db w2) = (accounts (db w))(user_id u \<mapsto> u\<lparr>hashed_password := \<lparr>hashed_value = nh\<rparr>\<rparr>) \<and>
    verify (sv_crypto S) (rp_new_password c') nh = Inr True \<and>
    (\<forall>j. py_text j \<longrightarrow> fst (is_access_jti_valid (sv_exec S) j (w_redis w2)) =
       Inr (\<exists>v s. access (sess w) j = Some (v, s) \<and> v \<noteq> str_uuid (user_id u))) \<and>
    (\<forall>t. fst (get_session_by_refresh_token (sv_exec S) t (w_redis w2)) =
       (case fst (get_session_by_refresh_token (sv_exec S) t (w_redis w)) of
          Inr (Some ref) \<Rightarrow> Inr (if ref_user_id ref = str_uuid (user_id u) then None else Some ref)
        | res \<Rightarrow> res)) \<and>
    (\<forall>s. owner (sess w2) s = (if owner (sess w) s = Some (str_uuid (user_id u)) then None else owner (sess w) s)) \<and>
    (\<forall>dr'' c'' q. PlainPassword_new (sv_unicode S) (rp_new_password c'') = Inr q \<longrightarrow> rp_token c'' = dr_reset dr \<longrightarrow>
       (\<exists>w3. reset_password S dr'' c'' w2 =
          (Inl (if dr_now dr + minutes (sv_reset_minutes S) \<le> dr_now dr'' then token_expired else token_used), w3) \<and>
          db w3 = db w2 \<and> w_redis w3 = w_redis w2))"
proof -
  let ?t = "\<lparr>prt_id = dr_reset_id dr, prt_user_id = user_id u, prt_token = \<lparr>reset_value = h\<rparr>,
     expires_at = dr_now dr + minutes (sv_reset_minutes S), used = False\<rparr>"
  obtain w1 m where r: "request_password_reset S dr c w = (Inr (), w1)" "good w1" "w_redis w1 = w_redis w"
    "w_outbox w1 = w_outbox w @ [(email_value e, dr_reset dr)]" "accounts (db w1) = accounts (db w)"
    "resets (db w1) (dr_reset_id dr) = Some ?t"
    "\<forall>k. k \<noteq> dr_reset_id dr \<longrightarrow> resets (db w1) k =
       (case resets (db w) k of Some t \<Rightarrow> if prt_user_id t = user_id u then None else Some t | None \<Rightarrow> None)"
    "events (db w1) = events (db w) @ [m]" "em_id m = dr_event_id dr"
    by (rule request_issues[OF g e u h new ev]) (rule that)
  have acc: "accounts (db w1) (prt_user_id ?t) = Some u"
    using repo.account_id[OF goodD(2)[OF g] u(1)] u(1) r(5) by simp
  have "event_storable text_ok inet_ok (db w1) (audit_event dr' PASSWORD_RESET_COMPLETED (Some (user_id u)) None (rp_ip_address c') [])"
    by (rule event_storable_mono[OF ev'(1)]) (use r(5,8,9) ev'(2) in \<open>auto simp: audit_event_def\<close>)
  moreover have "token_digest (rp_token c') = Inr h" "dr_now dr' < expires_at ?t" "reset_value (prt_token ?t) = h" "\<not> used ?t"
    using h tok time by simp_all
  ultimately obtain w2 nh where q: "reset_password S dr' c' w1 = (Inr (), w2)" "good w2"
    "sess w2 = a_revoke_all (str_uuid (user_id u)) (sess w1)"
    "accounts (db w2) = (accounts (db w1))(user_id u \<mapsto> u\<lparr>hashed_password := \<lparr>hashed_value = nh\<rparr>\<rparr>)"
    "resets (db w2) = (resets (db w1))(dr_reset_id dr \<mapsto> ?t\<lparr>used := True\<rparr>)" "verify (sv_crypto S) (rp_new_password c') nh = Inr True"
    using reset_completes[OF r(2) p _ r(6) _ _ _ acc, of h dr'] by metis
  have again: "\<exists>w3. reset_password S dr'' c'' w2 =
        (Inl (if dr_now dr + minutes (sv_reset_minutes S) \<le> dr_now dr'' then token_expired else token_used), w3) \<and>
        db w3 = db w2 \<and> w_redis w3 = w_redis w2"
    if "PlainPassword_new (sv_unicode S) (rp_new_password c'') = Inr q'" "rp_token c'' = dr_reset dr" for dr'' c'' q'
    using reset_refused[OF q(2) that(1), of h "dr_reset_id dr" "?t\<lparr>used := True\<rparr>" dr''] q(5) h that(2)
      consume_used[of "?t\<lparr>used := True\<rparr>" "dr_now dr''"] by auto
  have one: "k = dr_reset_id dr \<and> reset_value (prt_token t) = h"
    if "resets (db w1) k = Some t" "prt_user_id t = user_id u" for k t
    using r(6,7) that by (cases "k = dr_reset_id dr") (auto split: option.splits if_splits)
  show ?thesis
    using r(1,3,4,5) q(1,4,6) one again revoked_all_observed[OF goodD(1)[OF r(2)] goodD(1)[OF q(2)] q(3)]
    by (intro exI[of _ w1] exI[of _ w2] exI[of _ nh]) (simp del: abs_store_simps)
qed

end


text \<open>
  Claim C2. The reset flow: a request mails a token of which only the SHA-256 digest is
  stored, and leaves the user no other reset token; within its lifetime the mailed token
  sets the new password, which then verifies, and changes no other account; every session
  of the user ends and no other: no access token and no refresh token of the user is
  accepted any more, not even one of a session whose access token had lapsed, the session
  records are gone, and the tokens and sessions of others answer as before. Used again the
  token is refused, whenever that is tried, with nothing changed.
\<close>

theorem mailed_token_resets_password:
  assumes "auth_service S view elapse dview text_ok inet_ok" and "good_state S view dview w"
    and "Email_new (sv_unicode S) (rq_email c) = Inr e"
    and "accounts (the_db dview w) i = Some u" and "user_email u = e" and "token_digest (dr_reset dr) = Inr h"
    and "resets (the_db dview w) (dr_reset_id dr) = None" and "digest_free (the_db dview w) h"
    and "event_storable text_ok inet_ok (the_db dview w)
      (audit_event dr PASSWORD_RESET_REQUESTED (Some (user_id u)) None (rq_ip_address c) [])"
    and "PlainPassword_new (sv_unicode S) (rp_new_password c') = Inr p" and "no_nul (rp_new_password c')"
    and "rp_token c' = dr_reset dr" and "dr_now dr' < dr_now dr + minutes (sv_reset_minutes S)"
    and "event_storable text_ok inet_ok (the_db dview w)
      (audit_event dr' PASSWORD_RESET_COMPLETED (Some (user_id u)) None (rp_ip_address c') [])"
    and "dr_event_id dr' \<noteq> dr_event_id dr"
  shows "\<exists>w1 w2 nh. request_password_reset S dr c w = (Inr (), w1) \<and>
    w_outbox w1 = w_outbox w @ [(email_value e, dr_reset dr)] \<and>
    (\<forall>k t. resets (the_db dview w1) k = Some t \<longrightarrow> prt_user_id t = user_id u \<longrightarrow>
       k = dr_reset_id dr \<and> reset_value (prt_token t) = h) \<and>
    reset_password S dr' c' w1 = (Inr (), w2) \<and>
    accounts (the_db dview w2) = (accounts (the_db dview w))(user_id u \<mapsto> u\<lparr>hashed_password := \<lparr>hashed_value = nh\<rparr>\<rparr>) \<and>
    verify (sv_crypto S) (rp_new_password c') nh = Inr True \<and>
    (\<forall>j. py_text j \<longrightarrow> fst (is_access_jti_valid (sv_exec S) j (w_redis w2)) =
       Inr (\<exists>v s. access (the_sessions view w) j = Some (v, s) \<and> v \<noteq> str_uuid (user_id u))) \<and>
    (\<forall>t. fst (get_session_by_refresh_token (sv_exec S) t (w_redis w2)) =
       (case fst (get_session_by_refresh_token (sv_exec S) t (w_redis w)) of
          Inr (Some ref) \<Rightarrow> Inr (if ref_user_id ref = str_uuid (user_id u) then None else Some ref)
        | res \<Rightarrow> res)) \<and>
    (\<forall>s. owner (the_sessions view w2) s = (if owner (the_sessions view w) s = Some (str_uuid (user_id u)) then None else owner (the_sessions view w) s)) \<and>
    (\<forall>dr'' c'' q. PlainPassword_new (sv_unicode S) (rp_new_password c'') = Inr q \<longrightarrow> rp_token c'' = dr_reset dr \<longrightarrow>
       (\<exists>w3. reset_password S dr'' c'' w2 =
          (Inl (if dr_now dr + minutes (sv_reset_minutes S) \<le> dr_now dr''
                then TokenExpiredError (lit ''Reset token has expired'')
                else TokenAlreadyUsedError (lit ''Reset token has already been used'')), w3) \<and>
          the_db dview w3 = the_db dview w2 \<and> w_redis w3 = w_redis w2))"
  by (rule auth_service.reset_flow[OF assms])

lemma demo_digest: "token_digest (lit ''raw'') = Inr (sha256_hex (lit ''raw''))"
  using encode_ascii[of "lit ''raw''"] by (simp add: token_digest_def lit_def)

lemma session_world_db [simp]:
  "accounts (the_db id_view session_world) = [1 \<mapsto> demo_user]" "resets (the_db id_view session_world) = Map.empty"
  "events (the_db id_view session_world) = []"
  unfolding session_world(4) demo_world(4) by simp_all

abbreviation demo_reset :: "pystr \<Rightarrow> ResetPasswordCommand" where
  "demo_reset token \<equiv> \<lparr>rp_token = token, rp_new_password = lit ''secret-43'', rp_ip_address = None\<rparr>"

theorem mailed_token_resets_password_witness:
  "access (the_sessions ref_view session_world) (lit ''jti'') = Some (str_uuid 1, str_uuid 7) \<and>
   (\<exists>w1 w2. request_password_reset ref_service demo_draws \<lparr>rq_email = lit ''bob@x.org'', rq_ip_address = None\<rparr> session_world = (Inr (), w1) \<and>
      reset_password ref_service demo_draws2 (demo_reset (lit ''raw'')) w1 = (Inr (), w2) \<and>
      fst (is_access_jti_valid ref_exec (lit ''jti'') (w_redis w2)) = Inr False \<and>
      owner (the_sessions ref_view w2) (str_uuid 7) = None)"
proof -
  have a: "access (the_sessions ref_view session_world) (lit ''jti'') = Some (str_uuid 1, str_uuid 7)"
    by (simp add: session_world(2) a_create_def)
  let ?c = "\<lparr>rq_email = lit ''bob@x.org'', rq_ip_address = None\<rparr>"
  have "\<exists>w1 w2. request_password_reset ref_service demo_draws ?c session_world = (Inr (), w1) \<and>
      reset_password ref_service demo_draws2 (demo_reset (lit ''raw'')) w1 = (Inr (), w2) \<and>
      (\<forall>j. py_text j \<longrightarrow> fst (is_access_jti_valid ref_exec j (w_redis w2)) =
         Inr (\<exists>v s. access (the_sessions ref_view session_world) j = Some (v, s) \<and> v \<noteq> str_uuid 1)) \<and>
      (\<forall>s. owner (the_sessions ref_view w2) s =
         (if owner (the_sessions ref_view session_world) s = Some (str_uuid 1) then None
          else owner (the_sessions ref_view session_world) s))"
    using mailed_token_resets_password[OF refsvc.auth_service_axioms session_world(1),
        where c = ?c and c' = "demo_reset (lit ''raw'')" and dr = demo_draws and dr' = demo_draws2 and i = 1 and u = demo_user and
          e = "\<lparr>email_value = lit ''bob@x.org''\<rparr>" and h = "sha256_hex (lit ''raw'')" and p = "\<lparr>plain_value = lit ''secret-43''\<rparr>"]
    by (fastforce simp: demo_emails demo_passwords demo_world demo_digest digest_free_def event_storable_def
        audit_event_def demo_draws2_def minutes_def simp del: abs_store_simps)
  moreover have "owner (the_sessions ref_view session_world) (str_uuid 7) = Some (str_uuid 1)"
    by (simp add: session_world(2) a_create_def)
  ultimately show ?thesis using a by (auto simp: py_text_lit simp del: abs_store_simps)
qed

text \<open>
  Why a reset fails: the password is refused, the token is no text, was never issued, is
  expired or used, or the password holds a zero character that bcrypt refuses.
\<close>

definition token_failure :: "('r, 'd) service \<Rightarrow> draws \<Rightarrow> ResetPasswordCommand \<Rightarrow> PasswordResetToken \<Rightarrow> exn \<Rightarrow> bool" where
  "token_failure S dr c t x \<longleftrightarrow>
     (if expires_at t \<le> dr_now dr then x = TokenExpiredError (lit ''Reset token has expired'')
      else if used t then x = TokenAlreadyUsedError (lit ''Reset token has already been used'')
      else \<not> no_nul (rp_new_password c) \<and> hash (sv_crypto S) (dr_seed dr) (rp_new_password c) = Inl x)"

definition reset_failure :: "('r, 'd) service \<Rightarrow> db_state \<Rightarrow> draws \<Rightarrow> ResetPasswordCommand \<Rightarrow> exn \<Rightarrow> bool" where
  "reset_failure S A dr c x \<longleftrightarrow>
     (case PlainPassword_new (sv_unicode S) (rp_new_password c) of
        Inl e \<Rightarrow> x = e
      | Inr _ \<Rightarrow>
          (case token_digest (rp_token c) of
             Inl e \<Rightarrow> x = UnicodeEncodeError
           | Inr h \<Rightarrow>
               digest_free A h \<and> x = TokenNotFoundError (lit ''Reset token not found'') \<or>
               (\<exists>k t. resets A k = Some t \<and> reset_value (prt_token t) = h \<and> token_failure S dr c t x)))"

lemma token_failure_iff:
  "token_failure S dr c t x \<longleftrightarrow> consume (dr_now dr) t = Inl x \<or>
     dr_now dr < expires_at t \<and> \<not> used t \<and> \<not> no_nul (rp_new_password c) \<and>
       hash (sv_crypto S) (dr_seed dr) (rp_new_password c) = Inl x"
  by (auto simp: token_failure_def consume_def)

context auth_service
begin

lemma reset_fails:
  assumes g: "good w" and f: "reset_failure S (db w) dr c x"
  shows "\<exists>d. reset_password S dr c w = (Inl x, w\<lparr>w_db := d\<rparr>) \<and> good (w\<lparr>w_db := d\<rparr>) \<and> db (w\<lparr>w_db := d\<rparr>) = db w"
proof -
  have early: ?thesis if "reset_password S dr c w = (Inl x, w)"
    using that g by (intro exI[of _ "w_db w"]) simp
  show ?thesis
  proof (cases "PlainPassword_new (sv_unicode S) (rp_new_password c)")
    case (Inl e)
    then show ?thesis using f by (intro early) (simp add: reset_password_def raise_exn_def reset_failure_def)
  next
    case p: (Inr p)
    show ?thesis
    proof (cases "token_digest (rp_token c)")
      case (Inl e)
      then have "e = UnicodeEncodeError" by (auto simp: token_digest_def py_encode_def split: sum.splits if_splits)
      then show ?thesis using f p Inl by (intro early) (simp add: reset_password_def raise_exn_def reset_failure_def)
    next
      case (Inr h)
      consider "digest_free (db w) h" "x = TokenNotFoundError (lit ''Reset token not found'')"
        | k t where "resets (db w) k = Some t" "reset_value (prt_token t) = h" "consume (dr_now dr) t = Inl x"
        | k t where "resets (db w) k = Some t" "reset_value (prt_token t) = h" "dr_now dr < expires_at t" "\<not> used t"
            "hash (sv_crypto S) (dr_seed dr) (rp_new_password c) = Inl x"
        using f p Inr by (auto simp: reset_failure_def token_failure_iff)
      then show ?thesis
        using reset_unknown[OF g p Inr] reset_refused[OF g p Inr] reset_unhashed[OF g p _ Inr] by cases blast+
    qed
  qed
qed

lemma reset_succeeds:
  assumes g: "good w" and f: "\<And>x. \<not> reset_failure S (db w) dr c x"
  shows "\<exists>w'. reset_password S dr c w = (Inr (), w')"
proof -
  obtain p where p: "PlainPassword_new (sv_unicode S) (rp_new_password c) = Inr p"
    using f by (cases "PlainPassword_new (sv_unicode S) (rp_new_password c)") (auto simp: reset_failure_def)
  obtain h where h: "token_digest (rp_token c) = Inr h"
    using f p by (cases "token_digest (rp_token c)") (auto simp: reset_failure_def)
  obtain k t where t: "resets (db w) k = Some t" "reset_value (prt_token t) = h"
    using f[of "TokenNotFoundError (lit ''Reset token not found'')"] p h by (auto simp: reset_failure_def digest_free_def)
  have no: "\<not> token_failure S dr c t x" for x using f[of x] p h t by (auto simp: reset_failure_def)
  have live: "dr_now dr < expires_at t" "\<not> used t"
    using no[of token_expired] no[of token_used] by (auto simp: token_failure_def split: if_splits)
  have hash: "no_nul (rp_new_password c) \<or> hash (sv_crypto S) (dr_seed dr) (rp_new_password c) \<noteq> Inl x" for x
    using no[of x] live by (auto simp: token_failure_iff)
  obtain nh where nh: "hash (sv_crypto S) (dr_seed dr) (rp_new_password c) = Inr nh"
    using hash hash_verify[OF bcrypt p] by (metis sum.exhaust)
  obtain u where "accounts (db w) (prt_user_id t) = Some u" using repo.reset_id[OF goodD(2)[OF g] t(1)] by auto
  then show ?thesis using reset_run_hashed[OF g p nh h t live] by metis
qed

end

text \<open>
  Claim C30. Over a working database and Redis, a reset fails for exactly these reasons, with
  exactly these exceptions: a password the domain refuses, a token that is no text or was
  never issued, is expired or was used, and a password with a zero character that bcrypt
  refuses to hash; in every other case it succeeds. A reset that fails changes nothing.
\<close>

theorem reset_errors:
  assumes "auth_service S view elapse dview text_ok inet_ok" and "good_state S view dview w"
  shows "(\<forall>x. (\<exists>w'. reset_password S dr c w = (Inl x, w')) \<longleftrightarrow> reset_failure S (the_db dview w) dr c x) \<and>
    (\<forall>x w'. reset_password S dr c w = (Inl x, w') \<longrightarrow>
       w_redis w' = w_redis w \<and> w_outbox w' = w_outbox w \<and> good_state S view dview w' \<and> the_db dview w' = the_db dview w)"
proof -
  have "reset_failure S (the_db dview w) dr c x \<and> w_redis w' = w_redis w \<and> w_outbox w' = w_outbox w \<and>
      good_state S view dview w' \<and> the_db dview w' = the_db dview w"
    if run: "reset_password S dr c w = (Inl x, w')" for x w'
  proof -
    obtain y where y: "reset_failure S (the_db dview w) dr c y"
      using auth_service.reset_succeeds[OF assms, of dr c] run by fastforce
    from auth_service.reset_fails[OF assms y] run show ?thesis using y by auto
  qed
  moreover have "\<exists>w'. reset_password S dr c w = (Inl x, w')" if "reset_failure S (the_db dview w) dr c x" for x
    using auth_service.reset_fails[OF assms that] by blast
  ultimately show ?thesis by blast
qed

theorem reset_errors_witness:
  "reset_failure ref_service (the_db id_view session_world) demo_draws (demo_reset (lit ''raw''))
     (TokenNotFoundError (lit ''Reset token not found'')) \<and>
   (\<exists>w'. reset_password ref_service demo_draws (demo_reset (lit ''raw'')) session_world =
     (Inl (TokenNotFoundError (lit ''Reset token not found'')), w') \<and> w_redis w' = w_redis session_world)"
proof -
  have "reset_failure ref_service (the_db id_view session_world) demo_draws (demo_reset (lit ''raw''))
      (TokenNotFoundError (lit ''Reset token not found''))"
    by (simp add: reset_failure_def demo_digest demo_passwords digest_free_def)
  then show ?thesis
    using reset_errors[OF refsvc.auth_service_axioms session_world(1), of demo_draws "demo_reset (lit ''raw'')"] by blast
qed

text \<open>
  A registration that is refused says why and changes nothing: a malformed
  address, a weak password, an address that an account already has under any spelling.
\<close>

theorem register_errors:
  assumes "auth_service S view elapse dview text_ok inet_ok" and "good_state S view dview w"
  shows "(\<forall>x. Email_new (sv_unicode S) (ru_email c) = Inl x \<longrightarrow> register_user S dr c w = (Inl x, w)) \<and>
    (\<forall>e x. Email_new (sv_unicode S) (ru_email c) = Inr e \<longrightarrow> PlainPassword_new (sv_unicode S) (ru_password c) = Inl x \<longrightarrow>
       register_user S dr c w = (Inl x, w)) \<and>
    (\<forall>e p i u. Email_new (sv_unicode S) (ru_email c) = Inr e \<longrightarrow> PlainPassword_new (sv_unicode S) (ru_password c) = Inr p \<longrightarrow>
       accounts (the_db dview w) i = Some u \<longrightarrow> user_email u = e \<longrightarrow>
       (\<exists>d. register_user S dr c w = (Inl (UserAlreadyExistsError (lit ''An account with this email already exists'')), w\<lparr>w_db := d\<rparr>) \<and>
          good_state S view dview (w\<lparr>w_db := d\<rparr>) \<and> the_db dview (w\<lparr>w_db := d\<rparr>) = the_db dview w))"
proof (intro conjI allI impI)
  fix e p i u
  assume a: "Email_new (sv_unicode S) (ru_email c) = Inr e" "PlainPassword_new (sv_unicode S) (ru_password c) = Inr p"
    "accounts (the_db dview w) i = Some u" "user_email u = e"
  obtain d where "find_by_email (sv_unicode S) (sv_sql S) e (w_db w) = (Inr (Some u), d)"
      "dbs_ok (sv_unicode S) (dview d)" "db_abs (working (dview d)) = the_db dview w"
    using auth_service.found_account[OF assms a(1,3,4)] .
  then show "\<exists>d. register_user S dr c w = (Inl (UserAlreadyExistsError (lit ''An account with this email already exists'')), w\<lparr>w_db := d\<rparr>) \<and>
      good_state S view dview (w\<lparr>w_db := d\<rparr>) \<and> the_db dview (w\<lparr>w_db := d\<rparr>) = the_db dview w"
    using assms(2) a by (intro exI[of _ d]) (simp add: register_user_def on_db_def raise_exn_def good_state_def)
qed (simp_all add: register_user_def raise_exn_def)

theorem register_errors_witness:
  "\<exists>d. register_user ref_service demo_draws \<lparr>ru_email = lit '' Bob@X.Org '', ru_password = lit ''secret-43''\<rparr> session_world =
     (Inl (UserAlreadyExistsError (lit ''An account with this email already exists'')), session_world\<lparr>w_db := d\<rparr>)"
  using register_errors[OF refsvc.auth_service_axioms session_world(1), THEN conjunct2, THEN conjunct2, rule_format,
      of "\<lparr>ru_email = lit '' Bob@X.Org '', ru_password = lit ''secret-43''\<rparr>" "\<lparr>email_value = lit ''bob@x.org''\<rparr>"
        "\<lparr>plain_value = lit ''secret-43''\<rparr>" 1 demo_user demo_draws]
  by (auto simp: demo_emails demo_passwords demo_world(6))

end
