(* ===== verification/Scope.thy ===== *)
theory Scope
  imports Handlers
begin

text \<open>
  \<open>RequestScope\<close> of \<open>auth_service/container.py\<close>: what a resolver finds in its context. The
  services and the repository it calls directly and the six handlers are the operations
  bound to the parts of the container; a handler gets the lifetimes the container holds.
\<close>

record ('r, 'd) RequestScope =
  sc_decode_access_token :: "datetime \<Rightarrow> pystr \<Rightarrow> exn + claims"
  sc_is_access_jti_valid :: "pystr \<Rightarrow> (('r, 'd) world, bool) act"
  sc_get_session :: "uuid \<Rightarrow> (('r, 'd) world, session_data option) act"
  sc_find_by_id :: "uuid \<Rightarrow> (('r, 'd) world, User option) act"
  sc_idempotency_store :: "'r redis_exec"
  sc_register_user_handler :: "draws \<Rightarrow> RegisterUserCommand \<Rightarrow> (('r, 'd) world, unit) act"
  sc_authenticate_user_handler :: "draws \<Rightarrow> AuthenticateUserCommand \<Rightarrow> (('r, 'd) world, TokenPairDTO) act"
  sc_refresh_token_handler :: "draws \<Rightarrow> RefreshTokenCommand \<Rightarrow> (('r, 'd) world, TokenPairDTO) act"
  sc_revoke_session_handler :: "draws \<Rightarrow> RevokeSessionCommand \<Rightarrow> (('r, 'd) world, unit) act"
  sc_request_password_reset_handler :: "draws \<Rightarrow> RequestPasswordResetCommand \<Rightarrow> (('r, 'd) world, unit) act"
  sc_reset_password_handler :: "draws \<Rightarrow> ResetPasswordCommand \<Rightarrow> (('r, 'd) world, unit) act"

definition new_RequestScope :: "('r, 'd) service \<Rightarrow> ('r, 'd) RequestScope" where
  "new_RequestScope S =
     \<lparr>sc_decode_access_token = decode_access_token (sv_crypto S) (sv_secret S),
      sc_is_access_jti_valid = (\<lambda>jti. on_redis (is_access_jti_valid (sv_exec S) jti)),
      sc_get_session = (\<lambda>session_id. on_redis (get_session (sv_exec S) session_id)),
      sc_find_by_id = (\<lambda>uid. on_db (find_by_id (sv_unicode S) (sv_sql S) uid)),
      sc_idempotency_store = sv_exec S,
      sc_register_user_handler = register_user S,
      sc_authenticate_user_handler = authenticate_user S,
      sc_refresh_token_handler = refresh_token S,
      sc_revoke_session_handler = revoke_session_handler S,
      sc_request_password_reset_handler = request_password_reset S,
      sc_reset_password_handler = reset_password S\<rparr>"

lemma scope_simps [simp]:
  "sc_decode_access_token (new_RequestScope S) = decode_access_token (sv_crypto S) (sv_secret S)"
  "sc_is_access_jti_valid (new_RequestScope S) jti = on_redis (is_access_jti_valid (sv_exec S) jti)"
  "sc_get_session (new_RequestScope S) session_id = on_redis (get_session (sv_exec S) session_id)"
  "sc_find_by_id (new_RequestScope S) uid = on_db (find_by_id (sv_unicode S) (sv_sql S) uid)"
  "sc_idempotency_store (new_RequestScope S) = sv_exec S"
  "sc_register_user_handler (new_RequestScope S) = register_user S"
  "sc_authenticate_user_handler (new_RequestScope S) = authenticate_user S"
  "sc_refresh_token_handler (new_RequestScope S) = refresh_token S"
  "sc_revoke_session_handler (new_RequestScope S) = revoke_session_handler S"
  "sc_request_password_reset_handler (new_RequestScope S) = request_password_reset S"
  "sc_reset_password_handler (new_RequestScope S) = reset_password S"
  by (simp_all add: new_RequestScope_def)

end
