(* ===== verification/Presentation.thy ===== *)
theory Presentation
  imports HandlerProps Scope
begin

text \<open>
  The GraphQL layer, \<open>auth_service/presentation/graphql\<close>: input and output types, the six
  mutations and the query \<open>me\<close>, with the parts of the HTTP request they read. A resolver is
  an action on the world that calls the operations of its \<open>RequestScope\<close>; what it catches it turns into a result or a
  \<open>StrawberryGraphQLError\<close>, everything else it lets through.
\<close>

section \<open>Types\<close>

record http_request =
  hr_authorization :: "pystr option"
  hr_client :: "pystr option"
  hr_real_ip :: "pystr option"
  hr_idempotency_key :: "pystr option"

record RegisterInput =
  ri_email :: pystr
  ri_password :: pystr

record LoginInput =
  li_email :: pystr
  li_password :: pystr
  li_device_info :: "pystr option"

record RefreshTokenInput =
  fi_refresh_token :: pystr

record RevokeSessionInput =
  vi_session_id :: pystr

record RequestResetInput =
  qi_email :: pystr

record ResetPasswordInput =
  pi_token :: pystr
  pi_new_password :: pystr

record AuthPayload =
  ap_access_token :: pystr
  ap_refresh_token :: pystr
  ap_session_id :: pystr
  ap_token_type :: pystr

record OperationResult =
  or_success :: bool
  or_message :: pystr

record UserInfo =
  ui_id :: pystr
  ui_email :: pystr
  ui_is_active :: bool

definition succeeded :: "string \<Rightarrow> OperationResult" where
  "succeeded m = \<lparr>or_success = True, or_message = lit m\<rparr>"

definition denied :: "pystr \<Rightarrow> OperationResult" where
  "denied m = \<lparr>or_success = False, or_message = m\<rparr>"

section \<open>Mutations\<close>

definition register_mutation ::
  "('r, 'd) service \<Rightarrow> draws \<Rightarrow> RegisterInput \<Rightarrow> (('r, 'd) world, OperationResult) act" where
  "register_mutation S dr i =
     catch (bnd (sc_register_user_handler (new_RequestScope S) dr \<lparr>ru_email = ri_email i, ru_password = ri_password i\<rparr>)
              (\<lambda>_. ret (succeeded ''User registered successfully'')))
       (\<lambda>e. case e of
          InvalidEmailError m \<Rightarrow> ret (denied m)
        | WeakPasswordError m \<Rightarrow> ret (denied m)
        | UserAlreadyExistsError _ \<Rightarrow> ret (denied (lit ''Registration could not be completed''))
        | _ \<Rightarrow> raise_exn e)"

definition payload_of :: "TokenPairDTO \<Rightarrow> AuthPayload" where
  "payload_of p =
     \<lparr>ap_access_token = tp_access_token p, ap_refresh_token = tp_refresh_token p,
      ap_session_id = str_uuid (tp_session_id p), ap_token_type = tp_token_type p\<rparr>"

definition login_mutation ::
  "('r, 'd) service \<Rightarrow> draws \<Rightarrow> http_request \<Rightarrow> LoginInput \<Rightarrow> (('r, 'd) world, AuthPayload) act" where
  "login_mutation S dr req i =
     catch (bnd (sc_authenticate_user_handler (new_RequestScope S) dr
                   \<lparr>au_email = li_email i, au_password = li_password i, au_device_info = li_device_info i,
                    au_ip_address = hr_client req\<rparr>)
              (\<lambda>p. ret (payload_of p)))
       (\<lambda>e. case e of
          InvalidCredentialsError m \<Rightarrow> raise_exn (StrawberryGraphQLError m)
        | InvalidEmailError m \<Rightarrow> raise_exn (StrawberryGraphQLError m)
        | _ \<Rightarrow> raise_exn e)"

definition refresh_token_mutation ::
  "('r, 'd) service \<Rightarrow> draws \<Rightarrow> http_request \<Rightarrow> RefreshTokenInput \<Rightarrow> (('r, 'd) world, AuthPayload) act" where
  "refresh_token_mutation S dr req i =
     catch (bnd (sc_refresh_token_handler (new_RequestScope S) dr \<lparr>rt_refresh_token = fi_refresh_token i, rt_ip_address = hr_client req\<rparr>)
              (\<lambda>p. ret (payload_of p)))
       (\<lambda>e. case e of InvalidTokenError m \<Rightarrow> raise_exn (StrawberryGraphQLError m) | _ \<Rightarrow> raise_exn e)"

text \<open>The bearer token of the request, as \<open>revoke_session\<close> and \<open>me\<close> read it.\<close>

definition bearer_token :: "unicode \<Rightarrow> http_request \<Rightarrow> pystr option" where
  "bearer_token U req =
     (let auth_header = (case hr_authorization req of None \<Rightarrow> [] | Some h \<Rightarrow> h)
      in if \<not> py_startswith auth_header (lit ''Bearer '') then None
         else Some (py_strip U (py_removeprefix auth_header (lit ''Bearer ''))))"

text \<open>\<open>claims.get(k)\<close> where the code goes on only when it is true.\<close>

definition claim_text :: "claims \<Rightarrow> string \<Rightarrow> pystr option" where
  "claim_text c k = (case c (lit k) of None \<Rightarrow> None | Some s \<Rightarrow> if s = [] then None else Some s)"

text \<open>The part of \<open>revoke_session\<close> after the caller is known.\<close>

definition revoke_owned ::
  "('r, 'd) service \<Rightarrow> draws \<Rightarrow> http_request \<Rightarrow> pystr \<Rightarrow> RevokeSessionInput \<Rightarrow> (('r, 'd) world, OperationResult) act" where
  "revoke_owned S dr req caller_user_id i =
     bnd (lift_res (UUID (sv_unicode S) (vi_session_id i))) (\<lambda>session_id.
     bnd (sc_get_session (new_RequestScope S) session_id) (\<lambda>session_data.
       case session_data of
         None \<Rightarrow> ret (denied (lit ''Session not found''))
       | Some data \<Rightarrow>
           if map_of data (lit ''user_id'') \<noteq> Some caller_user_id
           then ret (denied (lit ''Not authorised to revoke this session''))
           else
             catch (bnd (sc_revoke_session_handler (new_RequestScope S) dr
                           \<lparr>rs_session_id = session_id, rs_ip_address = hr_client req\<rparr>)
                      (\<lambda>_. ret (succeeded ''Session revoked'')))
               (\<lambda>_. ret (denied (lit ''Internal error'')))))"

definition revoke_session_mutation ::
  "('r, 'd) service \<Rightarrow> draws \<Rightarrow> http_request \<Rightarrow> RevokeSessionInput \<Rightarrow> (('r, 'd) world, OperationResult) act" where
  "revoke_session_mutation S dr req i =
     (let auth_required = ret (denied (lit ''Authentication required'')) in
      case bearer_token (sv_unicode S) req of
        None \<Rightarrow> auth_required
      | Some token \<Rightarrow>
          (case sc_decode_access_token (new_RequestScope S) (dr_now dr) token of
             Inl (TokenExpiredError _) \<Rightarrow> auth_required
           | Inl (InvalidTokenError _) \<Rightarrow> auth_required
           | Inl e \<Rightarrow> raise_exn e
           | Inr claims \<Rightarrow>
               (case (claim_text claims ''sub'', claim_text claims ''jti'') of
                  (Some caller_user_id, Some jti) \<Rightarrow>
                    bnd (sc_is_access_jti_valid (new_RequestScope S) jti) (\<lambda>valid.
                      if \<not> valid then auth_required else revoke_owned S dr req caller_user_id i)
                | _ \<Rightarrow> auth_required)))"

definition request_password_reset_mutation ::
  "('r, 'd) service \<Rightarrow> draws \<Rightarrow> http_request \<Rightarrow> RequestResetInput \<Rightarrow> (('r, 'd) world, OperationResult) act" where
  "request_password_reset_mutation S dr req i =
     catch (bnd (sc_request_password_reset_handler (new_RequestScope S) dr \<lparr>rq_email = qi_email i, rq_ip_address = hr_client req\<rparr>)
              (\<lambda>_. ret (succeeded ''If this email is registered, a reset link has been sent'')))
       (\<lambda>e. case e of
          InvalidEmailError m \<Rightarrow> ret (denied m)
        | UserNotFoundError m \<Rightarrow> ret (denied m)
        | _ \<Rightarrow> raise_exn e)"

definition reset_password_mutation ::
  "('r, 'd) service \<Rightarrow> draws \<Rightarrow> http_request \<Rightarrow> ResetPasswordInput \<Rightarrow> (('r, 'd) world, OperationResult) act" where
  "reset_password_mutation S dr req i =
     catch (bnd (sc_reset_password_handler (new_RequestScope S) dr
                   \<lparr>rp_token = pi_token i, rp_new_password = pi_new_password i, rp_ip_address = hr_client req\<rparr>)
              (\<lambda>_. ret (succeeded ''Password reset successfully'')))
       (\<lambda>e. case e of
          TokenExpiredError _ \<Rightarrow> ret (denied (lit ''Invalid or expired reset token''))
        | TokenAlreadyUsedError _ \<Rightarrow> ret (denied (lit ''Invalid or expired reset token''))
        | TokenNotFoundError _ \<Rightarrow> ret (denied (lit ''Invalid or expired reset token''))
        | UserNotFoundError m \<Rightarrow> ret (denied m)
        | WeakPasswordError m \<Rightarrow> ret (denied m)
        | InvalidTokenError m \<Rightarrow> ret (denied m)
        | _ \<Rightarrow> raise_exn e)"

section \<open>The query me\<close>

definition me :: "('r, 'd) service \<Rightarrow> draws \<Rightarrow> http_request \<Rightarrow> (('r, 'd) world, UserInfo option) act" where
  "me S dr req =
     (case bearer_token (sv_unicode S) req of
        None \<Rightarrow> ret None
      | Some token \<Rightarrow>
          if token = [] then ret None
          else
            (case sc_decode_access_token (new_RequestScope S) (dr_now dr) token of
               Inl (TokenExpiredError _) \<Rightarrow> ret None
             | Inl (InvalidTokenError _) \<Rightarrow> ret None
             | Inl e \<Rightarrow> raise_exn e
             | Inr claims \<Rightarrow>
                 (case (claim_text claims ''jti'', claim_text claims ''sub'') of
                    (Some jti, Some user_id_str) \<Rightarrow>
                      bnd (sc_is_access_jti_valid (new_RequestScope S) jti) (\<lambda>valid.
                        if \<not> valid then ret None
                        else
                          bnd (lift_res (UUID (sv_unicode S) user_id_str)) (\<lambda>uid.
                          bnd (sc_find_by_id (new_RequestScope S) uid) (\<lambda>found.
                            case found of
                              None \<Rightarrow> ret None
                            | Some user \<Rightarrow>
                                if \<not> is_active user then ret None
                                else ret (Some \<lparr>ui_id = str_uuid (user_id user), ui_email = email_value (user_email user),
                                               ui_is_active = is_active user\<rparr>))))
                  | _ \<Rightarrow> ret None)))"

text \<open>The resolvers with the operations of the scope written out.\<close>

lemmas register_mutation_eq = register_mutation_def[unfolded scope_simps]
lemmas login_mutation_eq = login_mutation_def[unfolded scope_simps]
lemmas refresh_token_mutation_eq = refresh_token_mutation_def[unfolded scope_simps]
lemmas revoke_owned_eq = revoke_owned_def[unfolded scope_simps]
lemmas revoke_session_mutation_eq = revoke_session_mutation_def[unfolded scope_simps]
lemmas request_password_reset_mutation_eq = request_password_reset_mutation_def[unfolded scope_simps]
lemmas reset_password_mutation_eq = reset_password_mutation_def[unfolded scope_simps]
lemmas me_eq = me_def[unfolded scope_simps]

section \<open>Who may do what\<close>

lemma claim_text_Some: "claim_text c k = Some s \<longleftrightarrow> c (lit k) = Some s \<and> s \<noteq> []"
  by (auto simp: claim_text_def split: option.splits)

lemma on_redis_iff: "on_redis f w = (res, w') \<longleftrightarrow> (\<exists>r. f (w_redis w) = (res, r) \<and> w' = w\<lparr>w_redis := r\<rparr>)"
  by (auto simp: on_redis_def split: prod.splits)

lemma on_db_iff: "on_db f w = (res, w') \<longleftrightarrow> (\<exists>d. f (w_db w) = (res, d) \<and> w' = w\<lparr>w_db := d\<rparr>)"
  by (auto simp: on_db_def split: prod.splits)

lemma decode_errors: "decode_access_token C k now t = Inl e \<Longrightarrow> (\<exists>m. e = TokenExpiredError m) \<or> (\<exists>m. e = InvalidTokenError m)"
  by (auto simp: decode_access_token_def split: sum.splits jwt_error.splits)

text \<open>The two resolvers, with the caller's claims at hand.\<close>

lemma me_unauthenticated:
  "bearer_token (sv_unicode S) req = None \<Longrightarrow> me S dr req = ret None"
  "bearer_token (sv_unicode S) req = Some [] \<Longrightarrow> me S dr req = ret None"
  "bearer_token (sv_unicode S) req = Some t \<Longrightarrow> decode_access_token (sv_crypto S) (sv_secret S) (dr_now dr) t = Inl e \<Longrightarrow>
     me S dr req = ret None"
  using decode_errors[of "sv_crypto S" "sv_secret S" "dr_now dr" t e] by (auto simp: me_eq)

lemma revoke_unauthenticated:
  "bearer_token (sv_unicode S) req = None \<Longrightarrow>
     revoke_session_mutation S dr req i = ret (denied (lit ''Authentication required''))"
  "bearer_token (sv_unicode S) req = Some t \<Longrightarrow> decode_access_token (sv_crypto S) (sv_secret S) (dr_now dr) t = Inl e \<Longrightarrow>
     revoke_session_mutation S dr req i = ret (denied (lit ''Authentication required''))"
  "bearer_token (sv_unicode S) req = Some t \<Longrightarrow> decode_access_token (sv_crypto S) (sv_secret S) (dr_now dr) t = Inr c \<Longrightarrow>
     claim_text c ''jti'' = None \<or> claim_text c ''sub'' = None \<Longrightarrow>
     revoke_session_mutation S dr req i = ret (denied (lit ''Authentication required''))"
  using decode_errors[of "sv_crypto S" "sv_secret S" "dr_now dr" t e]
  by (auto simp: revoke_session_mutation_eq Let_def split: option.split)

text \<open>
  Claim C8. Whatever the stores and the libraries answer, \<open>me\<close> returns a user only for a
  request with a bearer token that decodes, whose id Redis lists at that moment, and whose
  subject is an active account; and it returns that account.
\<close>

theorem me_requires_live_token:
  assumes "me S dr req w = (Inr (Some info), w')"
  shows "\<exists>token claims jti sub uid user r d. bearer_token (sv_unicode S) req = Some token \<and>
    decode_access_token (sv_crypto S) (sv_secret S) (dr_now dr) token = Inr claims \<and>
    claims (lit ''jti'') = Some jti \<and> is_access_jti_valid (sv_exec S) jti (w_redis w) = (Inr True, r) \<and>
    claims (lit ''sub'') = Some sub \<and> UUID (sv_unicode S) sub = Inr uid \<and>
    find_by_id (sv_unicode S) (sv_sql S) uid (w_db w) = (Inr (Some user), d) \<and> is_active user \<and>
    info = \<lparr>ui_id = str_uuid (user_id user), ui_email = email_value (user_email user), ui_is_active = True\<rparr>"
proof -
  obtain token where t: "bearer_token (sv_unicode S) req = Some token" "token \<noteq> []"
    using assms me_unauthenticated(1,2)[of S req dr]
    by (cases "bearer_token (sv_unicode S) req"; cases "bearer_token (sv_unicode S) req = Some []") (simp_all add: ret_def)
  obtain claims where c: "decode_access_token (sv_crypto S) (sv_secret S) (dr_now dr) token = Inr claims"
    using assms me_unauthenticated(3)[OF t(1), of dr] by (cases "decode_access_token (sv_crypto S) (sv_secret S) (dr_now dr) token") (auto simp: ret_def)
  obtain jti sub where k: "claim_text claims ''jti'' = Some jti" "claim_text claims ''sub'' = Some sub"
    using assms t c by (auto simp: me_eq ret_def split: option.splits)
  note run = assms[unfolded me_eq t(1) option.case c sum.case k prod.case if_not_P[OF t(2)]]
  obtain v r where v: "is_access_jti_valid (sv_exec S) jti (w_redis w) = (Inr v, r)"
      and run2: "(if \<not> v then ret None else
        bnd (lift_res (UUID (sv_unicode S) sub)) (\<lambda>uid. bnd (on_db (find_by_id (sv_unicode S) (sv_sql S) uid)) (\<lambda>found.
          case found of None \<Rightarrow> ret None | Some user \<Rightarrow> if \<not> is_active user then ret None
            else ret (Some \<lparr>ui_id = str_uuid (user_id user), ui_email = email_value (user_email user), ui_is_active = is_active user\<rparr>))))
        (w\<lparr>w_redis := r\<rparr>) = (Inr (Some info), w')"
    using run by (auto elim!: bnd_InrE simp: on_redis_iff)
  have "v" using run2 by (cases v) (simp_all add: ret_def)
  then obtain uid found d where u: "UUID (sv_unicode S) sub = Inr uid"
      "find_by_id (sv_unicode S) (sv_sql S) uid (w_db w) = (Inr found, d)"
      "(case found of None \<Rightarrow> ret None | Some user \<Rightarrow> if \<not> is_active user then ret None
            else ret (Some \<lparr>ui_id = str_uuid (user_id user), ui_email = email_value (user_email user), ui_is_active = is_active user\<rparr>))
        (w\<lparr>w_redis := r, w_db := d\<rparr>) = (Inr (Some info), w')"
    using run2 by (auto elim!: bnd_InrE simp: on_db_iff lift_res_def)
  obtain user where "found = Some user" "is_active user"
      "info = \<lparr>ui_id = str_uuid (user_id user), ui_email = email_value (user_email user), ui_is_active = True\<rparr>"
    using u(3) by (auto simp: ret_def split: option.splits if_splits)
  then show ?thesis using t(1) c k v \<open>v\<close> u(1,2) by (auto simp: claim_text_Some)
qed

text \<open>What the two look-ups of the resolver leave of Redis, and the keys of a session.\<close>

definition session_keys :: "session_data \<Rightarrow> uuid \<Rightarrow> pystr set" where
  "session_keys data sid =
     {session_key (str_uuid sid), access_key (data_get data ''current_jti''), refresh_key (data_get data ''current_refresh''),
      user_sessions_key (data_get data ''user_id'')}"

context redis_server
begin

lemma read_view: "is_read c \<Longrightarrow> view (snd (redis_call exec c r)) = view r"
  by (cases "sendable c") (simp_all add: redis_call_state effect_read, simp add: redis_call_def)

lemma valid_view: "is_access_jti_valid exec j r = (res, r') \<Longrightarrow> view r' = view r"
  using read_view[of "EXISTS (access_key j)" r]
  by (auto simp: is_access_jti_valid_def bnd_def ret_def raise_exn_def split: prod.splits sum.splits redis_reply.splits)

lemma get_session_view: "get_session exec sid r = (res, r') \<Longrightarrow> view r' = view r"
  using read_view[of "HGETALL (session_key (str_uuid sid))" r]
  by (auto simp: get_session_def bnd_def ret_def raise_exn_def split: prod.splits sum.splits redis_reply.splits if_splits)

lemma get_session_data:
  assumes "get_session exec sid r = (Inr (Some data), r')"
  shows "\<exists>h e. view r (session_key (str_uuid sid)) = Some (RHash h, e) \<and> map_of data = h"
proof -
  let ?c = "HGETALL (session_key (str_uuid sid))"
  have "redis_call exec ?c r = (Inr (RMap data), r')" "data \<noteq> []"
    using assms by (auto simp: get_session_def ret_def raise_exn_def elim!: bnd_InrE split: redis_reply.splits if_splits)
  then have "fst (exec ?c r) = RMap data" by (auto simp: redis_call_def split: if_splits prod.splits redis_reply.splits)
  then show ?thesis using exec_reply[of ?c r] \<open>data \<noteq> []\<close>
    by (auto simp: is_error_def split: option.splits redis_value.splits)
qed

text \<open>Revoking a session touches its own keys only.\<close>

lemma revoke_session_keys:
  assumes d: "get_session exec sid r0 = (Inr (Some data), r1)" and v: "view r = view r0"
    and run: "revoke_session exec sid r = (res, r')" and k: "k \<notin> session_keys data sid"
  shows "view r' k = view r k"
proof -
  obtain x r2 where g: "get_session exec sid r = (x, r2)" by fastforce
  have r2: "view r2 = view r" by (rule get_session_view[OF g])
  show ?thesis
  proof (cases "\<exists>data'. x = Inr (Some data')")
    case False
    then have "r' = r2" using run g by (cases x) (auto simp: revoke_session_def bnd_def ret_def split: option.splits)
    then show ?thesis using r2 by simp
  next
    case True
    then obtain data' where x: "x = Inr (Some data')" by blast
    have "map_of data' = map_of data" using get_session_data[OF d] get_session_data[OF g[unfolded x]] v by auto
    then have f: "data_get data' f = data_get data f" for f by (simp add: data_get_def)
    let ?cs = "revoke_cmds sid (data_get data ''user_id'') (data_get data ''current_jti'') (data_get data ''current_refresh'')"
    have c: "\<forall>c\<in>set ?cs. k \<noteq> cmd_key c" using k by (auto simp: revoke_cmds_def session_keys_def)
    have "view (snd (redis_pipeline exec ?cs r2)) k = view r2 k"
      using pipeline_state[of ?cs r2] pipe_other_key[OF c] by (cases "list_all sendable ?cs") (simp_all add: redis_pipeline_def)
    moreover have "r' = snd (redis_pipeline exec ?cs r2)"
      using run g x f by (auto simp: revoke_session_def bnd_def ret_def split: prod.splits sum.splits)
    ultimately show ?thesis using r2 by simp
  qed
qed

end

lemma revoke_handler_keys:
  assumes srv: "redis_server (sv_exec S) view elapse" and d: "get_session (sv_exec S) (rs_session_id cmd) r0 = (Inr (Some data), r1)"
    and v: "view (w_redis w) = view r0" and run: "revoke_session_handler S dr cmd w = (res, w')"
    and k: "k \<notin> session_keys data (rs_session_id cmd)"
  shows "view (w_redis w') k = view (w_redis w) k"
proof -
  obtain x r2 where g: "get_session (sv_exec S) (rs_session_id cmd) (w_redis w) = (x, r2)" by fastforce
  have r2: "view r2 = view (w_redis w)" by (rule redis_server.get_session_view[OF srv g])
  obtain y r3 where y: "revoke_session (sv_exec S) (rs_session_id cmd) r2 = (y, r3)" by fastforce
  have r3: "view r3 k = view r2 k"
    by (rule redis_server.revoke_session_keys[OF srv d _ y k]) (simp add: r2 v)
  let ?w2 = "w\<lparr>w_redis := r2\<rparr>"
  have "w_redis w' = r2 \<or> w_redis w' = r3"
  proof (cases x)
    case (Inl e)
    then show ?thesis using run g by (auto simp: revoke_session_handler_def bnd_def on_redis_def)
  next
    case (Inr sd)
    let ?owner = "case sd of
        None \<Rightarrow> ret None
      | Some data \<Rightarrow> (case map_of data (lit ''user_id'') of
            None \<Rightarrow> ret None
          | Some raw_uid \<Rightarrow> bnd (lift_res (UUID (sv_unicode S) raw_uid)) (\<lambda>uid. ret (Some uid)))"
    have "snd (?owner ?w2) = ?w2"
      by (auto simp: ret_def lift_res_def bnd_def raise_exn_def split: option.split sum.split)
    then obtain z where z: "?owner ?w2 = (z, ?w2)" by (metis prod.collapse)
    have rest: "(case z of Inl e \<Rightarrow> (Inl e, ?w2) | Inr uid \<Rightarrow> (case y of Inl e \<Rightarrow> (Inl e, ?w2\<lparr>w_redis := r3\<rparr>)
        | Inr _ \<Rightarrow> audit S dr SESSION_REVOKED uid (Some (rs_session_id cmd)) (rs_ip_address cmd)
            [(lit ''reason'', lit ''user_logout'')] (?w2\<lparr>w_redis := r3\<rparr>))) = (res, w')"
      using run g y z Inr by (cases z; cases y) (auto simp: revoke_session_handler_def bnd_def on_redis_def)
    show ?thesis
    proof (cases z)
      case (Inr uid)
      obtain d where "audit S dr SESSION_REVOKED uid (Some (rs_session_id cmd)) (rs_ip_address cmd)
            [(lit ''reason'', lit ''user_logout'')] (?w2\<lparr>w_redis := r3\<rparr>) = (Inr (), ?w2\<lparr>w_redis := r3, w_db := d\<rparr>)"
        using audit_result[of S dr SESSION_REVOKED uid "Some (rs_session_id cmd)" "rs_ip_address cmd"
            "[(lit ''reason'', lit ''user_logout'')]" "?w2\<lparr>w_redis := r3\<rparr>"] by blast
      then show ?thesis using rest Inr by (cases y) auto
    qed (use rest in auto)
  qed
  then show ?thesis using r2 r3 by auto
qed

text \<open>
  Claim C7. Over a Redis server, and whatever the database and the libraries answer,
  \<open>revokeSession\<close> reports success, changes a key of Redis or touches the database, with an
  answer or an exception, only for a caller with a bearer token that decodes and is listed,
  and a session whose recorded owner is the token's subject; and the only keys that change
  are those of that session: its record, its two current tokens, its entry in the index.
\<close>

theorem revoke_requires_owner:
  assumes "redis_server (sv_exec S) view elapse" and "revoke_session_mutation S dr req i w = (res, w')"
    and "(\<exists>x. res = Inr x \<and> or_success x) \<or> view (w_redis w') \<noteq> view (w_redis w) \<or> w_db w' \<noteq> w_db w"
  shows "\<exists>token claims jti caller sid data r r'. bearer_token (sv_unicode S) req = Some token \<and>
    decode_access_token (sv_crypto S) (sv_secret S) (dr_now dr) token = Inr claims \<and>
    claims (lit ''jti'') = Some jti \<and> is_access_jti_valid (sv_exec S) jti (w_redis w) = (Inr True, r) \<and>
    claims (lit ''sub'') = Some caller \<and> UUID (sv_unicode S) (vi_session_id i) = Inr sid \<and>
    get_session (sv_exec S) sid r = (Inr (Some data), r') \<and> map_of data (lit ''user_id'') = Some caller \<and>
    (\<forall>k. view (w_redis w') k \<noteq> view (w_redis w) k \<longrightarrow> k \<in> session_keys data sid)"
proof -
  have quiet: False if "w' = w\<lparr>w_redis := r\<rparr>" "view r = view (w_redis w)" "\<forall>x. res = Inr x \<longrightarrow> \<not> or_success x" for r
    using assms(3) that by auto
  have no: False if "ret (denied m) (w\<lparr>w_redis := r\<rparr>) = (res, w')" "view r = view (w_redis w)" for m r
    by (rule quiet[of r]) (use that in \<open>auto simp: ret_def denied_def\<close>)
  have no': False if "ret (denied m) w = (res, w')" for m using no[of m "w_redis w"] that by simp
  obtain token where t: "bearer_token (sv_unicode S) req = Some token"
    using assms(2) no' revoke_unauthenticated(1)[of S req dr i] by (cases "bearer_token (sv_unicode S) req") auto
  obtain claims where c: "decode_access_token (sv_crypto S) (sv_secret S) (dr_now dr) token = Inr claims"
    using assms(2) no' revoke_unauthenticated(2)[OF t, of dr _ i] by (cases "decode_access_token (sv_crypto S) (sv_secret S) (dr_now dr) token") auto
  obtain jti caller where k: "claim_text claims ''jti'' = Some jti" "claim_text claims ''sub'' = Some caller"
    using assms(2) no' revoke_unauthenticated(3)[OF t c, of i]
    by (cases "claim_text claims ''jti''"; cases "claim_text claims ''sub''") auto
  note run = assms(2)[unfolded revoke_session_mutation_eq Let_def t option.case c sum.case k prod.case]
  obtain v r where v: "is_access_jti_valid (sv_exec S) jti (w_redis w) = (v, r)" by fastforce
  have r: "view r = view (w_redis w)" by (rule redis_server.valid_view[OF assms(1) v])
  have "v = Inr True"
  proof (cases v)
    case (Inl e)
    then show ?thesis using run v quiet[OF _ r] by (auto simp: on_redis_def bnd_def)
  next
    case (Inr b)
    then show ?thesis using run v no[OF _ r] by (cases b) (auto simp: on_redis_def bnd_def)
  qed
  then have own: "revoke_owned S dr req caller i (w\<lparr>w_redis := r\<rparr>) = (res, w')" using run v by (simp add: on_redis_def bnd_def)
  obtain sid where s: "UUID (sv_unicode S) (vi_session_id i) = Inr sid"
    using own quiet[OF _ r] by (cases "UUID (sv_unicode S) (vi_session_id i)") (auto simp: revoke_owned_eq lift_res_def bnd_def raise_exn_def)
  obtain x r' where g: "get_session (sv_exec S) sid r = (x, r')" by fastforce
  have r': "view r' = view (w_redis w)" using redis_server.get_session_view[OF assms(1) g] r by simp
  obtain data where x: "x = Inr (Some data)"
  proof (cases x)
    case (Inl e)
    then show ?thesis using own s g quiet[OF _ r'] by (auto simp: revoke_owned_eq on_redis_def bnd_def)
  next
    case (Inr y)
    then show ?thesis using own s g no[OF _ r'] that by (cases y) (auto simp: revoke_owned_eq on_redis_def bnd_def)
  qed
  have m: "map_of data (lit ''user_id'') = Some caller"
    using own s g x no[OF _ r'] by (auto simp: revoke_owned_eq on_redis_def bnd_def split: if_splits)
  let ?cmd = "\<lparr>rs_session_id = sid, rs_ip_address = hr_client req\<rparr>"
  obtain h wh where h: "revoke_session_handler S dr ?cmd (w\<lparr>w_redis := r'\<rparr>) = (h, wh)" by fastforce
  then have "w' = wh" using own s g x m
    by (cases h) (auto simp: revoke_owned_eq on_redis_def bnd_def catch_def ret_def)
  then have "view (w_redis w') k = view (w_redis w) k" if "k \<notin> session_keys data sid" for k
    using revoke_handler_keys[OF assms(1) _ _ h, of r data r' k] g x r r' that by simp
  then show ?thesis using t c k v \<open>v = Inr True\<close> s g x m by (auto simp: claim_text_Some)
qed


section \<open>Sessions through the API\<close>

definition user_info :: "User \<Rightarrow> UserInfo" where
  "user_info u = \<lparr>ui_id = str_uuid (user_id u), ui_email = email_value (user_email u), ui_is_active = is_active u\<rparr>"

text \<open>The access token issued with the draws \<open>dr\<close> is in force at the time of the draws \<open>x\<close>.\<close>

definition in_force :: "('r, 'd) service \<Rightarrow> draws \<Rightarrow> draws \<Rightarrow> bool" where
  "in_force S dr x \<longleftrightarrow> dr_now dr \<le> dr_now x \<and> dr_now x < second (dr_now dr + minutes (sv_access_minutes S))"

text \<open>The request carries an access token with these claims, in force at the time of the draw.\<close>

definition carries :: "('r, 'd) service \<Rightarrow> draws \<Rightarrow> http_request \<Rightarrow> uuid \<Rightarrow> uuid \<Rightarrow> uuid \<Rightarrow> bool" where
  "carries S dr req uid sid jti \<longleftrightarrow>
     (\<exists>token. bearer_token (sv_unicode S) req = Some token \<and> token \<noteq> [] \<and>
        decode_access_token (sv_crypto S) (sv_secret S) (dr_now dr) token =
          Inr [lit ''sub'' \<mapsto> str_uuid uid, lit ''sid'' \<mapsto> str_uuid sid, lit ''jti'' \<mapsto> str_uuid jti])"

lemma strip_id:
  assumes "s \<noteq> []" and "\<not> py_isspace U (hd s)" and "\<not> py_isspace U (last s)"
  shows "py_strip U s = s"
proof -
  have "dropWhile (py_isspace U) s = s" using assms(1,2) by (cases s) simp_all
  moreover have "dropWhile (py_isspace U) (rev s) = rev s" using assms(1,3) by (cases s rule: rev_cases) simp_all
  ultimately show ?thesis by (simp add: py_strip_def py_lstrip_def py_rstrip_def)
qed

lemma claim_texts:
  "claim_text [lit ''sub'' \<mapsto> str_uuid u, lit ''sid'' \<mapsto> s, lit ''jti'' \<mapsto> str_uuid j] ''sub'' = Some (str_uuid u)"
  "claim_text [lit ''sub'' \<mapsto> str_uuid u, lit ''sid'' \<mapsto> s, lit ''jti'' \<mapsto> str_uuid j] ''jti'' = Some (str_uuid j)"
  by (simp_all add: claim_text_def lit_def)

context auth_service
begin

text \<open>A token the service has issued, sent in the header as it is.\<close>

lemma token_carried:
  assumes req: "hr_authorization req =
      Some (lit ''Bearer '' @ fst (generate_access_token (sv_crypto S) (sv_secret S) (sv_access_minutes S) iat jti uid sid))"
    and time: "iat \<le> dr_now dr" "dr_now dr < second (iat + minutes (sv_access_minutes S))"
  shows "carries S dr req uid sid jti"
proof -
  let ?t = "fst (generate_access_token (sv_crypto S) (sv_secret S) (sv_access_minutes S) iat jti uid sid)"
  have t: "?t \<noteq> []" "printable (hd ?t)" "printable (last ?t)" using jwt by (simp_all add: jwt_ok_def generate_access_token_def)
  then have "py_strip (sv_unicode S) ?t = ?t" by (intro strip_id) (simp_all add: printable_def py_isspace_def)
  then have "bearer_token (sv_unicode S) req = Some ?t" using req by (simp add: bearer_token_def startswith_iff)
  then show ?thesis using t(1) access_claims[OF time] by (simp add: carries_def)
qed

lemma jti_checked:
  assumes "store_ok (ms (sv_refresh_ttl S)) {} (view (w_redis w))"
  obtains r where "is_access_jti_valid (sv_exec S) (str_uuid j) (w_redis w) = (Inr (access (sess w) (str_uuid j) \<noteq> None), r)"
    "store_ok (ms (sv_refresh_ttl S)) {} (view r)" "abs_store (view r) = sess w"
  using rts.valid[OF assms, of "str_uuid j"] token_textD(2)[OF token_text_uuid] by blast

lemma me_dead:
  assumes ok: "store_ok (ms (sv_refresh_ttl S)) {} (view (w_redis w))" and c: "carries S dr req uid sid jti"
    and dead: "access (sess w) (str_uuid jti) = None"
  shows "fst (me S dr req w) = Inr None"
proof -
  obtain r where r: "is_access_jti_valid (sv_exec S) (str_uuid jti) (w_redis w) = (Inr False, r)"
    using jti_checked[OF ok, of jti] dead by auto
  show ?thesis using c by (auto simp: carries_def me_eq claim_texts on_redis_def r ret_def)
qed

lemma me_live:
  assumes g: "good w" and c: "carries S dr req uid sid jti"
    and live: "access (sess w) (str_uuid jti) \<noteq> None" and u: "accounts (db w) uid = Some u" "is_active u"
  shows "\<exists>r d. me S dr req w = (Inr (Some (user_info u)), w\<lparr>w_redis := r, w_db := d\<rparr>) \<and>
    good (w\<lparr>w_redis := r, w_db := d\<rparr>) \<and> abs_store (view r) = sess w \<and> db_abs (working (dview d)) = db w"
proof -
  obtain r where r: "is_access_jti_valid (sv_exec S) (str_uuid jti) (w_redis w) = (Inr True, r)"
      "store_ok (ms (sv_refresh_ttl S)) {} (view r)" "abs_store (view r) = sess w"
    using jti_checked[OF goodD(1)[OF g], of jti] live by auto
  obtain d where d: "find_by_id (sv_unicode S) (sv_sql S) uid (w_db w) = (Inr (Some u), d)"
      "dbs_ok (sv_unicode S) (dview d)" "db_abs (working (dview d)) = db w"
    using repo.find_id[OF goodD(2)[OF g], of uid] u(1) by auto
  have "me S dr req w = (Inr (Some (user_info u)), w\<lparr>w_redis := r, w_db := d\<rparr>)"
    using c u(2) by (auto simp: carries_def me_eq claim_texts on_redis_def r(1) UUID_str on_db_def d(1) user_info_def ret_def)
  then show ?thesis using r(2,3) d(2,3) by (auto simp: good_state_def)
qed

lemma owner_of_session:
  assumes ok: "store_ok (ms (sv_refresh_ttl S)) {} (view r)" and o: "owner (abs_store (view r)) (str_uuid sid) = Some u"
  obtains data r' where "get_session (sv_exec S) sid r = (Inr (Some data), r')" "view r' = view r"
    "map_of data (lit ''user_id'') = Some u"
  using store_okD(1)[OF ok]
proof (cases rule: get_session_run[where sid = sid, consumes 1, case_names none some])
  case (none r')
  then show ?thesis using o by (simp add: abs_store_def)
next
  case (some data r' m)
  then show ?thesis using that[of data r'] o by (simp add: abs_store_def)
qed

lemma revoke_mutation_run:
  assumes g: "good w" and c: "carries S dr req uid sid' jti" and live: "access (sess w) (str_uuid jti) \<noteq> None"
    and o: "owner (sess w) (str_uuid sid) = Some (str_uuid uid)" and i: "vi_session_id i = str_uuid sid"
  obtains r d where "revoke_session_mutation S dr req i w = (Inr (succeeded ''Session revoked''), w\<lparr>w_redis := r, w_db := d\<rparr>)"
    "store_ok (ms (sv_refresh_ttl S)) {} (view r)" "abs_store (view r) = a_revoke {str_uuid sid} (sess w)"
proof -
  obtain r1 where r1: "is_access_jti_valid (sv_exec S) (str_uuid jti) (w_redis w) = (Inr True, r1)"
      "store_ok (ms (sv_refresh_ttl S)) {} (view r1)" "abs_store (view r1) = sess w"
    using jti_checked[OF goodD(1)[OF g], of jti] live by auto
  obtain data r2 where r2: "get_session (sv_exec S) sid r1 = (Inr (Some data), r2)" "view r2 = view r1"
      "map_of data (lit ''user_id'') = Some (str_uuid uid)"
    using owner_of_session[OF r1(2)] o r1(3) by metis
  have g2: "good (w\<lparr>w_redis := r2\<rparr>)" using g r1(2) r2(2) by (simp add: good_state_def)
  let ?cmd = "\<lparr>rs_session_id = sid, rs_ip_address = hr_client req\<rparr>"
  obtain r d where h: "revoke_session_handler S dr ?cmd (w\<lparr>w_redis := r2\<rparr>) = (Inr (), w\<lparr>w_redis := r2, w_redis := r, w_db := d\<rparr>)"
      "store_ok (ms (sv_refresh_ttl S)) {} (view r)" "abs_store (view r) = a_revoke {str_uuid (rs_session_id ?cmd)} (sess (w\<lparr>w_redis := r2\<rparr>))"
    by (rule revoke_handler_run[OF g2, where cmd = ?cmd]) (rule that)
  have "revoke_owned S dr req (str_uuid uid) i (w\<lparr>w_redis := r1\<rparr>) = (Inr (succeeded ''Session revoked''), w\<lparr>w_redis := r, w_db := d\<rparr>)"
    using h(1) by (simp add: revoke_owned_eq i UUID_str on_redis_def r2(1,3) ret_def)
  then have "revoke_session_mutation S dr req i w = (Inr (succeeded ''Session revoked''), w\<lparr>w_redis := r, w_db := d\<rparr>)"
    using c by (auto simp: carries_def revoke_session_mutation_eq claim_texts on_redis_def r1(1))
  then show thesis using that[of d r] h(2,3) r1(3) r2(2) by simp
qed

lemma session_ends:
  assumes g: "good w" and u: "accounts (db w) uid = Some u" "is_active u"
    and a: "access (sess w) (str_uuid jti) = Some (str_uuid uid, str_uuid sid)" "refresh (sess w) tok = Some (str_uuid uid, str_uuid sid)"
    and tok: "py_text tok" and c: "carries S dr1 req uid sid jti" "carries S dr2 req uid sid jti" "carries S dr3 req uid sid jti"
  shows "\<exists>w2 w3. me S dr1 req w = (Inr (Some (user_info u)), w2) \<and>
    revoke_session_mutation S dr2 req \<lparr>vi_session_id = str_uuid sid\<rparr> w2 = (Inr (succeeded ''Session revoked''), w3) \<and>
    fst (me S dr3 req w3) = Inr None \<and>
    fst (refresh_token_mutation S dr4 req' \<lparr>fi_refresh_token = tok\<rparr> w3) =
      Inl (StrawberryGraphQLError (lit ''Invalid or expired refresh token''))"
proof -
  have own: "owner (sess w) (str_uuid sid) = Some (str_uuid uid)" using rts.access_owner[OF goodD(1)[OF g] a(1)] .
  obtain r2 d2 where m: "me S dr1 req w = (Inr (Some (user_info u)), w\<lparr>w_redis := r2, w_db := d2\<rparr>)"
      "good (w\<lparr>w_redis := r2, w_db := d2\<rparr>)" "abs_store (view r2) = sess w"
    using me_live[OF g c(1) _ u] a(1) by auto
  let ?w2 = "w\<lparr>w_redis := r2, w_db := d2\<rparr>"
  have acc: "access (sess ?w2) (str_uuid jti) \<noteq> None" "owner (sess ?w2) (str_uuid sid) = Some (str_uuid uid)"
    using a(1) own m(3) by simp_all
  obtain r3 d3 where q: "revoke_session_mutation S dr2 req \<lparr>vi_session_id = str_uuid sid\<rparr> ?w2 =
        (Inr (succeeded ''Session revoked''), ?w2\<lparr>w_redis := r3, w_db := d3\<rparr>)"
      "store_ok (ms (sv_refresh_ttl S)) {} (view r3)" "abs_store (view r3) = a_revoke {str_uuid sid} (sess ?w2)"
    by (rule revoke_mutation_run[OF m(2) c(2) acc, where i = "\<lparr>vi_session_id = str_uuid sid\<rparr>"]) (simp_all add: that)
  let ?w3 = "?w2\<lparr>w_redis := r3, w_db := d3\<rparr>"
  have gone: "access (sess ?w3) (str_uuid jti) = None" "refresh (sess ?w3) tok = None"
    using q(3) m(3) a by (simp_all add: a_revoke_def without_def)
  have ok: "store_ok (ms (sv_refresh_ttl S)) {} (view (w_redis ?w3))" using q(2) by simp
  have "fst (refresh_token S dr4 \<lparr>rt_refresh_token = tok, rt_ip_address = hr_client req'\<rparr> ?w3) = Inl invalid_refresh"
    using refused_refresh[OF ok, of "\<lparr>rt_refresh_token = tok, rt_ip_address = hr_client req'\<rparr>"] gone(2) tok by simp
  then have "fst (refresh_token_mutation S dr4 req' \<lparr>fi_refresh_token = tok\<rparr> ?w3) =
      Inl (StrawberryGraphQLError (lit ''Invalid or expired refresh token''))"
    by (auto simp: refresh_token_mutation_eq catch_def bnd_def raise_exn_def split: prod.splits)
  then show ?thesis using m(1) q(1) me_dead[OF ok c(3) gone(1)] by blast
qed

lemma lifecycle:
  assumes g: "good w" and e: "Email_new (sv_unicode S) (li_email i) = Inr e"
    and u: "accounts (db w) uid = Some u" "user_email u = e" "is_active u"
    and v: "verify (sv_crypto S) (li_password i) (hashed_value (hashed_password u)) = Inr True"
    and fresh: "fresh_draws view w dr" "fresh_session (view (w_redis w)) (dr_session_id dr)"
    and dev: "pred_option py_text (device_text (li_device_info i))"
    and ev: "event_storable text_ok inet_ok (db w) (audit_event dr LOGIN_SUCCESS (Some (user_id u)) (Some (dr_session_id dr))
       (hr_client req0) [(lit ''device_info'', case device_text (li_device_info i) of None \<Rightarrow> [] | Some d \<Rightarrow> d)])"
  shows "\<exists>p w1. login_mutation S dr req0 i w = (Inr p, w1) \<and> ap_session_id p = str_uuid (dr_session_id dr) \<and>
    ap_access_token p = fst (generate_access_token (sv_crypto S) (sv_secret S) (sv_access_minutes S) (dr_now dr) (dr_jti dr) uid (dr_session_id dr)) \<and>
    fst (get_session_by_refresh_token (sv_exec S) (ap_refresh_token p) (w_redis w1)) =
      Inr (Some \<lparr>ref_user_id = str_uuid uid, ref_session_id = ap_session_id p\<rparr>) \<and>
    (\<forall>req dr1 dr2 dr3 dr4 req'. hr_authorization req = Some (lit ''Bearer '' @ ap_access_token p) \<longrightarrow>
      in_force S dr dr1 \<and> in_force S dr dr2 \<and> in_force S dr dr3 \<longrightarrow>
      (\<exists>w2 w3. me S dr1 req w1 = (Inr (Some (user_info u)), w2) \<and>
        revoke_session_mutation S dr2 req \<lparr>vi_session_id = ap_session_id p\<rparr> w2 = (Inr (succeeded ''Session revoked''), w3) \<and>
        fst (me S dr3 req w3) = Inr None \<and>
        fst (refresh_token_mutation S dr4 req' \<lparr>fi_refresh_token = ap_refresh_token p\<rparr> w3) =
          Inl (StrawberryGraphQLError (lit ''Invalid or expired refresh token''))))"
proof -
  let ?cmd = "\<lparr>au_email = li_email i, au_password = li_password i, au_device_info = li_device_info i, au_ip_address = hr_client req0\<rparr>"
  let ?sid = "str_uuid (dr_session_id dr)" and ?jti = "str_uuid (dr_jti dr)"
  let ?tok = "fst (generate_access_token (sv_crypto S) (sv_secret S) (sv_access_minutes S) (dr_now dr) (dr_jti dr) uid (dr_session_id dr))"
  have id: "user_id u = uid" using repo.account_id[OF goodD(2)[OF g] u(1)] by simp
  have cmd: "Email_new (sv_unicode S) (au_email ?cmd) = Inr e" "pred_option py_text (device_text (au_device_info ?cmd))"
      "verify (sv_crypto S) (au_password ?cmd) (hashed_value (hashed_password u)) = Inr True" using e dev v by simp_all
  let ?pair = "\<lparr>tp_access_token = ?tok, tp_refresh_token = dr_refresh dr, tp_session_id = dr_session_id dr, tp_token_type = lit ''Bearer''\<rparr>"
  obtain r d0 d where l: "authenticate_user S dr ?cmd w = (Inr ?pair, w\<lparr>w_redis := r, w_db := d\<rparr>)"
      "store_ok (ms (sv_refresh_ttl S)) {} (view r)" "abs_store (view r) = a_create ?sid (str_uuid uid) ?jti (dr_refresh dr) (sess w)"
      "db_abs (working (dview d0)) = db w"
      "recorded d0 (audit_event dr LOGIN_SUCCESS (Some (user_id u)) (Some (dr_session_id dr)) (hr_client req0)
         [(lit ''device_info'', case device_text (li_device_info i) of None \<Rightarrow> [] | Some d \<Rightarrow> d)]) d"
    by (rule login_run[OF g cmd(1) u cmd(3) fresh cmd(2)]) (simp add: that id)
  let ?w1 = "w\<lparr>w_redis := r, w_db := d\<rparr>"
  note lg = loggedD[OF l(5), unfolded l(4), OF ev]
  have g1: "good ?w1" using l(2) lg(1) by (simp add: good_state_def)
  have tx: "py_text (dr_refresh dr)" using fresh(1) by (simp add: fresh_draws_def fresh_pair_def token_text_def)
  have acc: "accounts (db ?w1) uid = Some u" "access (sess ?w1) ?jti = Some (str_uuid uid, ?sid)"
      "refresh (sess ?w1) (dr_refresh dr) = Some (str_uuid uid, ?sid)"
    using l(3) lg(2) u(1) by (simp_all add: a_create_def)
  have look: "fst (get_session_by_refresh_token (sv_exec S) (dr_refresh dr) r) = Inr (Some \<lparr>ref_user_id = str_uuid uid, ref_session_id = ?sid\<rparr>)"
    using observations(2)[OF l(2) tx] acc(3) by simp
  have login: "login_mutation S dr req0 i w = (Inr (payload_of ?pair), ?w1)"
    using l(1) by (simp add: login_mutation_eq ret_def)
  show ?thesis
  proof (rule exI[of _ "payload_of ?pair"], rule exI[of _ ?w1], intro conjI allI impI login)
    fix req req' :: http_request and dr1 dr2 dr3 dr4 :: draws
    assume req: "hr_authorization req = Some (lit ''Bearer '' @ ap_access_token (payload_of ?pair))"
      and time: "in_force S dr dr1 \<and> in_force S dr dr2 \<and> in_force S dr dr3"
    have "carries S x req uid (dr_session_id dr) (dr_jti dr)" if "in_force S dr x" for x
      by (rule token_carried[where iat = "dr_now dr"]) (use req that in \<open>auto simp: payload_of_def in_force_def\<close>)
    then show "\<exists>w2 w3. me S dr1 req ?w1 = (Inr (Some (user_info u)), w2) \<and>
        revoke_session_mutation S dr2 req \<lparr>vi_session_id = ap_session_id (payload_of ?pair)\<rparr> w2 = (Inr (succeeded ''Session revoked''), w3) \<and>
        fst (me S dr3 req w3) = Inr None \<and>
        fst (refresh_token_mutation S dr4 req' \<lparr>fi_refresh_token = ap_refresh_token (payload_of ?pair)\<rparr> w3) =
          Inl (StrawberryGraphQLError (lit ''Invalid or expired refresh token''))"
      using session_ends[OF g1 acc(1) u(3) acc(2,3) tx, of dr1 req dr2 dr3 dr4 req'] time by (simp add: payload_of_def)
  qed (use look in \<open>simp_all add: payload_of_def\<close>)
qed

end


text \<open>A request of the registered user, with the access token of the example login.\<close>

definition demo_request :: http_request where
  "demo_request =
     \<lparr>hr_authorization = Some (lit ''Bearer '' @ fst (generate_access_token ref_crypto (lit ''secret'') 15 0 3 1 7)),
      hr_client = None, hr_real_ip = None, hr_idempotency_key = None\<rparr>"

lemma demo_carries:
  assumes "0 \<le> dr_now dr" and "dr_now dr < 900000000"
  shows "carries ref_service dr demo_request 1 7 3"
  by (rule refsvc.token_carried[where iat = 0]) (use assms in \<open>simp_all add: demo_request_def minutes_def second_def\<close>)

abbreviation demo_input :: LoginInput where
  "demo_input \<equiv> \<lparr>li_email = lit '' Bob@X.Org '', li_password = lit ''secret-42'', li_device_info = None\<rparr>"

lemma demo_event:
  "event_storable ref_text_ok ref_inet_ok (the_db id_view demo_world)
     (audit_event demo_draws LOGIN_SUCCESS (Some (user_id demo_user)) (Some (dr_session_id demo_draws)) (hr_client demo_request)
       [(lit ''device_info'', case device_text (li_device_info demo_input) of None \<Rightarrow> [] | Some d \<Rightarrow> d)])"
  by (simp add: event_storable_def audit_event_def demo_world(4,5) demo_request_def device_text_def)
    (simp add: ref_text_ok_def lit_def is_surrogate_def)

lemma demo_login:
  "Email_new (sv_unicode ref_service) (li_email demo_input) = Inr \<lparr>email_value = lit ''bob@x.org''\<rparr>"
  "accounts (the_db id_view demo_world) 1 = Some demo_user" "user_email demo_user = \<lparr>email_value = lit ''bob@x.org''\<rparr>"
  "is_active demo_user"
  "verify (sv_crypto ref_service) (li_password demo_input) (hashed_value (hashed_password demo_user)) = Inr True"
  "fresh_draws ref_view demo_world demo_draws" "fresh_session (ref_view (w_redis demo_world)) (dr_session_id demo_draws)"
  "pred_option py_text (device_text (li_device_info demo_input))"
  using demo_world demo_world_fresh demo_emails by (simp_all add: device_text_def)

lemma demo_in_force: "in_force ref_service demo_draws demo_draws"
  by (simp add: in_force_def minutes_def second_def)

lemma demo_lifecycle:
  "\<exists>p w1 w2 w3. login_mutation ref_service demo_draws demo_request demo_input demo_world = (Inr p, w1) \<and>
    me ref_service demo_draws demo_request w1 = (Inr (Some (user_info demo_user)), w2) \<and>
    revoke_session_mutation ref_service demo_draws demo_request \<lparr>vi_session_id = ap_session_id p\<rparr> w2 =
      (Inr (succeeded ''Session revoked''), w3)"
proof -
  obtain p w1 where p: "login_mutation ref_service demo_draws demo_request demo_input demo_world = (Inr p, w1)"
      "ap_access_token p = fst (generate_access_token (sv_crypto ref_service) (sv_secret ref_service) (sv_access_minutes ref_service)
         (dr_now demo_draws) (dr_jti demo_draws) 1 (dr_session_id demo_draws))"
      "\<forall>req. hr_authorization req = Some (lit ''Bearer '' @ ap_access_token p) \<longrightarrow>
        (\<exists>w2 w3. me ref_service demo_draws req w1 = (Inr (Some (user_info demo_user)), w2) \<and>
          revoke_session_mutation ref_service demo_draws req \<lparr>vi_session_id = ap_session_id p\<rparr> w2 = (Inr (succeeded ''Session revoked''), w3))"
    using refsvc.lifecycle[OF demo_world(1) demo_login demo_event] demo_in_force
    by (elim exE conjE) (rule that, assumption, assumption, meson)
  then show ?thesis using p(3)[rule_format, of demo_request] by (auto simp: demo_request_def)
qed

theorem me_requires_live_token_witness:
  "\<exists>w1 w2 user d. me ref_service demo_draws demo_request w1 = (Inr (Some (user_info demo_user)), w2) \<and>
     find_by_id latin_unicode ref_sql 1 (w_db w1) = (Inr (Some user), d) \<and> is_active user"
proof -
  obtain w1 w2 where m: "me ref_service demo_draws demo_request w1 = (Inr (Some (user_info demo_user)), w2)"
    using demo_lifecycle by blast
  obtain token where t: "bearer_token latin_unicode demo_request = Some token"
      "decode_access_token ref_crypto (lit ''secret'') 0 token =
        Inr [lit ''sub'' \<mapsto> str_uuid 1, lit ''sid'' \<mapsto> str_uuid 7, lit ''jti'' \<mapsto> str_uuid 3]"
    using demo_carries[of demo_draws] by (auto simp: carries_def)
  then show ?thesis using me_requires_live_token[OF m] m by (fastforce simp: UUID_str lit_def)
qed

theorem revoke_requires_owner_witness:
  "\<exists>s w2 w3. revoke_session_mutation ref_service demo_draws demo_request \<lparr>vi_session_id = s\<rparr> w2 =
       (Inr (succeeded ''Session revoked''), w3) \<and>
     (\<exists>sid data r r'. UUID latin_unicode s = Inr sid \<and> get_session ref_exec sid r = (Inr (Some data), r') \<and>
        map_of data (lit ''user_id'') \<noteq> None)"
proof -
  obtain s w2 w3 where m: "revoke_session_mutation ref_service demo_draws demo_request \<lparr>vi_session_id = s\<rparr> w2 =
      (Inr (succeeded ''Session revoked''), w3)"
    using demo_lifecycle by blast
  then show ?thesis using revoke_requires_owner[OF _ m, of ref_view ref_elapse] ref.redis_server_axioms by (fastforce simp: succeeded_def)
qed

text \<open>
  Claim C9. The life of a session as a client sees it. A login with the right password answers
  with a session, an access token and a refresh token of that session. A client that sends
  this access token as its bearer token, while it is in force, is shown its user by \<open>me\<close>;
  \<open>revokeSession\<close> with the same token and the answered session id succeeds; and from then on
  \<open>me\<close> answers nothing to that token, although it has not expired, and \<open>refreshToken\<close> refuses
  the refresh token.
\<close>

theorem session_lifecycle:
  assumes "auth_service S view elapse dview text_ok inet_ok" and "good_state S view dview w"
    and "Email_new (sv_unicode S) (li_email i) = Inr e"
    and "accounts (the_db dview w) uid = Some u" and "user_email u = e" and "is_active u"
    and "verify (sv_crypto S) (li_password i) (hashed_value (hashed_password u)) = Inr True"
    and "fresh_draws view w dr" and "fresh_session (view (w_redis w)) (dr_session_id dr)"
    and "pred_option py_text (device_text (li_device_info i))"
    and "event_storable text_ok inet_ok (the_db dview w)
       (audit_event dr LOGIN_SUCCESS (Some (user_id u)) (Some (dr_session_id dr)) (hr_client req0)
         [(lit ''device_info'', case device_text (li_device_info i) of None \<Rightarrow> [] | Some d \<Rightarrow> d)])"
  shows "\<exists>p w1. login_mutation S dr req0 i w = (Inr p, w1) \<and> ap_session_id p = str_uuid (dr_session_id dr) \<and>
    fst (get_session_by_refresh_token (sv_exec S) (ap_refresh_token p) (w_redis w1)) =
      Inr (Some \<lparr>ref_user_id = str_uuid uid, ref_session_id = ap_session_id p\<rparr>) \<and>
    (\<forall>req dr1 dr2 dr3 dr4 req'. hr_authorization req = Some (lit ''Bearer '' @ ap_access_token p) \<longrightarrow>
      in_force S dr dr1 \<and> in_force S dr dr2 \<and> in_force S dr dr3 \<longrightarrow>
      (\<exists>w2 w3. me S dr1 req w1 =
          (Inr (Some \<lparr>ui_id = str_uuid (user_id u), ui_email = email_value (user_email u), ui_is_active = is_active u\<rparr>), w2) \<and>
        revoke_session_mutation S dr2 req \<lparr>vi_session_id = ap_session_id p\<rparr> w2 =
          (Inr \<lparr>or_success = True, or_message = lit ''Session revoked''\<rparr>, w3) \<and>
        fst (me S dr3 req w3) = Inr None \<and>
        fst (refresh_token_mutation S dr4 req' \<lparr>fi_refresh_token = ap_refresh_token p\<rparr> w3) =
          Inl (StrawberryGraphQLError (lit ''Invalid or expired refresh token''))))"
  using auth_service.lifecycle[OF assms] unfolding user_info_def succeeded_def by blast

theorem session_lifecycle_witness:
  "\<exists>p w1 w2 w3. login_mutation ref_service demo_draws demo_request demo_input demo_world = (Inr p, w1) \<and>
    revoke_session_mutation ref_service demo_draws (demo_request\<lparr>hr_authorization := Some (lit ''Bearer '' @ ap_access_token p)\<rparr>)
      \<lparr>vi_session_id = ap_session_id p\<rparr> w2 = (Inr \<lparr>or_success = True, or_message = lit ''Session revoked''\<rparr>, w3) \<and>
    fst (me ref_service demo_draws (demo_request\<lparr>hr_authorization := Some (lit ''Bearer '' @ ap_access_token p)\<rparr>) w3) = Inr None"
proof -
  obtain p w1 where p: "login_mutation ref_service demo_draws demo_request demo_input demo_world = (Inr p, w1)"
      "\<forall>req. hr_authorization req = Some (lit ''Bearer '' @ ap_access_token p) \<longrightarrow>
        (\<exists>w2 w3. revoke_session_mutation ref_service demo_draws req \<lparr>vi_session_id = ap_session_id p\<rparr> w2 =
           (Inr \<lparr>or_success = True, or_message = lit ''Session revoked''\<rparr>, w3) \<and> fst (me ref_service demo_draws req w3) = Inr None)"
    using session_lifecycle[OF refsvc.auth_service_axioms demo_world(1) demo_login demo_event] demo_in_force
    by (elim exE conjE) (rule that, assumption, meson)
  then show ?thesis
    using p(2)[rule_format, of "demo_request\<lparr>hr_authorization := Some (lit ''Bearer '' @ ap_access_token p)\<rparr>"] by auto
qed

text \<open>
  Claim C31. Through the API a reset token that was never issued, has expired or was used
  already gives one and the same answer, and nothing changes.
\<close>

theorem reset_failures_alike:
  assumes "auth_service S view elapse dview text_ok inet_ok" and "good_state S view dview w"
    and "PlainPassword_new (sv_unicode S) (pi_new_password i) = Inr p" and "token_digest (pi_token i) = Inr h"
    and "digest_free (the_db dview w) h \<or>
      (\<exists>k t. resets (the_db dview w) k = Some t \<and> reset_value (prt_token t) = h \<and> (expires_at t \<le> dr_now dr \<or> used t))"
  shows "\<exists>d. reset_password_mutation S dr req i w =
      (Inr \<lparr>or_success = False, or_message = lit ''Invalid or expired reset token''\<rparr>, w\<lparr>w_db := d\<rparr>) \<and>
    good_state S view dview (w\<lparr>w_db := d\<rparr>) \<and> the_db dview (w\<lparr>w_db := d\<rparr>) = the_db dview w"
proof -
  let ?cmd = "\<lparr>rp_token = pi_token i, rp_new_password = pi_new_password i, rp_ip_address = hr_client req\<rparr>"
  have p: "PlainPassword_new (sv_unicode S) (rp_new_password ?cmd) = Inr p" "token_digest (rp_token ?cmd) = Inr h"
    using assms(3,4) by simp_all
  have "\<exists>x d. reset_password S dr ?cmd w = (Inl x, w\<lparr>w_db := d\<rparr>) \<and>
      x \<in> {TokenNotFoundError (lit ''Reset token not found''), token_expired, token_used} \<and>
      good_state S view dview (w\<lparr>w_db := d\<rparr>) \<and> the_db dview (w\<lparr>w_db := d\<rparr>) = the_db dview w"
    using assms(5)
  proof (elim disjE exE conjE)
    assume "digest_free (the_db dview w) h"
    then show ?thesis using auth_service.reset_unknown[OF assms(1,2) p] by blast
  next
    fix k t assume t: "resets (the_db dview w) k = Some t" "reset_value (prt_token t) = h"
    then show ?thesis if "expires_at t \<le> dr_now dr"
      using auth_service.reset_refused[OF assms(1,2) p t, of dr token_expired] that by (auto simp: consume_def)
    show ?thesis if "used t"
      using auth_service.reset_refused[OF assms(1,2) p t, of dr] consume_used[OF that, of "dr_now dr"] by (auto split: if_splits)
  qed
  then show ?thesis by (auto simp: reset_password_mutation_eq ret_def denied_def)
qed

theorem reset_failures_alike_witness:
  "\<exists>d. reset_password_mutation ref_service demo_draws demo_request \<lparr>pi_token = lit ''raw'', pi_new_password = lit ''secret-43''\<rparr> session_world =
     (Inr \<lparr>or_success = False, or_message = lit ''Invalid or expired reset token''\<rparr>, session_world\<lparr>w_db := d\<rparr>)"
  using reset_failures_alike[OF refsvc.auth_service_axioms session_world(1), of "\<lparr>pi_token = lit ''raw'', pi_new_password = lit ''secret-43''\<rparr>"
      "\<lparr>plain_value = lit ''secret-43''\<rparr>" "sha256_hex (lit ''raw'')" demo_draws demo_request]
  by (auto simp: demo_digest demo_passwords digest_free_def)

end
