(* ===== verification/Container.thy ===== *)
theory Container
  imports Presentation
begin

text \<open>
  The wiring of \<open>auth_service/container.py\<close> and \<open>auth_service/main.py\<close>: the service built
  from the environment, and the scope of a request, in which the database session lives.

  The GraphQL library runs a resolver inside the scope. It is the parameter \<open>run\<close>, and
  \<open>graphql_executor\<close> says what it documents: the value of a resolver becomes data of the
  response, an exception a resolver raises becomes an entry of the response's errors.
\<close>

section \<open>Configuration\<close>

text \<open>\<open>int(s)\<close>: white space around, a sign, decimal digits with single underscores between.\<close>

definition decimal_digit :: "unicode \<Rightarrow> nat \<Rightarrow> nat option" where
  "decimal_digit U c = (if c < 128 then (if ascii_digit c then Some (c - 48) else None) else u_decimal U c)"

fun int_body :: "unicode \<Rightarrow> nat \<Rightarrow> pystr \<Rightarrow> nat option" where
  "int_body U a [] = Some a"
| "int_body U a (c # s) =
     (case decimal_digit U c of
        Some d \<Rightarrow> int_body U (10 * a + d) s
      | None \<Rightarrow>
          if c = 95
          then (case s of
                  [] \<Rightarrow> None
                | c' # s' \<Rightarrow> (case decimal_digit U c' of Some d \<Rightarrow> int_body U (10 * a + d) s' | None \<Rightarrow> None))
          else None)"

text \<open>CPython refuses texts of more than 4300 digits.\<close>

definition int_nat :: "unicode \<Rightarrow> pystr \<Rightarrow> exn + int" where
  "int_nat U s =
     (case s of
        [] \<Rightarrow> Inl ValueError
      | c # s' \<Rightarrow>
          (case decimal_digit U c of
             None \<Rightarrow> Inl ValueError
           | Some d \<Rightarrow>
               (case int_body U d s' of
                  None \<Rightarrow> Inl ValueError
                | Some n \<Rightarrow> if length (filter (\<lambda>c. c \<noteq> 95) s) > 4300 then Inl ValueError else Inr (int n))))"

definition py_int :: "unicode \<Rightarrow> pystr \<Rightarrow> exn + int" where
  "py_int U s =
     (case py_strip U s of
        [] \<Rightarrow> Inl ValueError
      | c # s' \<Rightarrow>
          if c = 45 then (case int_nat U s' of Inl e \<Rightarrow> Inl e | Inr n \<Rightarrow> Inr (- n))
          else if c = 43 then int_nat U s'
          else int_nat U (c # s'))"

type_synonym environ = "pystr \<rightharpoonup> pystr"

definition env_int :: "unicode \<Rightarrow> environ \<Rightarrow> string \<Rightarrow> string \<Rightarrow> exn + int" where
  "env_int U env name dflt = py_int U (case env (lit name) of Some s \<Rightarrow> s | None \<Rightarrow> lit dflt)"

definition GlobalContainer ::
  "unicode \<Rightarrow> environ \<Rightarrow> 'r redis_exec \<Rightarrow> 'd sql \<Rightarrow> crypto \<Rightarrow> exn + ('r, 'd) service" where
  "GlobalContainer U env exec sql C =
     (case env (lit ''JWT_SECRET'') of
        None \<Rightarrow> Inl (RuntimeError (lit ''JWT_SECRET environment variable must be set''))
      | Some jwt_secret \<Rightarrow>
          if jwt_secret = [] then Inl (RuntimeError (lit ''JWT_SECRET environment variable must be set''))
          else
            (case env_int U env ''ACCESS_TOKEN_EXPIRE_MINUTES'' ''15'' of
               Inl e \<Rightarrow> Inl e
             | Inr access_ttl_minutes \<Rightarrow>
                 (case env_int U env ''REFRESH_TOKEN_EXPIRE_DAYS'' ''30'' of
                    Inl e \<Rightarrow> Inl e
                  | Inr refresh_ttl_days \<Rightarrow>
                      (case env_int U env ''RESET_TOKEN_EXPIRE_MINUTES'' ''15'' of
                         Inl e \<Rightarrow> Inl e
                       | Inr reset_token_expire_minutes \<Rightarrow>
                           Inr \<lparr>sv_unicode = U, sv_exec = exec, sv_sql = sql, sv_crypto = C, sv_secret = jwt_secret,
                                sv_access_minutes = access_ttl_minutes, sv_access_ttl = access_ttl_minutes * 60,
                                sv_refresh_ttl = refresh_ttl_days * 24 * 3600,
                                sv_reset_minutes = reset_token_expire_minutes\<rparr>))))"

text \<open>The module's singleton, set when the application starts.\<close>

definition get_global_container :: "('r, 'd) service option \<Rightarrow> exn + ('r, 'd) service" where
  "get_global_container g =
     (case g of
        None \<Rightarrow> Inl (RuntimeError (lit ''GlobalContainer not initialised '' @ [0x2014] @ lit '' did lifespan startup run?''))
      | Some S \<Rightarrow> Inr S)"

definition set_global_container :: "('r, 'd) service \<Rightarrow> ('r, 'd) service option" where
  "set_global_container S = Some S"

text \<open>The start of the application; \<open>connect\<close> makes a client for the address of Redis.\<close>

definition lifespan_start ::
  "unicode \<Rightarrow> environ \<Rightarrow> (pystr \<Rightarrow> 'r redis_exec) \<Rightarrow> 'd sql \<Rightarrow> crypto \<Rightarrow> exn + ('r, 'd) service option" where
  "lifespan_start U env connect sql C =
     (let redis_url = (case env (lit ''REDIS_URL'') of Some s \<Rightarrow> s | None \<Rightarrow> lit ''redis://localhost:6379/0'')
      in case GlobalContainer U env (connect redis_url) sql C of
           Inl e \<Rightarrow> Inl e
         | Inr S \<Rightarrow> Inr (set_global_container S))"

section \<open>The scope of a request\<close>

text \<open>\<open>async with session.begin()\<close>: commit when the body returns, roll back when it raises.\<close>

definition request_scope :: "('r, 'd) service \<Rightarrow> (('r, 'd) world, 'a) act \<Rightarrow> (('r, 'd) world, 'a) act" where
  "request_scope S body =
     bnd (on_db (flush (sv_sql S) BeginTransaction)) (\<lambda>_ w.
       case body w of
         (Inr x, w') \<Rightarrow> bnd (on_db (flush (sv_sql S) CommitTransaction)) (\<lambda>_. ret x) w'
       | (Inl e, w') \<Rightarrow> bnd (on_db (flush (sv_sql S) RollbackTransaction)) (\<lambda>_. raise_exn e) w')"

datatype 'a response = Data 'a | Errors exn

type_synonym ('w, 'a) executor = "('w, 'a) act \<Rightarrow> ('w, 'a response) act"

definition graphql_executor :: "('w, 'a) executor \<Rightarrow> bool" where
  "graphql_executor run \<longleftrightarrow>
     (\<forall>m w. run m w = (case m w of (Inr x, w') \<Rightarrow> (Inr (Data x), w') | (Inl e, w') \<Rightarrow> (Inr (Errors e), w')))"

text \<open>A request: the context getter opens the scope around the execution.\<close>

definition get_context ::
  "('r, 'd) service option \<Rightarrow> (('r, 'd) world, 'a) executor \<Rightarrow> (('r, 'd) service \<Rightarrow> (('r, 'd) world, 'a) act) \<Rightarrow>
   (('r, 'd) world, 'a response) act" where
  "get_context g run resolver =
     (case get_global_container g of
        Inl e \<Rightarrow> raise_exn e
      | Inr S \<Rightarrow> request_scope S (run (resolver S)))"

section \<open>Lifetimes\<close>

lemma sum_bind_Inr:
  "(case x of Inl e \<Rightarrow> Inl e | Inr a \<Rightarrow> f a) = Inr b \<longleftrightarrow> (\<exists>a. x = Inr a \<and> f a = Inr b)"
  by (cases x) auto

lemma GlobalContainer_Inr:
  assumes "GlobalContainer U env exec sql C = Inr S"
  obtains k a r t where "env (lit ''JWT_SECRET'') = Some k" "k \<noteq> []"
    "env_int U env ''ACCESS_TOKEN_EXPIRE_MINUTES'' ''15'' = Inr a" "env_int U env ''REFRESH_TOKEN_EXPIRE_DAYS'' ''30'' = Inr r"
    "env_int U env ''RESET_TOKEN_EXPIRE_MINUTES'' ''15'' = Inr t"
    "S = \<lparr>sv_unicode = U, sv_exec = exec, sv_sql = sql, sv_crypto = C, sv_secret = k, sv_access_minutes = a,
          sv_access_ttl = a * 60, sv_refresh_ttl = r * 24 * 3600, sv_reset_minutes = t\<rparr>"
  using assms unfolding GlobalContainer_def by (simp add: sum_bind_Inr split: option.splits if_splits) blast

text \<open>\<open>int(str(i))\<close> is \<open>i\<close>, up to the limit on the number of digits.\<close>

lemma int_body_digits: "list_all ascii_digit s \<Longrightarrow> int_body U a s = Some (foldl (\<lambda>a c. 10 * a + (c - 48)) a s)"
  by (induction s arbitrary: a) (simp_all add: decimal_digit_def ascii_digit_def)

lemma int_nat_str_nat:
  assumes "length (str_nat n) \<le> 4300"
  shows "int_nat U (str_nat n) = Inr (int n)"
proof -
  have d: "list_all ascii_digit (str_nat n)" using str_nat_digits[of _ n] by (auto simp: list_all_iff ascii_digit_def)
  obtain c s where s: "str_nat n = c # s" using str_nat_nonempty[of n] by (cases "str_nat n") auto
  have "foldl (\<lambda>a c. 10 * a + (c - 48)) (c - 48) s = n" using digits_val_str_nat[of n] s by (simp add: digits_val_def)
  moreover have "length (filter (\<lambda>c. c \<noteq> 95) (c # s)) \<le> 4300"
    using assms length_filter_le[of "\<lambda>c. c \<noteq> 95" "str_nat n"] s by simp
  ultimately show ?thesis
    using d int_body_digits[of s U "c - 48"] by (simp add: s int_nat_def decimal_digit_def ascii_digit_def)
qed

lemma py_int_str_int:
  assumes "length (str_int i) \<le> 4300"
  shows "py_int U (str_int i) = Inr i"
proof -
  let ?s = "str_nat (nat \<bar>i\<bar>)"
  have c: "48 \<le> c \<and> c \<le> 57" if "c \<in> set ?s" for c using str_nat_digits[OF that] .
  have n: "?s \<noteq> []" by (rule str_nat_nonempty)
  have ends: "hd (str_int i) = 45 \<or> 48 \<le> hd (str_int i) \<and> hd (str_int i) \<le> 57" "48 \<le> last (str_int i) \<and> last (str_int i) \<le> 57" "str_int i \<noteq> []"
    using c[OF hd_in_set[OF n]] c[OF last_in_set[OF n]] n by (auto simp: str_int_def)
  have "py_strip U (str_int i) = str_int i" by (rule strip_id) (use ends in \<open>auto simp: py_isspace_def\<close>)
  moreover have "int_nat U ?s = Inr \<bar>i\<bar>" by (subst int_nat_str_nat) (use assms in \<open>auto simp: str_int_def split: if_splits\<close>)
  ultimately show ?thesis using n c[OF hd_in_set[OF n]] by (cases ?s) (auto simp: py_int_def str_int_def split: if_splits)
qed

text \<open>The variable is set to the decimal text of \<open>i\<close>, or not set and \<open>i\<close> is the default.\<close>

definition setting :: "environ \<Rightarrow> string \<Rightarrow> int \<Rightarrow> int \<Rightarrow> bool" where
  "setting env name dflt i \<longleftrightarrow>
     (case env (lit name) of None \<Rightarrow> i = dflt | Some s \<Rightarrow> s = str_int i \<and> length s \<le> 4300)"

lemma setting_int:
  assumes "setting env name dflt i" and "lit d = str_int dflt" and "length (lit d) \<le> 4300"
  shows "env_int U env name d = Inr i"
  using assms py_int_str_int[of i U] py_int_str_int[of dflt U] by (auto simp: env_int_def setting_def split: option.splits)

lemma default_texts: "lit ''15'' = str_int 15" "lit ''30'' = str_int 30"
  by (simp_all add: lit_def str_int_def str_nat.simps)

lemma env_int_refused:
  assumes "env (lit name) = Some s" and "\<forall>i. py_int U s \<noteq> Inr i"
  shows "\<exists>e. env_int U env name d = Inl e"
  using assms by (cases "py_int U s") (simp_all add: env_int_def)

text \<open>
  Claim C32. The lifetimes are those of the environment. With a secret and the decimal texts of
  \<open>a\<close>, \<open>r\<close> and \<open>t\<close> for the three variables, or the defaults of 15 minutes, 30 days and 15
  minutes for those not set, the container is built: an access token it issues is accepted
  for \<open>a\<close> minutes, to the second, and reported as expired from then on, its entry on the
  allowlist lives for the same time, a session for \<open>r\<close> days, a reset token for \<open>t\<close> minutes;
  and positive settings with an access lifetime of at most the refresh lifetime meet the
  contract of the token store. Without a secret, or with a variable that is no integer, the
  application does not start.
\<close>

theorem container_lifetimes:
  fixes exec :: "'r redis_exec" and sql :: "'d sql"
  shows "(\<forall>k a r t. env (lit ''JWT_SECRET'') = Some k \<and> k \<noteq> [] \<and> setting env ''ACCESS_TOKEN_EXPIRE_MINUTES'' 15 a \<and>
      setting env ''REFRESH_TOKEN_EXPIRE_DAYS'' 30 r \<and> setting env ''RESET_TOKEN_EXPIRE_MINUTES'' 15 t \<longrightarrow>
      (\<exists>S. GlobalContainer U env exec sql C = Inr S \<and> sv_secret S = k \<and> sv_crypto S = C \<and>
        sv_access_ttl S = 60 * a \<and> sv_refresh_ttl S = 86400 * r \<and> sv_reset_minutes S = t \<and>
        (jwt_ok C \<longrightarrow> (\<forall>iat now jti uid sid. iat \<le> now \<longrightarrow>
           decode_access_token C k now (fst (generate_access_token C k (sv_access_minutes S) iat jti uid sid)) =
             (if second (iat + 60000000 * a) \<le> now then Inl (TokenExpiredError (lit ''Access token has expired''))
              else Inr [lit ''sub'' \<mapsto> str_uuid uid, lit ''sid'' \<mapsto> str_uuid sid, lit ''jti'' \<mapsto> str_uuid jti]))) \<and>
        (redis_server exec view elapse \<and> 0 < a \<and> 60 * a \<le> 86400 * r \<longrightarrow>
           redis_sessions (sv_exec S) view elapse (sv_access_ttl S) (sv_refresh_ttl S)))) \<and>
    (env (lit ''JWT_SECRET'') \<in> {None, Some []} \<longrightarrow>
       GlobalContainer U env exec sql C = Inl (RuntimeError (lit ''JWT_SECRET environment variable must be set''))) \<and>
    (\<forall>name\<in>{''ACCESS_TOKEN_EXPIRE_MINUTES'', ''REFRESH_TOKEN_EXPIRE_DAYS'', ''RESET_TOKEN_EXPIRE_MINUTES''}. \<forall>s.
       env (lit name) = Some s \<and> (\<forall>i. py_int U s \<noteq> Inr i) \<longrightarrow> (\<exists>e. lifespan_start U env (\<lambda>_. exec) sql C = Inl e))"
proof (intro conjI allI impI ballI)
  fix k a r t
  assume e: "env (lit ''JWT_SECRET'') = Some k \<and> k \<noteq> [] \<and> setting env ''ACCESS_TOKEN_EXPIRE_MINUTES'' 15 a \<and>
      setting env ''REFRESH_TOKEN_EXPIRE_DAYS'' 30 r \<and> setting env ''RESET_TOKEN_EXPIRE_MINUTES'' 15 t"
  then have i: "env_int U env ''ACCESS_TOKEN_EXPIRE_MINUTES'' ''15'' = Inr a" "env_int U env ''REFRESH_TOKEN_EXPIRE_DAYS'' ''30'' = Inr r"
      "env_int U env ''RESET_TOKEN_EXPIRE_MINUTES'' ''15'' = Inr t"
    using setting_int[OF _ default_texts(1)] setting_int[OF _ default_texts(2)] by (simp_all add: lit_def)
  have jwt: "decode_access_token C k now (fst (generate_access_token C k a iat jti uid sid)) =
      (if second (iat + 60000000 * a) \<le> now then Inl (TokenExpiredError (lit ''Access token has expired''))
       else Inr [lit ''sub'' \<mapsto> str_uuid uid, lit ''sid'' \<mapsto> str_uuid sid, lit ''jti'' \<mapsto> str_uuid jti])"
    if "jwt_ok C" "iat \<le> now" for iat now jti uid sid
    using that by (simp add: jwt_ok_def decode_access_token_def generate_access_token_def claims_map_def minutes_def)
  show "\<exists>S. GlobalContainer U env exec sql C = Inr S \<and> sv_secret S = k \<and> sv_crypto S = C \<and>
        sv_access_ttl S = 60 * a \<and> sv_refresh_ttl S = 86400 * r \<and> sv_reset_minutes S = t \<and>
        (jwt_ok C \<longrightarrow> (\<forall>iat now jti uid sid. iat \<le> now \<longrightarrow>
           decode_access_token C k now (fst (generate_access_token C k (sv_access_minutes S) iat jti uid sid)) =
             (if second (iat + 60000000 * a) \<le> now then Inl (TokenExpiredError (lit ''Access token has expired''))
              else Inr [lit ''sub'' \<mapsto> str_uuid uid, lit ''sid'' \<mapsto> str_uuid sid, lit ''jti'' \<mapsto> str_uuid jti]))) \<and>
        (redis_server exec view elapse \<and> 0 < a \<and> 60 * a \<le> 86400 * r \<longrightarrow>
           redis_sessions (sv_exec S) view elapse (sv_access_ttl S) (sv_refresh_ttl S))"
    using e i jwt by (auto simp: GlobalContainer_def redis_sessions_def redis_sessions_axioms_def mult.commute)
next
  assume "env (lit ''JWT_SECRET'') \<in> {None, Some []}"
  then show "GlobalContainer U env exec sql C = Inl (RuntimeError (lit ''JWT_SECRET environment variable must be set''))"
    by (auto simp: GlobalContainer_def)
next
  fix name s
  assume n: "name \<in> {''ACCESS_TOKEN_EXPIRE_MINUTES'', ''REFRESH_TOKEN_EXPIRE_DAYS'', ''RESET_TOKEN_EXPIRE_MINUTES''}"
    and s: "env (lit name) = Some s \<and> (\<forall>i. py_int U s \<noteq> Inr i)"
  have r: "env_int U env name d \<noteq> Inr i" for d i using env_int_refused[of env name s U d] s by auto
  have "GlobalContainer U env exec sql C \<noteq> Inr S" for S
    by (rule notI, erule GlobalContainer_Inr) (use n r in \<open>elim insertE emptyE; simp\<close>)
  then show "\<exists>e. lifespan_start U env (\<lambda>_. exec) sql C = Inl e"
    by (cases "GlobalContainer U env exec sql C") (auto simp: lifespan_start_def Let_def)
qed

definition demo_environ :: environ where
  "demo_environ = [lit ''JWT_SECRET'' \<mapsto> lit ''secret'', lit ''REFRESH_TOKEN_EXPIRE_DAYS'' \<mapsto> lit ''70'']"

theorem container_lifetimes_witness:
  "\<exists>S. GlobalContainer latin_unicode demo_environ ref_exec ref_sql ref_crypto = Inr S \<and>
     sv_access_ttl S = 900 \<and> sv_refresh_ttl S = 6048000 \<and>
     redis_sessions ref_exec ref_view ref_elapse (sv_access_ttl S) (sv_refresh_ttl S)"
proof -
  have "setting demo_environ ''ACCESS_TOKEN_EXPIRE_MINUTES'' 15 15" "setting demo_environ ''REFRESH_TOKEN_EXPIRE_DAYS'' 30 70"
      "setting demo_environ ''RESET_TOKEN_EXPIRE_MINUTES'' 15 15" "demo_environ (lit ''JWT_SECRET'') = Some (lit ''secret'')" "lit ''secret'' \<noteq> []"
    by (simp_all add: setting_def demo_environ_def lit_def str_int_def str_nat.simps)
  then obtain S where S: "GlobalContainer latin_unicode demo_environ ref_exec ref_sql ref_crypto = Inr S" "sv_access_ttl S = 60 * 15"
      "sv_refresh_ttl S = 86400 * 70" "redis_sessions (sv_exec S) ref_view ref_elapse (sv_access_ttl S) (sv_refresh_ttl S)"
    using conjunct1[OF container_lifetimes[of demo_environ latin_unicode ref_exec ref_sql ref_crypto ref_view ref_elapse],
        rule_format, of "lit ''secret''" 15 70 15] ref.redis_server_axioms by fastforce
  then show ?thesis using GlobalContainer_Inr[OF S(1)] by fastforce
qed

end
