(* ===== verification/ServiceInv.thy ===== *)
theory ServiceInv
  imports Container
begin

text \<open>
  Every request keeps the invariants. A triple \<open>triple P m Q E\<close> says that from a state with
  \<open>P\<close> the action \<open>m\<close> ends with \<open>Q\<close> of its value or, when it raises, with \<open>E\<close>. The
  repositories, the handlers and the resolvers each have one, on all their branches,
  storable events or not; together they give the states a deployment can reach.
\<close>

section \<open>Triples\<close>

definition triple :: "('s \<Rightarrow> bool) \<Rightarrow> ('s, 'a) act \<Rightarrow> ('a \<Rightarrow> 's \<Rightarrow> bool) \<Rightarrow> ('s \<Rightarrow> bool) \<Rightarrow> bool" where
  "triple P m Q E \<longleftrightarrow> (\<forall>s. P s \<longrightarrow> (case m s of (Inr x, s') \<Rightarrow> Q x s' | (Inl e, s') \<Rightarrow> E s'))"

lemma tripleI:
  assumes "\<And>s x s'. P s \<Longrightarrow> m s = (Inr x, s') \<Longrightarrow> Q x s'" and "\<And>s e s'. P s \<Longrightarrow> m s = (Inl e, s') \<Longrightarrow> E s'"
  shows "triple P m Q E"
  unfolding triple_def
proof (intro allI impI)
  fix s assume "P s"
  then show "case m s of (Inr x, s') \<Rightarrow> Q x s' | (Inl e, s') \<Rightarrow> E s'"
    using assms by (cases "m s"; cases "fst (m s)") auto
qed

lemma tripleD:
  assumes "triple P m Q E" and "P s"
  shows "m s = (Inr x, s') \<Longrightarrow> Q x s'" and "m s = (Inl e, s') \<Longrightarrow> E s'"
  using assms by (auto simp: triple_def)

lemma triple_weaken:
  assumes "triple P m Q E" and "\<And>s. P' s \<Longrightarrow> P s" and "\<And>x s. Q x s \<Longrightarrow> Q' x s" and "\<And>s. E s \<Longrightarrow> E' s"
  shows "triple P' m Q' E'"
  by (rule tripleI) (use tripleD[OF assms(1)] assms(2-4) in blast)+

lemma triple_bnd:
  assumes "triple P m R E" and "\<And>x. triple (R x) (f x) Q E"
  shows "triple P (bnd m f) Q E"
proof (rule tripleI)
  show "Q x s'" if "P s" "bnd m f s = (Inr x, s')" for s x s'
    using that(2) by (rule bnd_InrE) (metis tripleD(1)[OF assms(1) that(1)] tripleD(1)[OF assms(2)])
  show "E s'" if "P s" "bnd m f s = (Inl e, s')" for s e s'
    using that(2) by (rule bnd_InlE) (metis tripleD[OF assms(1) that(1)] tripleD(2)[OF assms(2)])+
qed

lemma triple_ret: "(\<And>s. P s \<Longrightarrow> Q x s) \<Longrightarrow> triple P (ret x) Q E"
  by (simp add: triple_def ret_def)

lemma triple_raise: "(\<And>s. P s \<Longrightarrow> E s) \<Longrightarrow> triple P (raise_exn e) Q E"
  by (simp add: triple_def raise_exn_def)

lemma triple_lift:
  assumes "\<And>x. r = Inr x \<Longrightarrow> triple P (f x) Q E" and "\<And>s. P s \<Longrightarrow> E s"
  shows "triple P (bnd (lift_res r) f) Q E"
  using assms by (cases r) (simp_all add: triple_raise)

lemma triple_swallow:
  assumes "triple P m (\<lambda>_. Q) Q"
  shows "triple P (swallow m) (\<lambda>_. Q) E"
proof (rule tripleI)
  show "Q s'" if "P s" "swallow m s = (Inr x, s')" for s x s'
    using that(2) tripleD[OF assms that(1)] by (cases "m s"; cases "fst (m s)") (auto simp: swallow_def)
qed (simp add: swallow_def)

lemma triple_catch:
  assumes "triple P m Q R" and "\<And>e. triple R (h e) Q E"
  shows "triple P (catch m h) Q E"
proof (rule tripleI)
  fix s x s' assume a: "P s" "catch m h s = (Inr x, s')"
  show "Q x s'"
    using a tripleD[OF assms(1) a(1)] tripleD(1)[OF assms(2)] by (auto simp: catch_def split: prod.splits sum.splits)
next
  fix s e s' assume a: "P s" "catch m h s = (Inl e, s')"
  show "E s'"
    using a tripleD[OF assms(1) a(1)] tripleD(2)[OF assms(2)] by (auto simp: catch_def split: prod.splits sum.splits)
qed

lemma triple_pure: "(\<And>s. snd (m s) = s) \<Longrightarrow> triple P m (\<lambda>_. P) P"
  by (rule tripleI) (metis snd_conv)+

lemma triple_conj_pre: "(b \<Longrightarrow> triple P m Q E) \<Longrightarrow> triple (\<lambda>s. P s \<and> b) m Q E"
  by (auto simp: triple_def)

lemma triple_if: "(b \<Longrightarrow> triple P m Q E) \<Longrightarrow> (\<not> b \<Longrightarrow> triple P n Q E) \<Longrightarrow> triple P (if b then m else n) Q E"
  by simp

lemma triple_option:
  "(x = None \<Longrightarrow> triple P m Q E) \<Longrightarrow> (\<And>y. x = Some y \<Longrightarrow> triple P (f y) Q E) \<Longrightarrow>
   triple P (case x of None \<Rightarrow> m | Some y \<Rightarrow> f y) Q E"
  by (cases x) simp_all

section \<open>The tables\<close>

text \<open>The reset requests add that no user has more than one reset token.\<close>

definition one_token :: "tables \<Rightarrow> bool" where
  "one_token T \<longleftrightarrow> distinct (map tm_user_id (reset_tokens T))"

definition tables_inv :: "unicode \<Rightarrow> tables \<Rightarrow> bool" where
  "tables_inv U T \<longleftrightarrow> tables_ok U T \<and> one_token T"

definition db_inv :: "unicode \<Rightarrow> db_view \<Rightarrow> bool" where
  "db_inv U V \<longleftrightarrow> tables_inv U (committed V) \<and> tables_inv U (working V)"

definition no_token_of :: "uuid \<Rightarrow> db_view \<Rightarrow> bool" where
  "no_token_of i V \<longleftrightarrow> active V \<and> i \<notin> tm_user_id ` set (reset_tokens (working V))"

definition has_token :: "uuid \<Rightarrow> db_view \<Rightarrow> bool" where
  "has_token k V \<longleftrightarrow> active V \<and> k \<in> tm_id ` set (reset_tokens (working V))"

lemma db_inv_dead [simp]: "db_inv U (dead V) \<longleftrightarrow> tables_inv U (committed V)"
  by (simp add: db_inv_def dead_def)

lemma tables_insert_user:
  assumes "tables_inv U T" and "user_fits text_ok (users T) m" and "Email_new U (um_email m) = Inr \<lparr>email_value = um_email m\<rparr>"
  shows "tables_inv U (T\<lparr>users := users T @ [m]\<rparr>)"
  using assms by (auto simp: tables_inv_def tables_ok_def one_token_def user_fits_def stored_email_def list_all_iff)

lemma tables_update_user:
  assumes "tables_inv U T" and "user_fits text_ok (without_user (um_id m) (users T)) m"
    and "Email_new U (um_email m) = Inr \<lparr>email_value = um_email m\<rparr>"
  shows "tables_inv U (T\<lparr>users := put_user m (users T)\<rparr>)"
proof (cases "\<exists>m0\<in>set (users T). um_id m = um_id m0")
  case True
  then obtain m0 where m0: "m0 \<in> set (users T)" "um_id m = um_id m0" by blast
  have "distinct (map um_email (put_user m (users T)))"
    using distinct_put_email[OF _ _ m0(1,2) assms(2)] assms(1) by (simp add: tables_inv_def tables_ok_def)
  moreover have "list_all (\<lambda>m. stored_email U (um_email m)) (put_user m (users T))"
    using assms by (auto simp: tables_inv_def tables_ok_def list_all_iff put_user_def stored_email_def user_fits_def)
  ultimately show ?thesis using assms(1) by (simp add: tables_inv_def tables_ok_def one_token_def put_user_ids)
next
  case False
  then have "put_user m (users T) = users T" unfolding put_user_def by (intro map_idI) auto
  then show ?thesis using assms(1) by simp
qed

lemma tables_insert_token:
  assumes "tables_inv U T" and "token_fits text_ok T (reset_tokens T) m" and "tm_user_id m \<notin> tm_user_id ` set (reset_tokens T)"
  shows "tables_inv U (T\<lparr>reset_tokens := reset_tokens T @ [m]\<rparr>)"
proof -
  have "tm_user_id m \<in> um_id ` set (users T)"
    using assms(2) by (auto simp: token_fits_def list_ex_iff) (metis imageI)
  moreover have "tm_id m \<notin> tm_id ` set (reset_tokens T)" "tm_token m \<notin> tm_token ` set (reset_tokens T)"
    using assms(2) by (auto simp: token_fits_def list_all_iff)
  ultimately show ?thesis using assms(1,3) by (simp add: tables_inv_def tables_ok_def one_token_def)
qed

lemma tables_update_token:
  assumes "tables_inv U T" and "list_all (\<lambda>m. tm_token m \<noteq> tok) (without_token i (reset_tokens T))"
  shows "tables_inv U (T\<lparr>reset_tokens := put_token i tok ex us (reset_tokens T)\<rparr>)"
proof -
  have "distinct (map tm_token (put_token i tok ex us (reset_tokens T)))"
    by (rule distinct_put_token) (use assms in \<open>auto simp: tables_inv_def tables_ok_def list_all_iff without_token_def\<close>)
  then show ?thesis using assms(1) by (simp add: tables_inv_def tables_ok_def one_token_def put_token_ids put_token_users)
qed

lemma tables_delete_tokens:
  "tables_inv U T \<Longrightarrow> tables_inv U (T\<lparr>reset_tokens := filter P (reset_tokens T)\<rparr>)"
  by (auto simp: tables_inv_def tables_ok_def one_token_def distinct_map_filter)

lemma tables_log_event: "tables_inv U (T\<lparr>auth_events := E\<rparr>) \<longleftrightarrow> tables_inv U T"
  by (simp add: tables_inv_def tables_ok_def one_token_def)


section \<open>The session and the repositories\<close>

text \<open>What an operation needs of its arguments and of the tables to keep the invariant.\<close>

fun op_fine :: "unicode \<Rightarrow> db_op \<Rightarrow> db_view \<Rightarrow> bool" where
  "op_fine U (InsertUser m) V = (Email_new U (um_email m) = Inr \<lparr>email_value = um_email m\<rparr>)"
| "op_fine U (UpdateUser m) V = (Email_new U (um_email m) = Inr \<lparr>email_value = um_email m\<rparr>)"
| "op_fine U (InsertToken m) V = (active V \<longrightarrow> tm_user_id m \<notin> tm_user_id ` set (reset_tokens (working V)))"
| "op_fine U _ V = True"

lemma flushed_inv:
  assumes "flushed fits T V rep V'" and "db_inv U V" and "fits \<Longrightarrow> tables_inv U T"
  shows "db_inv U V'"
  using assms by (auto simp: flushed_def db_inv_def dead_def split: if_splits)

lemma db_ok_inv:
  assumes ok: "db_ok text_ok inet_ok op V rep V'" and inv: "db_inv U V" and fine: "op_fine U op V"
  shows "db_inv U V'"
proof (cases "active V \<or> op = BeginTransaction")
  case True
  then have a: "db_active text_ok inet_ok op V rep V'" using ok by (simp add: db_ok_def)
  have c: "tables_inv U (committed V)" "tables_inv U (working V)" using inv by (simp_all add: db_inv_def)
  show ?thesis
  proof (cases op)
    case (InsertUser m)
    show ?thesis using a fine unfolding InsertUser
      by (simp, elim flushed_inv[OF _ inv]) (use tables_insert_user[OF c(2)] in blast)
  next
    case (UpdateUser m)
    show ?thesis using a fine unfolding UpdateUser
      by (simp, elim flushed_inv[OF _ inv]) (use tables_update_user[OF c(2)] in blast)
  next
    case (InsertToken m)
    then have "active V" using True by simp
    then show ?thesis using a fine unfolding InsertToken
      by (simp, elim flushed_inv[OF _ inv]) (use tables_insert_token[OF c(2)] in blast)
  next
    case (UpdateToken i tok ex us)
    show ?thesis using a unfolding UpdateToken
      by (simp, elim flushed_inv[OF _ inv]) (use tables_update_token[OF c(2)] in blast)
  next
    case (InsertEvent m)
    show ?thesis using a unfolding InsertEvent
      by (simp, elim flushed_inv[OF _ inv]) (simp add: tables_log_event c(2))
  qed (use a inv c in \<open>auto simp: db_inv_def dead_def tables_delete_tokens split: if_splits\<close>)
next
  case False
  then show ?thesis using ok inv by (auto simp: db_ok_def split: if_splits) (simp_all add: db_inv_def)
qed

text \<open>Triples on the visible state of the session.\<close>

definition dtriple :: "('d \<Rightarrow> db_view) \<Rightarrow> (db_view \<Rightarrow> bool) \<Rightarrow> ('d, 'a) act \<Rightarrow> ('a \<Rightarrow> db_view \<Rightarrow> bool) \<Rightarrow> (db_view \<Rightarrow> bool) \<Rightarrow> bool"
where
  "dtriple dview P m Q E \<longleftrightarrow> triple (\<lambda>d. P (dview d)) m (\<lambda>x d. Q x (dview d)) (\<lambda>d. E (dview d))"

context sql_session
begin

abbreviation "keeps U m \<equiv> dtriple dview (db_inv U) m (\<lambda>_. db_inv U) (db_inv U)"

lemma keepsD: "keeps U m \<Longrightarrow> db_inv U (dview d) \<Longrightarrow> m d = (res, d') \<Longrightarrow> db_inv U (dview d')"
  by (cases res) (auto simp: dtriple_def triple_def)

lemma call_inv:
  assumes "db_inv U (dview d)" and "op_fine U op (dview d)"
  shows "db_inv U (dview (snd (sql_call sql op d)))"
proof -
  have "snd (sql_call sql op d) = snd (sql op d)"
    by (cases "sql op d"; cases "fst (sql op d)") (auto simp: sql_call_def)
  then show ?thesis using db_ok_inv[OF sql_ok[of op d] assms] by simp
qed

lemma call_triple:
  assumes "\<And>V. P V \<Longrightarrow> db_inv U V \<and> op_fine U op V"
  shows "dtriple dview P (sql_call sql op) (\<lambda>_. db_inv U) (db_inv U)"
  unfolding dtriple_def
  by (rule tripleI) (metis call_inv[of U] assms snd_conv)+

lemma flush_triple:
  assumes "\<And>V. P V \<Longrightarrow> db_inv U V \<and> op_fine U op V"
  shows "dtriple dview P (flush sql op) (\<lambda>_. db_inv U) (db_inv U)"
  unfolding flush_def dtriple_def
  by (rule triple_bnd[OF call_triple[OF assms, unfolded dtriple_def]]) (simp_all add: triple_ret)

lemma row_triples:
  assumes "\<And>V. op_fine U op V"
  shows "keeps U (user_row sql op)" and "keeps U (token_row sql op)"
  unfolding user_row_def token_row_def dtriple_def
  by (rule triple_bnd[OF call_triple[where P = "db_inv U", unfolded dtriple_def]], simp add: assms,
      rule triple_pure, simp add: raise_exn_def lift_res_def split: db_reply.split)+

lemma get_token_keeps: "keeps U (token_row sql (GetToken i))"
  by (rule row_triples(2)) simp

text \<open>A call that succeeds did so in an active transaction.\<close>

lemma call_success:
  assumes "sql_call sql op d = (Inr rep, d')" and "op \<noteq> BeginTransaction" "op \<noteq> CommitTransaction" "op \<noteq> RollbackTransaction"
  shows "active (dview d)" and "db_active text_ok inet_ok op (dview d) rep (dview d')" and "\<not> failed rep"
proof -
  have c: "sql op d = (rep, d')" "\<not> failed rep"
    using assms(1) by (cases "sql op d"; cases "fst (sql op d)"; auto simp: sql_call_def failed_def)+
  show "active (dview d)" "\<not> failed rep" using c sql_ok[of op d] assms(2-4) by (auto simp: db_ok_def split: if_splits)
  then show "db_active text_ok inet_ok op (dview d) rep (dview d')" using c sql_ok[of op d] by (simp add: db_ok_def)
qed

lemma user_row_Inr:
  assumes "user_row sql op d = (Inr x, d')"
  obtains ms where "sql_call sql op d = (Inr (DUsers ms), d')" "one_or_none ms = Inr x"
  using assms by (auto simp: user_row_def lift_res_def raise_exn_def split: db_reply.splits elim!: bnd_InrE)

lemma token_row_Inr:
  assumes "token_row sql op d = (Inr x, d')"
  obtains ms where "sql_call sql op d = (Inr (DTokens ms), d')" "one_or_none ms = Inr x"
  using assms by (auto simp: token_row_def lift_res_def raise_exn_def split: db_reply.splits elim!: bnd_InrE)

lemma flush_Inr:
  assumes "flush sql op d = (Inr x, d')"
  obtains rep where "sql_call sql op d = (Inr rep, d')"
  using assms by (auto simp: flush_def ret_def elim!: bnd_InrE)

lemma one_or_none_Some: "one_or_none xs = Inr (Some m) \<Longrightarrow> xs = [m]"
  by (cases xs rule: one_or_none.cases) auto

lemma one_or_none_None: "one_or_none xs = Inr None \<longleftrightarrow> xs = []"
  by (cases xs rule: one_or_none.cases) auto

lemma token_row_same:
  assumes "token_row sql (GetToken i) d = (Inr x, d')"
  shows "dview d' = dview d" and "active (dview d)"
    and "x = None \<longleftrightarrow> i \<notin> tm_id ` set (reset_tokens (working (dview d)))"
proof -
  obtain ms where c: "sql_call sql (GetToken i) d = (Inr (DTokens ms), d')" "one_or_none ms = Inr x"
    using token_row_Inr[OF assms] .
  note a = call_success[OF c(1)]
  show "dview d' = dview d" "active (dview d)" using a by simp_all
  have f: "ms = filter (\<lambda>m. tm_id m = i) (reset_tokens (working (dview d)))" using a(2) by simp
  have "x = None \<longleftrightarrow> ms = []" using c(2) one_or_none_None[of ms] one_or_none_Some[of ms] by (cases x) auto
  then show "x = None \<longleftrightarrow> i \<notin> tm_id ` set (reset_tokens (working (dview d)))"
    unfolding f by (auto simp: filter_empty_conv)
qed

lemma find_triples:
  "keeps U (find_by_email U sql e)" "keeps U (find_by_id U sql i)" "keeps U (find_by_token sql t)"
  unfolding find_by_email_def find_by_id_def find_by_token_def dtriple_def
  by (rule triple_bnd[OF row_triples(1)[unfolded dtriple_def]], simp,
      rule triple_option, simp add: triple_ret, rule triple_lift, simp_all add: triple_ret)+
    (rule triple_bnd[OF row_triples(2)[unfolded dtriple_def]], simp_all add: triple_ret)

lemma save_user_triple:
  assumes "Email_new U (email_value (user_email u)) = Inr (user_email u)"
  shows "keeps U (save_user sql u)"
  unfolding save_user_def dtriple_def
  by (rule triple_bnd[OF row_triples(1)[unfolded dtriple_def]], simp, rule triple_option)
    (rule flush_triple[unfolded dtriple_def], use assms in \<open>simp add: user_to_model_def\<close>)+

lemma delete_triple: "dtriple dview (db_inv U) (delete_all_by_user_id sql i) (\<lambda>_ V. db_inv U V \<and> no_token_of i V) (db_inv U)"
  unfolding dtriple_def
proof (rule tripleI)
  fix d x d' assume a: "db_inv U (dview d)" "delete_all_by_user_id sql i d = (Inr x, d')"
  have f: "flush sql (DeleteTokens i) d = (Inr x, d')" using a(2) by (simp add: delete_all_by_user_id_def)
  obtain rep where rep: "sql_call sql (DeleteTokens i) d = (Inr rep, d')" using flush_Inr[OF f] .
  have "no_token_of i (dview d')" using call_success[OF rep] by (auto simp: no_token_of_def)
  moreover have "db_inv U (dview d')"
    using tripleD(1)[OF flush_triple[where P = "db_inv U", unfolded dtriple_def] a(1) f] by simp
  ultimately show "db_inv U (dview d') \<and> no_token_of i (dview d')" by simp
next
  fix d e d' assume a: "db_inv U (dview d)" "delete_all_by_user_id sql i d = (Inl e, d')"
  then show "db_inv U (dview d')"
    using tripleD(2)[OF flush_triple[where P = "db_inv U" and op = "DeleteTokens i", unfolded dtriple_def] a(1)]
    by (simp add: delete_all_by_user_id_def)
qed

lemma save_new_token_triple:
  "dtriple dview (\<lambda>V. db_inv U V \<and> no_token_of (prt_user_id t) V) (save_token sql t) (\<lambda>_. db_inv U) (db_inv U)"
  unfolding dtriple_def save_token_def
proof (rule triple_bnd)
  show "triple (\<lambda>d. db_inv U (dview d) \<and> no_token_of (prt_user_id t) (dview d)) (token_row sql (GetToken (prt_id t)))
      (\<lambda>_ d. db_inv U (dview d) \<and> no_token_of (prt_user_id t) (dview d)) (\<lambda>d. db_inv U (dview d))"
  proof (rule tripleI)
    fix d e d' assume "db_inv U (dview d) \<and> no_token_of (prt_user_id t) (dview d)" "token_row sql (GetToken (prt_id t)) d = (Inl e, d')"
    then show "db_inv U (dview d')" using keepsD[OF get_token_keeps] by blast
  qed (simp add: token_row_same(1))
  show "triple (\<lambda>d. db_inv U (dview d) \<and> no_token_of (prt_user_id t) (dview d))
      (case x of None \<Rightarrow> flush sql (InsertToken (token_to_model t))
       | Some m \<Rightarrow> flush sql (UpdateToken (tm_id m) (reset_value (prt_token t)) (expires_at t) (used t)))
      (\<lambda>_ d. db_inv U (dview d)) (\<lambda>d. db_inv U (dview d))" for x
    by (rule triple_option;
        rule flush_triple[where P = "\<lambda>V. db_inv U V \<and> no_token_of (prt_user_id t) V", unfolded dtriple_def])
      (auto simp: no_token_of_def token_to_model_def)
qed

text \<open>The token a reset has found is still there when it is saved.\<close>

lemma find_token_triple:
  "dtriple dview (db_inv U) (find_by_token sql s)
     (\<lambda>x V. db_inv U V \<and> (\<forall>t. x = Some t \<longrightarrow> has_token (prt_id t) V)) (db_inv U)"
  unfolding dtriple_def
proof (rule tripleI)
  fix d x d' assume a: "db_inv U (dview d)" "find_by_token sql s d = (Inr x, d')"
  obtain y where y: "token_row sql (SelectTokens s) d = (Inr y, d')" "x = map_option token_to_domain y"
    using a(2) by (auto simp: find_by_token_def ret_def elim!: bnd_InrE)
  obtain ms where c: "sql_call sql (SelectTokens s) d = (Inr (DTokens ms), d')" "one_or_none ms = Inr y"
    using token_row_Inr[OF y(1)] .
  have v: "active (dview d)" "dview d' = dview d" "ms = filter (\<lambda>m. tm_token m = s) (reset_tokens (working (dview d)))"
    using call_success[OF c(1)] by (auto simp: failed_def split: if_splits)
  have "has_token (prt_id t) (dview d')" if t: "x = Some t" for t
  proof -
    obtain m where m: "y = Some m" "t = token_to_domain m" using t y(2) by auto
    then have "ms = [m]" using one_or_none_Some c(2) by simp
    then have "m \<in> set (filter (\<lambda>m. tm_token m = s) (reset_tokens (working (dview d))))" using v(3) by simp
    then show ?thesis using v(1,2) m(2) by (auto simp: has_token_def)
  qed
  then show "db_inv U (dview d') \<and> (\<forall>t. x = Some t \<longrightarrow> has_token (prt_id t) (dview d'))" using a(1) v(2) by simp
next
  fix d e d' assume "db_inv U (dview d)" "find_by_token sql s d = (Inl e, d')"
  then show "db_inv U (dview d')" using keepsD[OF find_triples(3)] by blast
qed

lemma find_id_has_token:
  "dtriple dview (\<lambda>V. db_inv U V \<and> has_token k V) (find_by_id U sql i) (\<lambda>_ V. db_inv U V \<and> has_token k V) (db_inv U)"
  unfolding dtriple_def
proof (rule tripleI)
  fix d x d' assume a: "db_inv U (dview d) \<and> has_token k (dview d)" "find_by_id U sql i d = (Inr x, d')"
  obtain y where "user_row sql (GetUser i) d = (Inr y, d')"
    using a(2) by (auto simp: find_by_id_def ret_def lift_res_def split: option.splits elim!: bnd_InrE)
  then obtain ms where "sql_call sql (GetUser i) d = (Inr (DUsers ms), d')" by (rule user_row_Inr)
  from call_success[OF this] show "db_inv U (dview d') \<and> has_token k (dview d')" using a(1) by simp
next
  fix d e d' assume "db_inv U (dview d) \<and> has_token k (dview d)" "find_by_id U sql i d = (Inl e, d')"
  then show "db_inv U (dview d')" using keepsD[OF find_triples(2)] by blast
qed

lemma save_user_has_token:
  assumes e: "Email_new U (email_value (user_email u)) = Inr (user_email u)"
  shows "dtriple dview (\<lambda>V. db_inv U V \<and> has_token k V) (save_user sql u) (\<lambda>_ V. db_inv U V \<and> has_token k V) (db_inv U)"
  unfolding dtriple_def
proof (rule tripleI)
  fix d x d' assume a: "db_inv U (dview d) \<and> has_token k (dview d)" "save_user sql u d = (Inr x, d')"
  obtain y d1 where y: "user_row sql (GetUser (user_id u)) d = (Inr y, d1)"
      "(case y of None \<Rightarrow> flush sql (InsertUser (user_to_model u)) | Some m \<Rightarrow> flush sql (UpdateUser
             (m\<lparr>um_email := email_value (user_email u), um_hashed_password := hashed_value (hashed_password u),
                um_is_active := is_active u, um_created_at := created_at u\<rparr>))) d1 = (Inr x, d')"
    using a(2) by (auto simp: save_user_def elim!: bnd_InrE)
  obtain ms where "sql_call sql (GetUser (user_id u)) d = (Inr (DUsers ms), d1)" using user_row_Inr[OF y(1)] .
  from call_success[OF this] have d1: "has_token k (dview d1)" using a(1) by simp
  obtain op rep where op: "sql_call sql op d1 = (Inr rep, d')" "(\<exists>m. op = InsertUser m) \<or> (\<exists>m. op = UpdateUser m)"
    using y(2) by (cases y) (auto elim!: flush_Inr)
  have "has_token k (dview d')"
    using call_success[OF op(1)] op(2) d1 by (auto simp: has_token_def flushed_def failed_def split: if_splits)
  then show "db_inv U (dview d') \<and> has_token k (dview d')"
    using tripleD(1)[OF save_user_triple[OF e, unfolded dtriple_def]] a by blast
next
  fix d x d' assume "db_inv U (dview d) \<and> has_token k (dview d)" "save_user sql u d = (Inl x, d')"
  then show "db_inv U (dview d')" using tripleD(2)[OF save_user_triple[OF e, unfolded dtriple_def]] by blast
qed

lemma save_old_token_triple:
  "dtriple dview (\<lambda>V. db_inv U V \<and> has_token (prt_id t) V) (save_token sql t) (\<lambda>_. db_inv U) (db_inv U)"
  unfolding dtriple_def save_token_def
proof (rule triple_bnd)
  show "triple (\<lambda>d. db_inv U (dview d) \<and> has_token (prt_id t) (dview d)) (token_row sql (GetToken (prt_id t)))
      (\<lambda>x d. db_inv U (dview d) \<and> x \<noteq> None) (\<lambda>d. db_inv U (dview d))"
  proof (rule tripleI)
    fix d x d' assume "db_inv U (dview d) \<and> has_token (prt_id t) (dview d)" "token_row sql (GetToken (prt_id t)) d = (Inr x, d')"
    then show "db_inv U (dview d') \<and> x \<noteq> None" using token_row_same by (metis has_token_def)
  next
    fix d e d' assume "db_inv U (dview d) \<and> has_token (prt_id t) (dview d)" "token_row sql (GetToken (prt_id t)) d = (Inl e, d')"
    then show "db_inv U (dview d')" using keepsD[OF get_token_keeps] by blast
  qed
  show "triple (\<lambda>d. db_inv U (dview d) \<and> x \<noteq> None)
      (case x of None \<Rightarrow> flush sql (InsertToken (token_to_model t))
       | Some m \<Rightarrow> flush sql (UpdateToken (tm_id m) (reset_value (prt_token t)) (expires_at t) (used t)))
      (\<lambda>_ d. db_inv U (dview d)) (\<lambda>d. db_inv U (dview d))" for x
  proof (rule triple_option)
    show "triple (\<lambda>d. db_inv U (dview d) \<and> x \<noteq> None) (flush sql (UpdateToken (tm_id m) (reset_value (prt_token t)) (expires_at t) (used t)))
        (\<lambda>_ d. db_inv U (dview d)) (\<lambda>d. db_inv U (dview d))" for m
      by (rule flush_triple[where P = "\<lambda>V. db_inv U V \<and> x \<noteq> None", unfolded dtriple_def]) simp
  qed (simp add: triple_def)
qed

lemma record_triple: "keeps U (record_event sql ev)"
  unfolding record_event_def by (rule flush_triple) simp

end


section \<open>The handlers\<close>

definition wst :: "('d \<Rightarrow> db_view) \<Rightarrow> ('r \<Rightarrow> bool) \<Rightarrow> (db_view \<Rightarrow> bool) \<Rightarrow> ('r, 'd) world \<Rightarrow> bool" where
  "wst dview R D w \<longleftrightarrow> R (w_redis w) \<and> D (dview (w_db w))"

lemma wstI: "R (w_redis w) \<Longrightarrow> D (dview (w_db w)) \<Longrightarrow> wst dview R D w"
  by (simp add: wst_def)

lemma on_db_triple:
  assumes "dtriple dview P f Q E" and "\<And>r. R r \<Longrightarrow> R' r"
  shows "triple (wst dview R P) (on_db f) (\<lambda>x. wst dview R (Q x)) (wst dview R' E)"
proof (rule tripleI)
  fix w x w' assume a: "wst dview R P w" "on_db f w = (Inr x, w')"
  then show "wst dview R (Q x) w'"
    using tripleD(1)[OF assms(1)[unfolded dtriple_def], of "w_db w"] by (auto simp: wst_def on_db_iff)
next
  fix w e w' assume a: "wst dview R P w" "on_db f w = (Inl e, w')"
  then show "wst dview R' E w'"
    using tripleD(2)[OF assms(1)[unfolded dtriple_def], of "w_db w"] assms(2) by (auto simp: wst_def on_db_iff)
qed

lemma on_redis_triple:
  assumes "triple P f Q E"
  shows "triple (wst dview P D) (on_redis f) (\<lambda>x. wst dview (Q x) D) (wst dview E D)"
proof (rule tripleI)
  fix w x w' assume a: "wst dview P D w" "on_redis f w = (Inr x, w')"
  then show "wst dview (Q x) D w'" using tripleD(1)[OF assms, of "w_redis w"] by (auto simp: wst_def on_redis_iff)
next
  fix w e w' assume a: "wst dview P D w" "on_redis f w = (Inl e, w')"
  then show "wst dview E D w'" using tripleD(2)[OF assms, of "w_redis w"] by (auto simp: wst_def on_redis_iff)
qed

lemma dummy_triple:
  assumes "\<And>r. R r \<Longrightarrow> R' r"
  shows "triple (wst dview R D) (dummy_verify S dr password) (\<lambda>_. wst dview R D) (wst dview R' D)"
  using assms
  by (auto simp: triple_def wst_def dummy_verify_def bnd_def lift_res_def ret_def split: if_splits sum.splits prod.splits)

context auth_service
begin

abbreviation "dinv \<equiv> db_inv (sv_unicode S)"
abbreviation "reach \<equiv> store_reach (sv_exec S) view elapse (sv_unicode S) (sv_access_ttl S) (sv_refresh_ttl S)"

lemma audit_triple:
  "triple (wst dview R dinv) (audit S dr ty uid sid ip meta) (\<lambda>_. wst dview R dinv) (wst dview R' dinv)"
  unfolding audit_def by (rule triple_swallow[OF on_db_triple[OF record_triple]]) simp

lemma register_triple:
  "triple (wst dview R dinv) (register_user S dr c) (\<lambda>_. wst dview R dinv) (wst dview R dinv)"
  unfolding register_user_def
proof (rule triple_lift)
  fix e assume e: "Email_new (sv_unicode S) (ru_email c) = Inr e"
  have u: "Email_new (sv_unicode S) (email_value e) = Inr e" using Email_new_idem[OF unicode e] .
  show "triple (wst dview R dinv) (bnd (lift_res (PlainPassword_new (sv_unicode S) (ru_password c))) (\<lambda>_.
     bnd (on_db (find_by_email (sv_unicode S) (sv_sql S) e)) (\<lambda>existing.
       case existing of
         None \<Rightarrow> bnd (lift_res (hash (sv_crypto S) (dr_seed dr) (ru_password c))) (\<lambda>hashed.
             on_db (save_user (sv_sql S)
               \<lparr>user_id = dr_user_id dr, user_email = e, hashed_password = \<lparr>hashed_value = hashed\<rparr>,
                is_active = True, created_at = dr_now dr\<rparr>))
       | Some _ \<Rightarrow> raise_exn (UserAlreadyExistsError (lit ''An account with this email already exists'')))))
     (\<lambda>_. wst dview R dinv) (wst dview R dinv)"
    by (rule triple_lift, rule triple_bnd[OF on_db_triple[OF find_triples(1)]], assumption, rule triple_option,
        rule triple_lift, rule on_db_triple[OF save_user_triple]) (simp_all add: u triple_raise)
qed

lemma login_triple:
  assumes r: "reach r0" and fresh: "fresh_session (view r0) (dr_session_id dr)"
    "fresh_pair (view r0) (str_uuid (dr_jti dr)) (dr_refresh dr)" "py_text (dr_now_iso dr)"
  shows "triple (wst dview (\<lambda>r. r = r0) dinv) (authenticate_user S dr c) (\<lambda>_. wst dview reach dinv) (wst dview reach dinv)"
proof -
  have up: "wst dview reach dinv w" if "wst dview (\<lambda>r. r = r0) dinv w" for w using that r by (simp add: wst_def)
  have fail: "triple (wst dview (\<lambda>r. r = r0) dinv) (bnd (record_login_failed S dr uid ip reason) (\<lambda>_. raise_exn x))
      (\<lambda>_. wst dview reach dinv) (wst dview reach dinv)" for uid ip reason x
    unfolding record_login_failed_def by (rule triple_bnd[OF audit_triple]) (simp add: triple_raise up)
  have create: "triple (\<lambda>r. r = r0) (create_session (sv_exec S) (dr_now_iso dr) (dr_session_id dr) uid (str_uuid (dr_jti dr)) (dr_refresh dr)
        dev (sv_access_ttl S) (sv_refresh_ttl S)) (\<lambda>_. reach) reach" for uid dev
    by (rule tripleI) (use reach_create[OF r fresh] in blast)+
  have ok: "triple (wst dview (\<lambda>r. r = r0) dinv)
      (bnd (on_redis (create_session (sv_exec S) (dr_now_iso dr) (dr_session_id dr) uid (str_uuid (dr_jti dr)) (dr_refresh dr)
        dev (sv_access_ttl S) (sv_refresh_ttl S))) (\<lambda>_. bnd (audit S dr ty au sid ip meta) (\<lambda>_. ret p)))
      (\<lambda>_. wst dview reach dinv) (wst dview reach dinv)" for uid dev ty au sid ip meta p
    by (rule triple_bnd[OF on_redis_triple[OF create]], rule triple_bnd[OF audit_triple]) (simp add: triple_ret)
  show ?thesis
    unfolding authenticate_user_def generate_access_token_def prod.case
    by (rule triple_lift, rule triple_bnd[OF on_db_triple[OF find_triples(1), of "\<lambda>r. r = r0" reach]], simp add: r,
        rule triple_option, rule triple_bnd[OF dummy_triple[of "\<lambda>r. r = r0" reach]], simp add: r, rule fail,
        rule triple_if, rule fail, rule triple_lift, rule triple_if, rule fail, rule ok) (simp_all add: up)
qed

lemma refresh_triple:
  assumes r: "reach r0" and fresh: "fresh_pair (view r0) (str_uuid (dr_jti dr)) (dr_refresh dr)" "py_text (dr_now_iso dr)"
  shows "triple (wst dview (\<lambda>r. r = r0) dinv) (refresh_token S dr c) (\<lambda>_. wst dview reach dinv) (wst dview reach dinv)"
proof -
  obtain x r1 where l: "get_session_by_refresh_token (sv_exec S) (rt_refresh_token c) r0 = (x, r1)" by fastforce
  have r1: "reach r1" using reach_take[OF r l] .
  have up: "wst dview reach dinv w" if "wst dview (\<lambda>r. r = r1) dinv w" for w using that r1 by (simp add: wst_def)
  have look: "triple (wst dview (\<lambda>r. r = r0) dinv) (on_redis (get_session_by_refresh_token (sv_exec S) (rt_refresh_token c)))
      (\<lambda>y w. wst dview (\<lambda>r. r = r1) dinv w \<and> x = Inr y) (wst dview reach dinv)"
    using l r1 by (auto simp: triple_def wst_def on_redis_def split: sum.splits)
  have rest: "triple (wst dview (\<lambda>r. r = r1) dinv) (rotate_tokens S dr c uid sid) (\<lambda>_. wst dview reach dinv) (wst dview reach dinv)"
    if x: "x = Inr (Some ref)" and sid: "UUID (sv_unicode S) (ref_session_id ref) = Inr sid" for ref uid sid
  proof -
    have rot: "triple (\<lambda>r. r = r1) (rotate_session (sv_unicode S) (sv_exec S) (dr_now_iso dr) sid (rt_refresh_token c)
           (str_uuid (dr_jti dr)) (dr_refresh dr) (sv_access_ttl S) (sv_refresh_ttl S)) (\<lambda>_. reach) reach"
      by (rule tripleI) (use reach_rotate[OF r _ sid fresh] l x in blast)+
    show ?thesis unfolding rotate_tokens_def generate_access_token_def prod.case
      by (rule triple_bnd[OF on_redis_triple[OF rot]], rule triple_bnd[OF audit_triple]) (simp add: triple_ret)
  qed
  have found: "triple (wst dview (\<lambda>r. r = r1) dinv)
      (bnd (lift_res (UUID (sv_unicode S) (ref_user_id ref))) (\<lambda>uid.
       bnd (lift_res (UUID (sv_unicode S) (ref_session_id ref))) (\<lambda>sid. rotate_tokens S dr c uid sid)))
      (\<lambda>_. wst dview reach dinv) (wst dview reach dinv)" if "x = Inr (Some ref)" for ref
    by (rule triple_lift, rule triple_lift, erule rest[OF that]) (simp_all add: up)
  show ?thesis
    unfolding refresh_token_def
    by (rule triple_bnd[OF look], rule triple_option)
      (auto intro: triple_raise triple_conj_pre[OF found] simp: up)
qed

lemma reads_triple:
  "triple reach (get_session (sv_exec S) sid) (\<lambda>_. reach) reach"
  "triple reach (is_access_jti_valid (sv_exec S) j) (\<lambda>_. reach) reach"
proof -
  have call: "triple reach (redis_call (sv_exec S) c) (\<lambda>_. reach) reach" if "is_read c" for c
    by (rule tripleI)
      (use reach_read[OF _ that] in \<open>auto simp: redis_call_def split: if_splits prod.splits redis_reply.splits\<close>)
  have pure: "triple reach (case rep of RMap data \<Rightarrow> ret (if data = [] then None else Some data) | _ \<Rightarrow> raise_exn TypeError) (\<lambda>_. reach) reach"
    "triple reach (case rep of RInt n \<Rightarrow> ret (n \<noteq> 0) | _ \<Rightarrow> raise_exn TypeError) (\<lambda>_. reach) reach" for rep
    by (rule triple_pure, simp add: ret_def raise_exn_def split: redis_reply.split)+
  show "triple reach (get_session (sv_exec S) sid) (\<lambda>_. reach) reach"
    "triple reach (is_access_jti_valid (sv_exec S) j) (\<lambda>_. reach) reach"
    unfolding get_session_def is_access_jti_valid_def
    by (rule triple_bnd[OF call], simp, rule pure)+
qed

lemma revoke_step: "triple reach (revoke_session (sv_exec S) sid) (\<lambda>_. reach) reach"
  by (rule tripleI) (erule (1) reach_revoke)+

lemma revoke_all_step: "triple reach (revoke_all_user_sessions (sv_unicode S) (sv_exec S) uid) (\<lambda>_. reach) reach"
  by (rule tripleI) (erule (1) reach_revoke_all)+

lemma revoke_handler_triple:
  "triple (wst dview reach dinv) (revoke_session_handler S dr c) (\<lambda>_. wst dview reach dinv) (wst dview reach dinv)"
proof -
  have owner: "triple (wst dview reach dinv) (case x of None \<Rightarrow> ret None | Some data \<Rightarrow>
       (case map_of data (lit ''user_id'') of None \<Rightarrow> ret None
        | Some raw_uid \<Rightarrow> bnd (lift_res (UUID (sv_unicode S) raw_uid)) (\<lambda>uid. ret (Some uid))))
      (\<lambda>_. wst dview reach dinv) (wst dview reach dinv)" for x
    by (rule triple_pure) (simp add: ret_def bnd_def lift_res_def split: option.split sum.split)
  show ?thesis
    unfolding revoke_session_handler_def
    by (rule triple_bnd[OF on_redis_triple[OF reads_triple(1)]], rule triple_bnd[OF owner],
        rule triple_bnd[OF on_redis_triple[OF revoke_step]], rule audit_triple)
qed

lemma mail_triple: "triple (wst dview R D) (send_reset_email e t) (\<lambda>_. wst dview R D) E"
  by (rule tripleI) (auto simp: send_reset_email_def wst_def)

lemma request_triple:
  "triple (wst dview R dinv) (request_password_reset S dr c) (\<lambda>_. wst dview R dinv) (wst dview R dinv)"
  unfolding request_password_reset_def
proof (rule triple_lift, rule triple_bnd[OF on_db_triple[OF find_triples(1)]], assumption, rule triple_option)
  fix e and found :: "User option" and u assume "found = Some u"
  let ?tok = "\<lambda>h. \<lparr>prt_id = dr_reset_id dr, prt_user_id = user_id u, prt_token = \<lparr>reset_value = h\<rparr>,
     expires_at = dr_now dr + minutes (sv_reset_minutes S), used = False\<rparr>"
  have save: "triple (wst dview R (\<lambda>V. dinv V \<and> no_token_of (user_id u) V)) (on_db (save_token (sv_sql S) (?tok h)))
      (\<lambda>_. wst dview R dinv) (wst dview R dinv)" for h
    using on_db_triple[OF save_new_token_triple[of "sv_unicode S" "?tok h"], of R R] by simp
  show "triple (wst dview R dinv) (bnd (on_db (delete_all_by_user_id (sv_sql S) (user_id u))) (\<lambda>_.
           bnd (lift_res (token_digest (dr_reset dr))) (\<lambda>token_hash.
           bnd (on_db (save_token (sv_sql S) (?tok token_hash))) (\<lambda>_.
           bnd (send_reset_email (email_value e) (dr_reset dr)) (\<lambda>_.
             audit S dr PASSWORD_RESET_REQUESTED (Some (user_id u)) None (rq_ip_address c) [])))))
        (\<lambda>_. wst dview R dinv) (wst dview R dinv)"
    by (rule triple_bnd[OF on_db_triple[OF delete_triple]], assumption, rule triple_lift, rule triple_bnd[OF save],
        rule triple_bnd[OF mail_triple], rule audit_triple) (simp add: wst_def)
qed (simp_all add: triple_raise)

lemma found_user_email:
  assumes "find_by_id U sql i d = (Inr (Some u), d')" and "unicode_ok U"
  shows "Email_new U (email_value (user_email u)) = Inr (user_email u)"
proof -
  obtain m where "user_to_domain U m = Inr u"
    using assms(1) by (auto simp: find_by_id_def ret_def lift_res_def split: option.splits elim!: bnd_InrE)
  then obtain e where "Email_new U (um_email m) = Inr e" "user_email u = e"
    by (auto simp: user_to_domain_def split: sum.splits)
  then show ?thesis using Email_new_idem[OF assms(2)] by simp
qed

text \<open>A user that was read, with the address in normal form.\<close>

lemma find_id_reset:
  "triple (wst dview R (\<lambda>V. dinv V \<and> has_token k V)) (on_db (find_by_id (sv_unicode S) (sv_sql S) i))
     (\<lambda>x w. wst dview R (\<lambda>V. dinv V \<and> has_token k V) w \<and>
        (\<forall>u. x = Some u \<longrightarrow> Email_new (sv_unicode S) (email_value (user_email u)) = Inr (user_email u)))
     (wst dview R dinv)"
proof -
  have t: "triple (wst dview R (\<lambda>V. dinv V \<and> has_token k V)) (on_db (find_by_id (sv_unicode S) (sv_sql S) i))
      (\<lambda>_. wst dview R (\<lambda>V. dinv V \<and> has_token k V)) (wst dview R dinv)"
    using on_db_triple[OF find_id_has_token, of R R] .
  show ?thesis
  proof (rule tripleI)
    fix w x w' assume a: "wst dview R (\<lambda>V. dinv V \<and> has_token k V) w"
      "on_db (find_by_id (sv_unicode S) (sv_sql S) i) w = (Inr x, w')"
    then have "Email_new (sv_unicode S) (email_value (user_email u)) = Inr (user_email u)" if "x = Some u" for u
      using found_user_email[OF _ unicode] that by (auto simp: on_db_iff)
    then show "wst dview R (\<lambda>V. dinv V \<and> has_token k V) w' \<and>
        (\<forall>u. x = Some u \<longrightarrow> Email_new (sv_unicode S) (email_value (user_email u)) = Inr (user_email u))"
      using tripleD(1)[OF t a] by blast
  qed (use tripleD(2)[OF t] in blast)
qed

lemma complete_triple:
  assumes "Email_new (sv_unicode S) (email_value (user_email user)) = Inr (user_email user)"
  shows "triple (wst dview reach (\<lambda>V. dinv V \<and> has_token (prt_id t) V)) (complete_reset S dr c t user)
    (\<lambda>_. wst dview reach dinv) (wst dview reach dinv)"
proof -
  have su: "triple (wst dview reach (\<lambda>V. dinv V \<and> has_token (prt_id t) V))
      (on_db (save_user (sv_sql S) (change_password \<lparr>hashed_value = nh\<rparr> user)))
      (\<lambda>_. wst dview reach (\<lambda>V. dinv V \<and> has_token (prt_id t) V)) (wst dview reach dinv)" for nh
    by (intro on_db_triple[OF save_user_has_token]) (simp_all add: change_password_def assms)
  show ?thesis
    unfolding complete_reset_def
    by (rule triple_lift, rule triple_bnd[OF su], rule triple_bnd[OF on_db_triple[OF save_old_token_triple]], assumption,
        rule triple_bnd[OF on_redis_triple[OF revoke_all_step]], rule audit_triple) (simp_all add: wst_def)
qed

lemma reset_triple:
  "triple (wst dview reach dinv) (reset_password S dr c) (\<lambda>_. wst dview reach dinv) (wst dview reach dinv)"
  unfolding reset_password_def
proof (rule triple_lift, rule triple_lift, rule triple_bnd[OF on_db_triple[OF find_token_triple]], assumption, rule triple_option)
  fix h and found :: "PasswordResetToken option" and stored assume f: "found = Some stored"
  have id: "prt_id t = prt_id stored" if "consume (dr_now dr) stored = Inr t" for t
    using that by (auto simp: consume_def split: if_splits)
  have user: "triple (\<lambda>w. wst dview reach (\<lambda>V. dinv V \<and> has_token (prt_id t) V) w \<and>
        (\<forall>u. x = Some u \<longrightarrow> Email_new (sv_unicode S) (email_value (user_email u)) = Inr (user_email u)))
      (case x of None \<Rightarrow> raise_exn e | Some user \<Rightarrow> complete_reset S dr c t user)
      (\<lambda>_. wst dview reach dinv) (wst dview reach dinv)" for x e and t :: PasswordResetToken
    by (rule triple_option, rule triple_raise, simp add: wst_def, rule triple_conj_pre, rule complete_triple) simp
  have "triple (wst dview reach (\<lambda>V. dinv V \<and> has_token (prt_id stored) V))
      (bnd (lift_res (consume (dr_now dr) stored)) (\<lambda>reset_token.
           bnd (on_db (find_by_id (sv_unicode S) (sv_sql S) (prt_user_id reset_token))) (\<lambda>found_user.
             case found_user of
               None \<Rightarrow> raise_exn (UserNotFoundError (lit ''User associated with reset token not found''))
             | Some user \<Rightarrow> complete_reset S dr c reset_token user)))
      (\<lambda>_. wst dview reach dinv) (wst dview reach dinv)"
    by (rule triple_lift, rule triple_bnd[OF find_id_reset], subst id[symmetric], assumption, rule user) (simp add: wst_def)
  then show "triple (wst dview reach (\<lambda>V. dinv V \<and> (\<forall>t. found = Some t \<longrightarrow> has_token (prt_id t) V)))
      (bnd (lift_res (consume (dr_now dr) stored)) (\<lambda>reset_token.
           bnd (on_db (find_by_id (sv_unicode S) (sv_sql S) (prt_user_id reset_token))) (\<lambda>found_user.
             case found_user of
               None \<Rightarrow> raise_exn (UserNotFoundError (lit ''User associated with reset token not found''))
             | Some user \<Rightarrow> complete_reset S dr c reset_token user)))
      (\<lambda>_. wst dview reach dinv) (wst dview reach dinv)"
    by (rule triple_weaken) (auto simp: wst_def f)
qed (auto intro!: triple_raise simp: wst_def)

end

end
