(* ===== verification/Service.thy ===== *)
theory Service
  imports ServiceInv
begin

text \<open>
  The service as a whole: the schema of \<open>auth_service/presentation/graphql/schema.py\<close> as one
  resolver, requests through the context getter, and the states a deployment reaches by
  serving requests while time passes and other Redis keys change.
\<close>

section \<open>The schema\<close>

datatype operation =
    Register RegisterInput
  | Login LoginInput
  | RefreshToken RefreshTokenInput
  | RevokeSession RevokeSessionInput
  | RequestPasswordReset RequestResetInput
  | ResetPassword ResetPasswordInput
  | Me

datatype gql_value =
    VResult OperationResult
  | VAuth AuthPayload
  | VUser "UserInfo option"

definition as_value :: "('a \<Rightarrow> 'b) \<Rightarrow> ('s, 'a) act \<Rightarrow> ('s, 'b) act" where
  "as_value f m = bnd m (\<lambda>x. ret (f x))"

fun resolve :: "('r, 'd) service \<Rightarrow> draws \<Rightarrow> http_request \<Rightarrow> operation \<Rightarrow> (('r, 'd) world, gql_value) act" where
  "resolve S dr req (Register i) = as_value VResult (register_mutation S dr i)"
| "resolve S dr req (Login i) = as_value VAuth (login_mutation S dr req i)"
| "resolve S dr req (RefreshToken i) = as_value VAuth (refresh_token_mutation S dr req i)"
| "resolve S dr req (RevokeSession i) = as_value VResult (revoke_session_mutation S dr req i)"
| "resolve S dr req (RequestPasswordReset i) = as_value VResult (request_password_reset_mutation S dr req i)"
| "resolve S dr req (ResetPassword i) = as_value VResult (reset_password_mutation S dr req i)"
| "resolve S dr req Me = as_value VUser (me S dr req)"

definition serve ::
  "('r, 'd) service \<Rightarrow> (('r, 'd) world, gql_value) executor \<Rightarrow> draws \<Rightarrow> http_request \<Rightarrow> operation \<Rightarrow>
   (('r, 'd) world, gql_value response) act" where
  "serve S run dr req op = get_context (Some S) run (\<lambda>S. resolve S dr req op)"

text \<open>The random values of a request are new to the token store.\<close>

definition new_draws :: "('r \<Rightarrow> redis_view) \<Rightarrow> 'r \<Rightarrow> draws \<Rightarrow> bool" where
  "new_draws view r dr \<longleftrightarrow>
     fresh_session (view r) (dr_session_id dr) \<and> fresh_pair (view r) (str_uuid (dr_jti dr)) (dr_refresh dr) \<and>
     py_text (dr_now_iso dr)"

inductive service_reach ::
  "('r, 'd) service \<Rightarrow> ('r \<Rightarrow> redis_view) \<Rightarrow> (nat \<Rightarrow> 'r \<Rightarrow> 'r) \<Rightarrow> ('d \<Rightarrow> db_view) \<Rightarrow>
   (('r, 'd) world, gql_value) executor \<Rightarrow> ('r, 'd) world \<Rightarrow> bool"
  for S view elapse dview run where
  sr_start: "view (w_redis w) = Map.empty \<Longrightarrow> committed (dview (w_db w)) = no_tables \<Longrightarrow>
     working (dview (w_db w)) = no_tables \<Longrightarrow> service_reach S view elapse dview run w"
| sr_request: "service_reach S view elapse dview run w \<Longrightarrow> new_draws view (w_redis w) dr \<Longrightarrow>
     serve S run dr req op w = (res, w') \<Longrightarrow> service_reach S view elapse dview run w'"
| sr_wait: "service_reach S view elapse dview run w \<Longrightarrow>
     service_reach S view elapse dview run (w\<lparr>w_redis := elapse t (w_redis w)\<rparr>)"
| sr_foreign: "service_reach S view elapse dview run w \<Longrightarrow> \<not> store_key (cmd_key c) \<Longrightarrow>
     sv_exec S c (w_redis w) = (rep, r) \<Longrightarrow> service_reach S view elapse dview run (w\<lparr>w_redis := r\<rparr>)"

section \<open>Requests keep the invariants\<close>

lemma triple_as_value: "triple P m (\<lambda>_. Q) E \<Longrightarrow> triple P (as_value f m) (\<lambda>_. Q) E"
  unfolding as_value_def by (erule triple_bnd) (simp add: triple_ret)

text \<open>A resolver's clauses after the handler only return or raise.\<close>

lemma triple_clauses:
  assumes "triple P m (\<lambda>_. Q) Q" and "\<And>e s. snd (h e s) = s"
  shows "triple P (catch (bnd m (\<lambda>x. ret (f x))) h) (\<lambda>_. Q) Q"
  by (rule triple_catch[OF triple_bnd[OF assms(1)]]) (simp_all add: triple_ret triple_pure assms(2))

text \<open>The two ways out of a scope's body; the executor turns both into a response.\<close>

lemma triple_outcome:
  assumes "triple P m R R'" and "\<And>x. triple (R x) (f x) Q E" and "\<And>e. triple R' (g e) Q E"
  shows "triple P (\<lambda>s. case m s of (Inr x, s') \<Rightarrow> f x s' | (Inl e, s') \<Rightarrow> g e s') Q E"
proof (rule tripleI)
  show "Q y t" if p: "P s" and r: "(case m s of (Inr x, s') \<Rightarrow> f x s' | (Inl e, s') \<Rightarrow> g e s') = (Inr y, t)" for s y t
    using tripleD[OF assms(1) p] r tripleD(1)[OF assms(2)] tripleD(1)[OF assms(3)] by (auto split: prod.splits sum.splits)
  show "E t" if p: "P s" and r: "(case m s of (Inr x, s') \<Rightarrow> f x s' | (Inl e, s') \<Rightarrow> g e s') = (Inl y, t)" for s y t
    using tripleD[OF assms(1) p] r tripleD(2)[OF assms(2)] tripleD(2)[OF assms(3)] by (auto split: prod.splits sum.splits)
qed

lemma triple_either: "triple P m (\<lambda>_. Q) Q \<Longrightarrow> P s \<Longrightarrow> m s = (res, s') \<Longrightarrow> Q s'"
  by (cases res) (auto simp: triple_def)

lemma triple_run:
  assumes "graphql_executor run" and "triple P m (\<lambda>_. Q) Q"
  shows "triple P (run m) (\<lambda>_. Q) E"
  unfolding triple_def
proof (intro allI impI)
  fix s assume "P s"
  moreover have "run m s = (case m s of (Inr x, w') \<Rightarrow> (Inr (Data x), w') | (Inl e, w') \<Rightarrow> (Inr (Errors e), w'))"
    using assms(1) by (simp add: graphql_executor_def)
  ultimately show "case run m s of (Inr x, s') \<Rightarrow> Q s' | (Inl e, s') \<Rightarrow> E s'"
    using assms(2) by (cases "m s"; cases "fst (m s)") (auto simp: triple_def)
qed

context auth_service
begin

lemma revoke_mutation_triple:
  "triple (wst dview reach dinv) (revoke_session_mutation S dr req i) (\<lambda>_. wst dview reach dinv) (wst dview reach dinv)"
proof -
  have own: "triple (wst dview reach dinv) (revoke_owned S dr req u i) (\<lambda>_. wst dview reach dinv) (wst dview reach dinv)" for u
    unfolding revoke_owned_eq
    by (rule triple_lift, rule triple_bnd[OF on_redis_triple[OF reads_triple(1)]], rule triple_option)
      (auto intro!: triple_ret triple_clauses[OF revoke_handler_triple] simp: ret_def)
  have checked: "triple (wst dview reach dinv) (bnd (on_redis (is_access_jti_valid (sv_exec S) j)) (\<lambda>valid.
      if \<not> valid then ret x else revoke_owned S dr req u i)) (\<lambda>_. wst dview reach dinv) (wst dview reach dinv)" for x u j
    by (rule triple_bnd[OF on_redis_triple[OF reads_triple(2)]], rule triple_if) (simp_all add: own triple_ret)
  show ?thesis
    unfolding revoke_session_mutation_eq Let_def
    by (auto intro!: triple_ret triple_raise checked split: option.split sum.split exn.split)
qed

lemma me_triple: "triple (wst dview reach dinv) (me S dr req) (\<lambda>_. wst dview reach dinv) (wst dview reach dinv)"
proof -
  have found: "triple (wst dview reach dinv) (case u of None \<Rightarrow> ret None | Some user \<Rightarrow> if \<not> is_active user then ret None else ret (Some (f user)))
      (\<lambda>_. wst dview reach dinv) (wst dview reach dinv)" for u and f :: "User \<Rightarrow> UserInfo"
    by (rule triple_pure) (simp add: ret_def split: option.split)
  have checked: "triple (wst dview reach dinv) (bnd (on_redis (is_access_jti_valid (sv_exec S) j)) (\<lambda>valid.
      if \<not> valid then ret None else bnd (lift_res (UUID (sv_unicode S) s)) (\<lambda>uid.
        bnd (on_db (find_by_id (sv_unicode S) (sv_sql S) uid)) (\<lambda>found. case found of None \<Rightarrow> ret None
          | Some user \<Rightarrow> if \<not> is_active user then ret None else ret (Some (f user))))))
      (\<lambda>_. wst dview reach dinv) (wst dview reach dinv)" for j s and f :: "User \<Rightarrow> UserInfo"
    by (rule triple_bnd[OF on_redis_triple[OF reads_triple(2)]], rule triple_if, simp add: triple_ret, rule triple_lift,
        rule triple_bnd[OF on_db_triple[OF find_triples(2)]], assumption, rule found) simp
  show ?thesis
    unfolding me_eq by (auto intro!: triple_ret triple_raise checked split: option.split sum.split exn.split)
qed

lemma resolve_triple:
  assumes r: "reach r0" and fresh: "new_draws view r0 dr"
  shows "triple (wst dview (\<lambda>r. r = r0) dinv) (resolve S dr req op) (\<lambda>_. wst dview reach dinv) (wst dview reach dinv)"
proof -
  have up: "wst dview (\<lambda>r. r = r0) dinv w \<Longrightarrow> wst dview reach dinv w" for w using r by (simp add: wst_def)
  have weak: "triple (wst dview (\<lambda>r. r = r0) dinv) m (\<lambda>_. wst dview reach dinv) (wst dview reach dinv)"
    if "triple (wst dview reach dinv) m (\<lambda>_. wst dview reach dinv) (wst dview reach dinv)"
    for m :: "(('r, 'd) world, OperationResult) act"
    by (rule triple_weaken[OF that up]) simp_all
  have user: "triple (wst dview (\<lambda>r. r = r0) dinv) (me S dr req) (\<lambda>_. wst dview reach dinv) (wst dview reach dinv)"
    by (rule triple_weaken[OF me_triple up]) simp_all
  have "triple (wst dview (\<lambda>r. r = r0) dinv) (login_mutation S dr req i) (\<lambda>_. wst dview reach dinv) (wst dview reach dinv)" for i
    unfolding login_mutation_eq
    by (rule triple_clauses[OF login_triple[OF r]]) (use fresh in \<open>auto simp: new_draws_def raise_exn_def split: exn.split\<close>)
  moreover have "triple (wst dview (\<lambda>r. r = r0) dinv) (refresh_token_mutation S dr req i) (\<lambda>_. wst dview reach dinv) (wst dview reach dinv)" for i
    unfolding refresh_token_mutation_eq
    by (rule triple_clauses[OF refresh_triple[OF r]]) (use fresh in \<open>auto simp: new_draws_def raise_exn_def split: exn.split\<close>)
  moreover have "triple (wst dview reach dinv) (register_mutation S dr i) (\<lambda>_. wst dview reach dinv) (wst dview reach dinv)" for i
    unfolding register_mutation_eq
    by (rule triple_clauses[OF register_triple]) (auto simp: ret_def raise_exn_def split: exn.split)
  moreover have "triple (wst dview reach dinv) (request_password_reset_mutation S dr req i) (\<lambda>_. wst dview reach dinv) (wst dview reach dinv)" for i
    unfolding request_password_reset_mutation_eq
    by (rule triple_clauses[OF request_triple]) (auto simp: ret_def raise_exn_def split: exn.split)
  moreover have "triple (wst dview reach dinv) (reset_password_mutation S dr req i) (\<lambda>_. wst dview reach dinv) (wst dview reach dinv)" for i
    unfolding reset_password_mutation_eq
    by (rule triple_clauses[OF reset_triple]) (auto simp: ret_def raise_exn_def split: exn.split)
  ultimately show ?thesis
    using weak[OF revoke_mutation_triple] user weak by (cases op) (auto intro!: triple_as_value)
qed

lemma transaction_triple:
  assumes "op \<in> {BeginTransaction, CommitTransaction, RollbackTransaction}" and "\<And>r. R r \<Longrightarrow> R' r"
  shows "triple (wst dview R dinv) (on_db (flush (sv_sql S) op)) (\<lambda>_. wst dview R dinv) (wst dview R' dinv)"
  by (rule on_db_triple[OF flush_triple]) (use assms in auto)

lemma request_scope_triple:
  assumes "triple (wst dview P dinv) body (\<lambda>_. wst dview reach dinv) (wst dview reach dinv)" and "\<And>r. P r \<Longrightarrow> reach r"
  shows "triple (wst dview P dinv) (request_scope S body) (\<lambda>_. wst dview reach dinv) (wst dview reach dinv)"
  unfolding request_scope_def
proof (rule triple_bnd)
  show "triple (wst dview P dinv) (on_db (flush (sv_sql S) BeginTransaction)) (\<lambda>_. wst dview P dinv) (wst dview reach dinv)"
    by (rule transaction_triple) (use assms(2) in auto)
  have c: "triple (wst dview reach dinv) (bnd (on_db (flush (sv_sql S) CommitTransaction)) (\<lambda>_. ret x))
      (\<lambda>_. wst dview reach dinv) (wst dview reach dinv)" for x
    by (rule triple_bnd[OF transaction_triple]) (simp_all add: triple_ret)
  have b: "triple (wst dview reach dinv) (bnd (on_db (flush (sv_sql S) RollbackTransaction)) (\<lambda>_. raise_exn e))
      (\<lambda>_. wst dview reach dinv) (wst dview reach dinv)" for e
    by (rule triple_bnd[OF transaction_triple]) (simp_all add: triple_raise)
  show "triple (wst dview P dinv) (\<lambda>w. case body w of
         (Inr x, w') \<Rightarrow> bnd (on_db (flush (sv_sql S) CommitTransaction)) (\<lambda>_. ret x) w'
       | (Inl e, w') \<Rightarrow> bnd (on_db (flush (sv_sql S) RollbackTransaction)) (\<lambda>_. raise_exn e) w')
      (\<lambda>_. wst dview reach dinv) (wst dview reach dinv)"
    by (rule triple_outcome[OF assms(1) c b])
qed

lemma serve_keeps:
  assumes "graphql_executor run" and "reach (w_redis w)" and "dinv (dview (w_db w))" and "new_draws view (w_redis w) dr"
    and "serve S run dr req op w = (res, w')"
  shows "reach (w_redis w')" and "dinv (dview (w_db w'))"
proof -
  have run: "triple (wst dview (\<lambda>r. r = w_redis w) dinv) (run (resolve S dr req op)) (\<lambda>_. wst dview reach dinv) (wst dview reach dinv)"
    by (rule triple_run[OF assms(1) resolve_triple[OF assms(2,4)]])
  have "wst dview reach dinv w'"
    by (rule triple_either[OF request_scope_triple[OF run], of w res])
      (use assms in \<open>simp_all add: wst_def serve_def get_context_def get_global_container_def\<close>)
  then show "reach (w_redis w')" "dinv (dview (w_db w'))" by (simp_all add: wst_def)
qed

lemma service_reach_inv:
  assumes "graphql_executor run" and "service_reach S view elapse dview run w"
  shows "reach (w_redis w) \<and> dinv (dview (w_db w))"
  using assms(2)
proof (induction rule: service_reach.induct)
  case (sr_start w)
  then show ?case
    using reach_start by (auto simp: db_inv_def tables_inv_def tables_ok_def one_token_def no_tables_def)
next
  case (sr_request w dr req op res w')
  then show ?case using serve_keeps[OF assms(1)] by blast
next
  case (sr_wait w t)
  then show ?case by (simp add: reach_wait)
next
  case (sr_foreign w c rep r)
  then show ?case by (auto intro: reach_foreign)
qed

end

section \<open>The invariant of the service\<close>

text \<open>
  Claim C1. In every state a deployment reaches by serving requests of any kind, with any
  input, while time passes and other Redis keys change: the token store is well-formed; the
  committed users have distinct identifiers and distinct addresses, each in the normal form
  of the value object; every reset token belongs to a user; and no user has two reset tokens.
\<close>

theorem service_invariant:
  assumes "auth_service S view elapse dview text_ok inet_ok" and "graphql_executor run"
    and "service_reach S view elapse dview run w"
  shows "store_ok (ms (sv_refresh_ttl S)) {} (view (w_redis w)) \<and>
    (let T = committed (dview (w_db w)) in
       distinct (map um_id (users T)) \<and> distinct (map um_email (users T)) \<and>
       list_all (\<lambda>m. Email_new (sv_unicode S) (um_email m) = Inr \<lparr>email_value = um_email m\<rparr>) (users T) \<and>
       tm_user_id ` set (reset_tokens T) \<subseteq> um_id ` set (users T) \<and> distinct (map tm_user_id (reset_tokens T)))"
proof -
  note sv = assms(1)
  have "redis_sessions (sv_exec S) view elapse (sv_access_ttl S) (sv_refresh_ttl S)"
    by (rule auth_service.server[OF sv])
  from redis_sessions.reach_ok[OF this] auth_service.service_reach_inv[OF sv assms(2,3)]
  show ?thesis
    by (auto simp: db_inv_def tables_inv_def tables_ok_def one_token_def Let_def stored_email_def list_all_iff)
qed

definition plain_executor :: "('w, 'a) executor" where
  "plain_executor m w = (case m w of (Inr x, w') \<Rightarrow> (Inr (Data x), w') | (Inl e, w') \<Rightarrow> (Inr (Errors e), w'))"

lemma plain_executor_ok: "graphql_executor plain_executor"
  by (simp add: graphql_executor_def plain_executor_def)

definition demo_registered :: "(ref_state, db_view) world" where
  "demo_registered = snd (serve ref_service plain_executor demo_draws demo_request
     (Register \<lparr>ri_email = lit '' Bob@X.Org'', ri_password = lit ''secret-42''\<rparr>) empty_world)"

lemma demo_start_reach: "service_reach ref_service ref_view ref_elapse id_view plain_executor empty_world"
  by (rule sr_start) (simp_all add: empty_world_def ref_view_def map_comp_def)

lemma demo_new_draws: "new_draws ref_view Map.empty demo_draws"
  using demo_fresh_draws by (simp add: new_draws_def fresh_draws_def)

theorem service_invariant_witness:
  "distinct (map um_email (users (committed (w_db demo_registered)))) \<and>
   distinct (map tm_user_id (reset_tokens (committed (w_db demo_registered))))"
proof -
  have "service_reach ref_service ref_view ref_elapse id_view plain_executor demo_registered"
    by (rule sr_request[OF demo_start_reach, of demo_draws demo_request _ "fst (serve ref_service plain_executor demo_draws demo_request
        (Register \<lparr>ri_email = lit '' Bob@X.Org'', ri_password = lit ''secret-42''\<rparr>) empty_world)"])
      (simp_all add: demo_new_draws demo_registered_def)
  from service_invariant[OF refsvc.auth_service_axioms plain_executor_ok this] show ?thesis by (simp add: Let_def)
qed

end
