(* ===== verification/Requests.thy ===== *)
theory Requests
  imports Service
begin

text \<open>
  The transaction of a request. No handler commits by itself; what a resolver wrote becomes
  visible when the scope ends, whether the resolver answered or raised, unless the
  transaction has already been lost. The effects on Redis are not part of it.
\<close>

section \<open>Predicates that an action leaves alone\<close>

definition stable :: "('s \<Rightarrow> bool) \<Rightarrow> ('s, 'a) act \<Rightarrow> bool" where
  "stable P m \<longleftrightarrow> triple P m (\<lambda>_. P) P"

named_theorems stable_intros

lemma stable_bnd [stable_intros]: "stable P m \<Longrightarrow> (\<And>x. stable P (f x)) \<Longrightarrow> stable P (bnd m f)"
  unfolding stable_def by (rule triple_bnd)

lemma stable_pure [stable_intros]: "stable P (ret x)" "stable P (raise_exn e)" "stable P (lift_res r)"
  by (simp_all add: stable_def triple_def ret_def raise_exn_def lift_res_def split: sum.split)

lemma stable_swallow [stable_intros]: "stable P m \<Longrightarrow> stable P (swallow m)"
  unfolding stable_def by (rule triple_swallow)

lemma stable_catch [stable_intros]: "stable P m \<Longrightarrow> (\<And>e. stable P (h e)) \<Longrightarrow> stable P (catch m h)"
  unfolding stable_def by (rule triple_catch)

lemma stable_if [stable_intros]: "stable P m \<Longrightarrow> stable P n \<Longrightarrow> stable P (if b then m else n)"
  by simp

lemma stable_option [stable_intros]:
  "stable P m \<Longrightarrow> (\<And>y. stable P (f y)) \<Longrightarrow> stable P (case x of None \<Rightarrow> m | Some y \<Rightarrow> f y)"
  by (cases x) simp_all

lemma stable_prod [stable_intros]: "(\<And>x y. stable P (f x y)) \<Longrightarrow> stable P (case p of (x, y) \<Rightarrow> f x y)"
  by (cases p) simp

lemma stableD: "stable P m \<Longrightarrow> P s \<Longrightarrow> m s = (res, s') \<Longrightarrow> P s'"
  unfolding stable_def by (rule triple_either)

section \<open>Nothing commits before the end\<close>

definition frozen :: "('d \<Rightarrow> db_view) \<Rightarrow> tables \<Rightarrow> 'd \<Rightarrow> bool" where
  "frozen dview T d \<longleftrightarrow> committed (dview d) = T"

definition wfrozen :: "('d \<Rightarrow> db_view) \<Rightarrow> tables \<Rightarrow> ('r, 'd) world \<Rightarrow> bool" where
  "wfrozen dview T w \<longleftrightarrow> frozen dview T (w_db w)"

lemma wfrozen_redis [stable_intros]: "stable (wfrozen dview T) (on_redis f)"
  by (auto simp: stable_def triple_def wfrozen_def on_redis_def split: prod.splits sum.splits)

lemma wfrozen_db [stable_intros]: "stable (frozen dview T) f \<Longrightarrow> stable (wfrozen dview T) (on_db f)"
  by (auto simp: stable_def triple_def wfrozen_def on_db_def split: prod.splits sum.splits)

lemma wfrozen_mail [stable_intros]: "stable (wfrozen dview T) (send_reset_email a t)"
  by (simp add: stable_def triple_def wfrozen_def send_reset_email_def)

lemma wfrozen_dummy [stable_intros]: "stable (wfrozen dview T) (dummy_verify S dr p)"
  by (auto simp: stable_def triple_def wfrozen_def dummy_verify_def bnd_def lift_res_def ret_def
      split: sum.splits prod.splits if_splits)

context sql_session
begin

lemma call_frozen:
  assumes "op \<noteq> CommitTransaction"
  shows "stable (frozen dview T) (sql_call sql op)"
proof -
  have "committed (dview (snd (sql op d))) = committed (dview d)" for d
  proof -
    have ok: "db_ok text_ok inet_ok op (dview d) (fst (sql op d)) (dview (snd (sql op d)))" by (rule sql_ok)
    show ?thesis
      using ok assms by (cases op) (auto simp: db_ok_def flushed_def dead_def split: if_splits)
  qed
  then have "frozen dview T (snd (sql op d)) \<longleftrightarrow> frozen dview T d" for d by (simp add: frozen_def)
  moreover have "snd (sql_call sql op d) = snd (sql op d)" for d
    by (cases "sql op d"; cases "fst (sql op d)") (auto simp: sql_call_def)
  ultimately show ?thesis unfolding stable_def by (intro tripleI) (metis snd_conv)+
qed

lemma rows_frozen:
  assumes "op \<noteq> CommitTransaction"
  shows "stable (frozen dview T) (user_row sql op)" and "stable (frozen dview T) (token_row sql op)"
    and "stable (frozen dview T) (flush sql op)"
  unfolding user_row_def token_row_def flush_def
  by (auto intro!: stable_intros call_frozen[OF assms] split: db_reply.split)

lemma repositories_frozen:
  "stable (frozen dview T) (find_by_email U sql e)" "stable (frozen dview T) (find_by_id U sql i)"
  "stable (frozen dview T) (save_user sql u)" "stable (frozen dview T) (save_token sql t)"
  "stable (frozen dview T) (find_by_token sql h)" "stable (frozen dview T) (delete_all_by_user_id sql i)"
  "stable (frozen dview T) (record_event sql ev)"
  unfolding find_by_email_def find_by_id_def save_user_def save_token_def find_by_token_def
    delete_all_by_user_id_def record_event_def
  by (intro stable_intros rows_frozen; simp)+

end

context auth_service
begin

lemmas repo_frozen = repositories_frozen

lemma audit_frozen: "stable (wfrozen dview T) (audit S dr ty uid sid ip meta)"
  unfolding audit_def by (intro stable_intros repo_frozen)

lemma handlers_frozen:
  "stable (wfrozen dview T) (register_user S dr c1)" "stable (wfrozen dview T) (authenticate_user S dr c2)"
  "stable (wfrozen dview T) (refresh_token S dr c3)" "stable (wfrozen dview T) (revoke_session_handler S dr c4)"
  "stable (wfrozen dview T) (request_password_reset S dr c5)" "stable (wfrozen dview T) (reset_password S dr c6)"
  unfolding register_user_def authenticate_user_def refresh_token_def rotate_tokens_def revoke_session_handler_def
    request_password_reset_def reset_password_def complete_reset_def record_login_failed_def
  by (intro stable_intros repo_frozen audit_frozen)+

lemma mutations_frozen:
  "stable (wfrozen dview T) (register_mutation S dr i1)" "stable (wfrozen dview T) (login_mutation S dr req i2)"
  "stable (wfrozen dview T) (refresh_token_mutation S dr req i3)"
  "stable (wfrozen dview T) (request_password_reset_mutation S dr req i5)"
  "stable (wfrozen dview T) (reset_password_mutation S dr req i6)"
  unfolding register_mutation_eq login_mutation_eq refresh_token_mutation_eq request_password_reset_mutation_eq
    reset_password_mutation_eq
  by (auto intro!: stable_intros handlers_frozen split: exn.split)

lemma guarded_frozen:
  "stable (wfrozen dview T) (revoke_owned S dr req u i)"
  "stable (wfrozen dview T) (revoke_session_mutation S dr req i)"
  "stable (wfrozen dview T) (me S dr req)"
proof -
  show own: "stable (wfrozen dview T) (revoke_owned S dr req u i)" for u
    unfolding revoke_owned_eq by (intro stable_intros handlers_frozen)
  show "stable (wfrozen dview T) (revoke_session_mutation S dr req i)"
    unfolding revoke_session_mutation_eq Let_def
    by (auto intro!: stable_intros own split: option.split sum.split exn.split)
  show "stable (wfrozen dview T) (me S dr req)"
    unfolding me_eq by (auto intro!: stable_intros repo_frozen split: option.split sum.split exn.split)
qed

lemma resolve_frozen: "stable (wfrozen dview T) (resolve S dr req op)"
  by (cases op) (simp_all add: as_value_def stable_intros mutations_frozen guarded_frozen)

text \<open>The transaction opens on what is committed and, when it still stands, is committed at the end.\<close>

lemma begin_run:
  obtains d where "flush (sv_sql S) BeginTransaction d0 = (Inr (), d)"
    "dview d = (dview d0)\<lparr>working := committed (dview d0), active := True\<rparr>"
  using sql_ok[of BeginTransaction d0]
  by (cases "sv_sql S BeginTransaction d0") (auto simp: flush_def sql_call_def db_ok_def bnd_def ret_def)

lemma commit_run:
  obtains d where "flush (sv_sql S) CommitTransaction d0 = (Inr (), d)"
    "dview d = (if active (dview d0) then (dview d0)\<lparr>committed := working (dview d0)\<rparr> else dead (dview d0))"
  using sql_ok[of CommitTransaction d0]
  by (cases "sv_sql S CommitTransaction d0") (auto simp: flush_def sql_call_def db_ok_def bnd_def ret_def split: if_splits)

lemma serve_run:
  assumes "graphql_executor run"
  obtains d0 out w1 d where "flush (sv_sql S) BeginTransaction (w_db w) = (Inr (), d0)"
    "dview d0 = (dview (w_db w))\<lparr>working := committed (dview (w_db w)), active := True\<rparr>"
    "resolve S dr req op (w\<lparr>w_db := d0\<rparr>) = (out, w1)"
    "committed (dview (w_db w1)) = committed (dview (w_db w))"
    "serve S run dr req op w = (Inr (case out of Inr x \<Rightarrow> Data x | Inl e \<Rightarrow> Errors e), w1\<lparr>w_db := d\<rparr>)"
    "committed (dview d) = (if active (dview (w_db w1)) then working (dview (w_db w1)) else committed (dview (w_db w)))"
proof -
  obtain d0 where b: "flush (sv_sql S) BeginTransaction (w_db w) = (Inr (), d0)"
      "dview d0 = (dview (w_db w))\<lparr>working := committed (dview (w_db w)), active := True\<rparr>"
    by (rule begin_run)
  obtain out w1 where r: "resolve S dr req op (w\<lparr>w_db := d0\<rparr>) = (out, w1)" by fastforce
  have "wfrozen dview (committed (dview (w_db w))) w1"
    by (rule stableD[OF resolve_frozen _ r]) (simp add: wfrozen_def frozen_def b(2))
  then have c: "committed (dview (w_db w1)) = committed (dview (w_db w))" by (simp add: wfrozen_def frozen_def)
  obtain d where e: "flush (sv_sql S) CommitTransaction (w_db w1) = (Inr (), d)"
      "dview d = (if active (dview (w_db w1)) then (dview (w_db w1))\<lparr>committed := working (dview (w_db w1))\<rparr> else dead (dview (w_db w1)))"
    by (rule commit_run)
  have "run (resolve S dr req op) (w\<lparr>w_db := d0\<rparr>) = (Inr (case out of Inr x \<Rightarrow> Data x | Inl e \<Rightarrow> Errors e), w1)"
    using assms r by (simp add: graphql_executor_def split: sum.split)
  then have "serve S run dr req op w = (Inr (case out of Inr x \<Rightarrow> Data x | Inl e \<Rightarrow> Errors e), w1\<lparr>w_db := d\<rparr>)"
    by (simp add: serve_def get_context_def get_global_container_def request_scope_def on_db_run b(1) e(1) ret_def)
  then show thesis using that[OF b r c] e(2) c by (simp add: dead_def)
qed

end

section \<open>The unit of work\<close>

text \<open>
  Claim C10. A request to a started service always gets a response: the value of the resolver
  or its error. The resolver works on the tables as committed before, and nothing of it is
  visible dview while it runs. At the end its tables are committed, also when it raised; only when
  the session has lost the transaction are the tables left as they were. What the resolver
  did to Redis and the mails it sent remain in either case.
\<close>

theorem request_unit_of_work:
  assumes "auth_service S view elapse dview text_ok inet_ok" and "graphql_executor run"
  shows "\<exists>d0 out w1 d. dview d0 = (dview (w_db w))\<lparr>working := committed (dview (w_db w)), active := True\<rparr> \<and>
    resolve S dr req op (w\<lparr>w_db := d0\<rparr>) = (out, w1) \<and>
    committed (dview (w_db w1)) = committed (dview (w_db w)) \<and>
    serve S run dr req op w = (Inr (case out of Inr x \<Rightarrow> Data x | Inl e \<Rightarrow> Errors e), w1\<lparr>w_db := d\<rparr>) \<and>
    committed (dview d) = (if active (dview (w_db w1)) then working (dview (w_db w1)) else committed (dview (w_db w)))"
  by (rule auth_service.serve_run[OF assms]) blast

definition anonymous_request :: http_request where
  "anonymous_request = \<lparr>hr_authorization = None, hr_client = None, hr_real_ip = None, hr_idempotency_key = None\<rparr>"

lemma me_anonymous: "as_value VUser (me S dr anonymous_request) w = (Inr (VUser None), w)"
  by (simp add: as_value_def me_eq bearer_token_def anonymous_request_def py_startswith_def lit_def ret_def)

theorem request_unit_of_work_witness:
  "\<exists>w'. serve ref_service plain_executor demo_draws anonymous_request Me empty_world = (Inr (Data (VUser None)), w') \<and>
     committed (w_db w') = no_tables"
  using request_unit_of_work[OF refsvc.auth_service_axioms plain_executor_ok, of empty_world demo_draws anonymous_request Me]
  by (auto simp: me_anonymous empty_world_def split: if_splits)

section \<open>What a request leaves behind\<close>

text \<open>Between requests only the committed tables count.\<close>

definition at_rest :: "('r, 'd) service \<Rightarrow> ('r \<Rightarrow> redis_view) \<Rightarrow> ('d \<Rightarrow> db_view) \<Rightarrow> ('r, 'd) world \<Rightarrow> bool" where
  "at_rest S view dview w \<longleftrightarrow>
     store_ok (ms (sv_refresh_ttl S)) {} (view (w_redis w)) \<and> tables_ok (sv_unicode S) (committed (dview (w_db w)))"

abbreviation visible :: "('d \<Rightarrow> db_view) \<Rightarrow> ('r, 'd) world \<Rightarrow> db_state" where
  "visible dview w \<equiv> db_abs (committed (dview (w_db w)))"

context auth_service
begin

lemma begun_good:
  assumes "at_rest S view dview w"
    and "dview d0 = (dview (w_db w))\<lparr>working := committed (dview (w_db w)), active := True\<rparr>"
  shows "good (w\<lparr>w_db := d0\<rparr>)" and "db_abs (working (dview d0)) = visible dview w"
  using assms by (simp_all add: good_state_def dbs_ok_def at_rest_def)

lemma lit_text: "list_all (\<lambda>c. 0 < c \<and> c < 128) (lit s) \<Longrightarrow> text_ok (lit s)"
  by (rule text_ascii) (simp add: list_all_iff)

lemma failed_login_served:
  assumes run: "graphql_executor run" and inv: "at_rest S view dview w"
    and e: "Email_new (sv_unicode S) (li_email i) = Inr e"
    and bad: "\<forall>k u. accounts (visible dview w) k = Some u \<longrightarrow> user_email u = e \<longrightarrow> is_active u \<longrightarrow>
      verify (sv_crypto S) (li_password i) (hashed_value (hashed_password u)) = Inr False"
    and ev: "dr_event_id dr \<notin> em_id ` set (events (visible dview w))" "pred_option inet_ok (hr_client req)"
  shows "\<exists>w' uid reason. serve S run dr req (Login i) w =
      (Inr (Errors (StrawberryGraphQLError (lit ''Invalid email or password''))), w') \<and>
    w_redis w' = w_redis w \<and> failure_reason e (visible dview w) uid reason \<and>
    visible dview w' = (visible dview w)\<lparr>events := events (visible dview w) @
      [event_to_model (audit_event dr LOGIN_FAILED uid None (hr_client req) [(lit ''reason'', lit reason)])]\<rparr>"
proof -
  let ?c = "\<lparr>au_email = li_email i, au_password = li_password i, au_device_info = li_device_info i, au_ip_address = hr_client req\<rparr>"
  obtain d0 out w1 d where s: "dview d0 = (dview (w_db w))\<lparr>working := committed (dview (w_db w)), active := True\<rparr>"
      "resolve S dr req (Login i) (w\<lparr>w_db := d0\<rparr>) = (out, w1)"
      "serve S run dr req (Login i) w = (Inr (case out of Inr x \<Rightarrow> Data x | Inl e \<Rightarrow> Errors e), w1\<lparr>w_db := d\<rparr>)"
      "committed (dview d) = (if active (dview (w_db w1)) then working (dview (w_db w1)) else committed (dview (w_db w)))"
    by (rule serve_run[OF run, of w dr req "Login i"]) (rule that)
  note g = begun_good[OF inv s(1)]
  obtain d1 d2 c uid reason where f: "authenticate_user S dr ?c (w\<lparr>w_db := d0\<rparr>) = (Inl bad_credentials, w\<lparr>w_db := d2, w_dummy := c\<rparr>)"
      "db_abs (working (dview d1)) = visible dview w" "failure_reason e (visible dview w) uid reason"
      "recorded d1 (audit_event dr LOGIN_FAILED uid None (hr_client req) [(lit ''reason'', lit reason)]) d2"
    using login_failure_run[OF g(1), of ?c e dr] e bad by (auto simp: g(2))
  have "reason \<in> {''user_not_found'', ''invalid_password'', ''inactive_account''}"
    using f(3) by (cases uid) (auto split: if_splits)
  then have reason_text: "text_ok (lit ''reason'')" "text_ok (lit reason)"
    using lit_text[of "''reason''"] lit_text[of "''user_not_found''"] lit_text[of "''invalid_password''"]
      lit_text[of "''inactive_account''"] by (auto simp: lit_def)
  have "event_storable text_ok inet_ok (visible dview w) (audit_event dr LOGIN_FAILED uid None (hr_client req) [(lit ''reason'', lit reason)])"
    unfolding event_storable_def
  proof (intro conjI ballI allI impI)
    fix kv assume "kv \<in> set (ev_metadata (audit_event dr LOGIN_FAILED uid None (hr_client req) [(lit ''reason'', lit reason)]))"
    moreover have "text_ok (lit ''reason'')" "text_ok (lit reason)"
      using reason_text by simp_all
    ultimately show "case kv of (k, v) \<Rightarrow> text_ok k \<and> text_ok v" by (auto simp: audit_event_def)
  qed (use ev f(3) in \<open>auto simp: audit_event_def image_iff\<close>)
  note l = loggedD[OF f(4), unfolded f(2), OF this]
  have "out = Inl (StrawberryGraphQLError (lit ''Invalid email or password''))" "w1 = w\<lparr>w_db := d2, w_dummy := c\<rparr>"
    using s(2) f(1) by (simp_all add: as_value_def login_mutation_eq bad_credentials_def catch_def bnd_def raise_exn_def)
  then show ?thesis using s(3,4) l f(3) dbs_okD(1)[OF l(1)] by (intro exI[of _ "w1\<lparr>w_db := d\<rparr>"] exI[of _ uid] exI[of _ reason]) simp
qed

lemma lost_reset_served:
  assumes run: "graphql_executor run" and inv: "at_rest S view dview w"
    and p: "PlainPassword_new (sv_unicode S) (pi_new_password i) = Inr p" "no_nul (pi_new_password i)"
    and h: "token_digest (pi_token i) = Inr h"
    and t: "resets (visible dview w) k = Some t" "reset_value (prt_token t) = h" "dr_now dr < expires_at t" "\<not> used t"
    and u: "accounts (visible dview w) (prt_user_id t) = Some u"
    and ip: "hr_client req = Some a" "\<not> inet_ok a"
  shows "\<exists>w'. serve S run dr req (ResetPassword i) w =
      (Inr (Data (VResult (succeeded ''Password reset successfully''))), w') \<and>
    committed (dview (w_db w')) = committed (dview (w_db w)) \<and>
    abs_store (view (w_redis w')) = a_revoke_all (str_uuid (user_id u)) (abs_store (view (w_redis w)))"
proof -
  let ?c = "\<lparr>rp_token = pi_token i, rp_new_password = pi_new_password i, rp_ip_address = hr_client req\<rparr>"
  obtain d0 out w1 d where s: "dview d0 = (dview (w_db w))\<lparr>working := committed (dview (w_db w)), active := True\<rparr>"
      "resolve S dr req (ResetPassword i) (w\<lparr>w_db := d0\<rparr>) = (out, w1)"
      "serve S run dr req (ResetPassword i) w = (Inr (case out of Inr x \<Rightarrow> Data x | Inl e \<Rightarrow> Errors e), w1\<lparr>w_db := d\<rparr>)"
      "committed (dview d) = (if active (dview (w_db w1)) then working (dview (w_db w1)) else committed (dview (w_db w)))"
    by (rule serve_run[OF run, of w dr req "ResetPassword i"]) (rule that)
  note g = begun_good[OF inv s(1)]
  obtain r d1 d2 where f: "reset_password S dr ?c (w\<lparr>w_db := d0\<rparr>) = (Inr (), w\<lparr>w_redis := r, w_db := d2\<rparr>)"
      "abs_store (view r) = a_revoke_all (str_uuid (user_id u)) (abs_store (view (w_redis w)))"
      "recorded d1 (audit_event dr PASSWORD_RESET_COMPLETED (Some (user_id u)) None (hr_client req) []) d2"
    by (rule reset_run[OF g(1), of ?c p h k t dr u]) (use p h t u that in \<open>auto simp: g(2)\<close>)
  have "\<not> event_storable text_ok inet_ok (db_abs (working (dview d1)))
      (audit_event dr PASSWORD_RESET_COMPLETED (Some (user_id u)) None (hr_client req) [])"
    using ip by (simp add: event_storable_def audit_event_def)
  then have "\<not> active (dview d2)" using f(3) by (simp add: logged_def dead_def)
  moreover have "out = Inr (VResult (succeeded ''Password reset successfully''))" "w1 = w\<lparr>w_redis := r, w_db := d2\<rparr>"
    using s(2) f(1) by (simp_all add: as_value_def reset_password_mutation_eq catch_def bnd_def ret_def)
  ultimately show ?thesis using s(3,4) f(2) by (intro exI[of _ "w1\<lparr>w_db := d\<rparr>"]) simp
qed

end

text \<open>
  Claim C28. A login with a well-formed address that fails, because no account has the
  address, the account is inactive or the password is wrong, answers the same error; no
  session is created; and although the resolver raised, its LOGIN_FAILED event, with the
  reason and the account, is committed, and nothing else is.
\<close>

theorem failed_login_is_audited:
  assumes "auth_service S view elapse dview text_ok inet_ok" and "graphql_executor run" and "at_rest S view dview w"
    and "Email_new (sv_unicode S) (li_email i) = Inr e"
    and "\<forall>k u. accounts (visible dview w) k = Some u \<longrightarrow> user_email u = e \<longrightarrow> is_active u \<longrightarrow>
      verify (sv_crypto S) (li_password i) (hashed_value (hashed_password u)) = Inr False"
    and "dr_event_id dr \<notin> em_id ` set (events (visible dview w))" and "pred_option inet_ok (hr_client req)"
  shows "\<exists>w' uid reason. serve S run dr req (Login i) w =
      (Inr (Errors (StrawberryGraphQLError (lit ''Invalid email or password''))), w') \<and>
    w_redis w' = w_redis w \<and> failure_reason e (visible dview w) uid reason \<and>
    visible dview w' = (visible dview w)\<lparr>events := events (visible dview w) @
      [event_to_model (audit_event dr LOGIN_FAILED uid None (hr_client req) [(lit ''reason'', lit reason)])]\<rparr>"
  by (rule auth_service.failed_login_served[OF assms])

lemma demo_at_rest: "at_rest ref_service ref_view id_view empty_world"
  using empty_world_good by (simp add: at_rest_def good_state_def empty_world_def dbs_ok_def)

theorem failed_login_is_audited_witness:
  "\<exists>w'. serve ref_service plain_executor demo_draws anonymous_request
       (Login \<lparr>li_email = lit ''bob@x.org'', li_password = lit ''secret-42'', li_device_info = None\<rparr>) empty_world =
     (Inr (Errors (StrawberryGraphQLError (lit ''Invalid email or password''))), w') \<and>
     map em_event_type (auth_events (committed (w_db w'))) = [lit ''login_failed'']"
proof -
  have v: "visible id_view empty_world = \<lparr>accounts = Map.empty, resets = Map.empty, events = []\<rparr>"
    by (simp add: empty_world_def no_tables_def db_abs_def)
  have "\<exists>w' uid reason. serve ref_service plain_executor demo_draws anonymous_request
       (Login \<lparr>li_email = lit ''bob@x.org'', li_password = lit ''secret-42'', li_device_info = None\<rparr>) empty_world =
     (Inr (Errors (StrawberryGraphQLError (lit ''Invalid email or password''))), w') \<and>
     events (visible id_view w') = [event_to_model (audit_event demo_draws LOGIN_FAILED uid None None [(lit ''reason'', lit reason)])]"
    using failed_login_is_audited[OF refsvc.auth_service_axioms plain_executor_ok demo_at_rest,
        of "\<lparr>li_email = lit ''bob@x.org'', li_password = lit ''secret-42'', li_device_info = None\<rparr>"
          "\<lparr>email_value = lit ''bob@x.org''\<rparr>" demo_draws anonymous_request]
    by (fastforce simp: v demo_emails anonymous_request_def)
  then show ?thesis by (auto simp: db_abs_def event_to_model_def audit_event_def)
qed

text \<open>
  Claim C29. When the audit event of a password reset cannot be stored, for one because the
  client's address is not an address to PostgreSQL, the reset is reported as done and the
  user's sessions are ended, but nothing is committed: the old password stays in force and
  the token stays unused.
\<close>

theorem unstorable_audit_loses_reset:
  assumes "auth_service S view elapse dview text_ok inet_ok" and "graphql_executor run" and "at_rest S view dview w"
    and "PlainPassword_new (sv_unicode S) (pi_new_password i) = Inr p" and "no_nul (pi_new_password i)"
    and "token_digest (pi_token i) = Inr h" and "resets (visible dview w) k = Some t" and "reset_value (prt_token t) = h"
    and "dr_now dr < expires_at t" and "\<not> used t" and "accounts (visible dview w) (prt_user_id t) = Some u"
    and "hr_client req = Some a" and "\<not> inet_ok a"
  shows "\<exists>w'. serve S run dr req (ResetPassword i) w =
      (Inr (Data (VResult (succeeded ''Password reset successfully''))), w') \<and>
    committed (dview (w_db w')) = committed (dview (w_db w)) \<and>
    abs_store (view (w_redis w')) = a_revoke_all (str_uuid (user_id u)) (abs_store (view (w_redis w)))"
  by (rule auth_service.lost_reset_served[OF assms])

definition reset_tables :: tables where
  "reset_tables =
     \<lparr>users = [\<lparr>um_id = 1, um_email = lit ''bob@x.org'', um_hashed_password = lit ''old'', um_is_active = True, um_created_at = 0\<rparr>],
      reset_tokens = [\<lparr>tm_id = 11, tm_user_id = 1, tm_token = sha256_hex (lit ''raw''), tm_expires_at = 1, tm_used = False\<rparr>],
      auth_events = []\<rparr>"

definition reset_world :: "(ref_state, db_view) world" where
  "reset_world = empty_world\<lparr>w_db := \<lparr>committed = reset_tables, working = reset_tables, active = False\<rparr>\<rparr>"

lemma bad_client: "\<not> ref_inet_ok (lit ''testclient'')"
  by (simp add: ref_inet_ok_def lit_def)

theorem unstorable_audit_loses_reset_witness:
  "\<exists>w'. serve ref_service plain_executor demo_draws (anonymous_request\<lparr>hr_client := Some (lit ''testclient'')\<rparr>)
       (ResetPassword \<lparr>pi_token = lit ''raw'', pi_new_password = lit ''secret-43''\<rparr>) reset_world =
     (Inr (Data (VResult (succeeded ''Password reset successfully''))), w') \<and> committed (w_db w') = reset_tables"
proof -
  have r: "at_rest ref_service ref_view id_view reset_world"
    using demo_at_rest demo_emails
    by (simp add: at_rest_def reset_world_def reset_tables_def tables_ok_def stored_email_def)
  have v: "resets (visible id_view reset_world) 11 =
      Some \<lparr>prt_id = 11, prt_user_id = 1, prt_token = \<lparr>reset_value = sha256_hex (lit ''raw'')\<rparr>, expires_at = 1, used = False\<rparr>"
    "accounts (visible id_view reset_world) 1 \<noteq> None"
    by (simp_all add: reset_world_def reset_tables_def db_abs_def token_to_domain_def)
  then obtain u where u: "accounts (visible id_view reset_world) 1 = Some u" by blast
  show ?thesis
    using unstorable_audit_loses_reset[OF refsvc.auth_service_axioms plain_executor_ok r,
        of "\<lparr>pi_token = lit ''raw'', pi_new_password = lit ''secret-43''\<rparr>" "\<lparr>plain_value = lit ''secret-43''\<rparr>"
          "sha256_hex (lit ''raw'')" 11 _ demo_draws u "anonymous_request\<lparr>hr_client := Some (lit ''testclient'')\<rparr>" "lit ''testclient''"]
      v u
    by (auto simp: demo_passwords demo_digest reset_world_def bad_client)
qed

end
