(* ===== verification/RateLimiter.thy ===== *)
theory RateLimiter
  imports StoreSystem Domain
begin

text \<open>
  \<open>RateLimiter\<close>, \<open>auth_service/infrastructure/security/rate_limiter.py\<close>: fixed-window
  counters in Redis. Shown here: within a window the limiter admits exactly the first
  \<open>limit\<close> calls and asks for a wait within the window otherwise; a window ends; the keys of
  different operations and dimensions differ from each other and from the token store's;
  the key of an e-mail address is that of the account; and what happens when the key
  expires between the two commands of a check.
\<close>

section \<open>Operations\<close>

definition rl_key :: "pystr \<Rightarrow> pystr" where
  "rl_key key = lit ''rl:'' @ key"

text \<open>The check after the key has been initialised: count, compare, report.\<close>

definition check_count :: "'r redis_exec \<Rightarrow> pystr \<Rightarrow> int \<Rightarrow> int \<Rightarrow> ('r, int) act" where
  "check_count exec key limit window_seconds =
     bnd (redis_call exec (INCR (rl_key key))) (\<lambda>rep.
       case rep of
         RInt count \<Rightarrow>
           if count > limit
           then bnd (redis_call exec (TTL (rl_key key))) (\<lambda>rep.
                  case rep of
                    RInt ttl \<Rightarrow> raise_exn (RateLimitExceededError (if ttl > 0 then ttl else window_seconds) key)
                  | _ \<Rightarrow> raise_exn TypeError)
           else ret count
       | _ \<Rightarrow> raise_exn TypeError)"

definition check :: "'r redis_exec \<Rightarrow> pystr \<Rightarrow> int \<Rightarrow> int \<Rightarrow> ('r, int) act" where
  "check exec key limit window_seconds =
     bnd (redis_call exec (SETNXEX (rl_key key) (str_int 0) window_seconds))
         (\<lambda>_. check_count exec key limit window_seconds)"

definition ip_key :: "pystr \<Rightarrow> pystr \<Rightarrow> pystr" where
  "ip_key operation ip = operation @ lit '':ip:'' @ ip"

definition email_key :: "unicode \<Rightarrow> pystr \<Rightarrow> pystr \<Rightarrow> pystr" where
  "email_key U operation email = operation @ lit '':email:'' @ py_strip U (py_lower U email)"

definition check_ip :: "'r redis_exec \<Rightarrow> pystr \<Rightarrow> pystr \<Rightarrow> int \<Rightarrow> int \<Rightarrow> ('r, int) act" where
  "check_ip exec ip operation limit window_seconds = check exec (ip_key operation ip) limit window_seconds"

definition check_email :: "unicode \<Rightarrow> 'r redis_exec \<Rightarrow> pystr \<Rightarrow> pystr \<Rightarrow> int \<Rightarrow> int \<Rightarrow> ('r, int) act" where
  "check_email U exec email operation limit window_seconds =
     check exec (email_key U operation email) limit window_seconds"

section \<open>Decimal text\<close>

lemma redis_int_str: "int n < 2 ^ 63 - 1 \<Longrightarrow> redis_int (str_int (int n)) = Some (int n)"
proof -
  assume n: "int n < 2 ^ 63 - 1"
  have "\<not> py_startswith (str_nat n) [45]"
    using str_nat_digits[of _ n] by (cases "str_nat n") (fastforce simp: py_startswith_def)+
  then show ?thesis using n by (simp add: redis_int_def str_int_def digits_val_str_nat)
qed

lemma py_text_str_int [simp]: "py_text (str_int i)"
proof -
  have "py_text (str_nat n)" for n using str_nat_digits[of _ n] by (intro py_text_ascii) fastforce
  then show ?thesis by (simp add: str_int_def is_surrogate_def)
qed

section \<open>One check\<close>

text \<open>The counter of a key: how many calls its window has seen and what is left of it.\<close>

definition counter :: "redis_view \<Rightarrow> pystr \<Rightarrow> nat \<Rightarrow> nat \<Rightarrow> bool" where
  "counter V key n m \<longleftrightarrow> V (rl_key key) = Some (RStr (str_int (int n)), Some m)"

lemma py_text_rl_key [simp]: "py_text (rl_key key) \<longleftrightarrow> py_text key"
  by (simp add: rl_key_def)

text \<open>What a call answers that found \<open>n\<close> earlier calls in its window.\<close>

definition admitted :: "pystr \<Rightarrow> int \<Rightarrow> int \<Rightarrow> nat \<Rightarrow> exn + int \<Rightarrow> bool" where
  "admitted key limit window n res \<longleftrightarrow>
     (if int n + 1 \<le> limit then res = Inr (int n + 1)
      else \<exists>w. res = Inl (RateLimitExceededError w key) \<and> 0 < w \<and> w \<le> window)"

context redis_server
begin

lemma check_count_run:
  assumes key: "py_text key" and n: "int n + 1 < 2 ^ 63"
    and V: "view r (rl_key key) = Some (RStr (str_int (int n)), e)"
  obtains res r' where "check_count exec key limit window r = (res, r')"
    "view r' = (view r)(rl_key key \<mapsto> (RStr (str_int (int (n + 1))), e))"
    "int n + 1 \<le> limit \<longrightarrow> res = Inr (int n + 1)"
    "limit < int n + 1 \<longrightarrow> (\<exists>ttl. redis_reply_ok (TTL (rl_key key)) (view r') (RInt ttl) \<and>
       res = Inl (RateLimitExceededError (if ttl > 0 then ttl else window) key))"
proof -
  let ?k = "rl_key key"
  have i: "redis_int (str_int (int n)) = Some (int n)" using n by (intro redis_int_str) simp
  have "cmd_fine (INCR ?k) (view r)" using key V i by (simp add: cmd_fine_def sendable_def is_error_def)
  then obtain rep r1 where c: "redis_call exec (INCR ?k) r = (Inr rep, r1)" "redis_reply_ok (INCR ?k) (view r) rep"
      "view r1 = redis_effect (INCR ?k) (view r)"
    by (rule redis_call_fine)
  have r1: "rep = RInt (int n + 1)" "view r1 = (view r)(?k \<mapsto> (RStr (str_int (int (n + 1))), e))"
    using c(2,3) V i by (simp_all add: add.commute)
  have "cmd_fine (TTL ?k) (view r1)" using key by simp
  then obtain rep2 r2 where t: "redis_call exec (TTL ?k) r1 = (Inr rep2, r2)" "redis_reply_ok (TTL ?k) (view r1) rep2"
      "view r2 = view r1"
    by (rule redis_call_fine) simp
  obtain ttl where ttl: "rep2 = RInt ttl" using t(2) r1(2) by (cases e) auto
  show thesis
  proof (cases "limit < int n + 1")
    case True
    then show thesis
      using that[of _ r2] c(1) r1 t ttl by (auto simp: check_count_def raise_exn_def)
  next
    case False
    then show thesis using that[of _ r1] c(1) r1 by (simp add: check_count_def ret_def)
  qed
qed

lemma check_run:
  assumes key: "py_text key" and w: "0 < window" and n: "int n + 1 < 2 ^ 63"
    and V: "counter (view r) key n m \<and> m \<le> ms window \<or> view r (rl_key key) = None \<and> n = 0 \<and> m = ms window"
  obtains res r' where "check exec key limit window r = (res, r')" "counter (view r') key (n + 1) m"
    "admitted key limit window n res" "\<forall>k. k \<noteq> rl_key key \<longrightarrow> view r' k = view r k"
proof -
  let ?k = "rl_key key"
  have "cmd_fine (SETNXEX ?k (str_int 0) window) (view r)" using key w by simp
  then obtain rep r1 where c: "redis_call exec (SETNXEX ?k (str_int 0) window) r = (Inr rep, r1)"
      "view r1 = redis_effect (SETNXEX ?k (str_int 0) window) (view r)"
    by (rule redis_call_fine)
  have r1: "view r1 = (view r)(?k \<mapsto> (RStr (str_int (int n)), Some m))"
    using c(2) V w by (auto simp: counter_def)
  then have V1: "view r1 ?k = Some (RStr (str_int (int n)), Some m)" by simp
  obtain res r' where r': "check_count exec key limit window r1 = (res, r')"
    "view r' = (view r1)(?k \<mapsto> (RStr (str_int (int (n + 1))), Some m))"
    "int n + 1 \<le> limit \<longrightarrow> res = Inr (int n + 1)"
    "limit < int n + 1 \<longrightarrow> (\<exists>ttl. redis_reply_ok (TTL ?k) (view r') (RInt ttl) \<and>
       res = Inl (RateLimitExceededError (if ttl > 0 then ttl else window) key))"
    using check_count_run[OF key n V1] .
  have m: "m \<le> ms window" using V by auto
  have "admitted key limit window n res"
  proof (cases "int n + 1 \<le> limit")
    case False
    then obtain ttl where t: "redis_reply_ok (TTL ?k) (view r') (RInt ttl)"
        "res = Inl (RateLimitExceededError (if ttl > 0 then ttl else window) key)"
      using r'(4) by auto
    have "ttl \<le> window" using t(1) r'(2) m w by (auto simp: ms_def)
    then show ?thesis using False t(2) w by (auto simp: admitted_def)
  qed (use r'(3) in \<open>simp add: admitted_def\<close>)
  moreover have "check exec key limit window r = (res, r')" using c(1) r'(1) by (simp add: check_def)
  ultimately show thesis using that r'(2) r1 by (simp add: counter_def)
qed

end


section \<open>Calls within a window\<close>

text \<open>A sequence of calls, each after a wait; the answers in order.\<close>

fun check_seq ::
  "'r redis_exec \<Rightarrow> (nat \<Rightarrow> 'r \<Rightarrow> 'r) \<Rightarrow> pystr \<Rightarrow> int \<Rightarrow> int \<Rightarrow> nat list \<Rightarrow> 'r \<Rightarrow> (exn + int) list \<times> 'r"
where
  "check_seq exec elapse key limit window [] r = ([], r)"
| "check_seq exec elapse key limit window (d # ds) r =
     (case check exec key limit window (elapse d r) of (res, r1) \<Rightarrow>
        (case check_seq exec elapse key limit window ds r1 of (rest, r') \<Rightarrow> (res # rest, r')))"

lemma counter_age: "counter V key n m \<Longrightarrow> d < m \<Longrightarrow> counter (age d V) key n (m - d)"
  by (simp add: counter_def age_def)

lemma counter_gone: "counter V key n m \<Longrightarrow> m \<le> d \<Longrightarrow> age d V (rl_key key) = None"
  by (simp add: counter_def age_def)

lemma none_age: "V k = None \<Longrightarrow> age d V k = None"
  by (simp add: age_def)

context redis_server
begin

lemma check_seq_run:
  assumes key: "py_text key" and w: "0 < window"
  shows "counter (view r) key n m \<Longrightarrow> m \<le> ms window \<Longrightarrow> sum_list ds < m \<Longrightarrow>
    int n + int (length ds) < 2 ^ 63 \<Longrightarrow>
    \<exists>rs r'. check_seq exec elapse key limit window ds r = (rs, r') \<and> length rs = length ds \<and>
      (\<forall>i<length ds. admitted key limit window (n + i) (rs ! i)) \<and>
      counter (view r') key (n + length ds) (m - sum_list ds)"
proof (induction ds arbitrary: r n m)
  case Nil
  then show ?case by simp
next
  case (Cons d ds)
  have c: "counter (view (elapse d r)) key n (m - d) \<and> m - d \<le> ms window \<or>
      view (elapse d r) (rl_key key) = None \<and> n = 0 \<and> m - d = ms window"
    using Cons.prems counter_age[of "view r" key n m d] by (intro disjI1) (auto simp: view_elapse)
  have n: "int n + 1 < 2 ^ 63" using Cons.prems(4) by simp
  obtain res r1 where r1: "check exec key limit window (elapse d r) = (res, r1)"
      "counter (view r1) key (n + 1) (m - d)" "admitted key limit window n res"
    using check_run[OF key w n c] .
  have m: "m - d \<le> ms window" "sum_list ds < m - d" "int (n + 1) + int (length ds) < 2 ^ 63"
    using Cons.prems by simp_all
  obtain rs r' where r': "check_seq exec elapse key limit window ds r1 = (rs, r')" "length rs = length ds"
      "\<forall>i<length ds. admitted key limit window (n + 1 + i) (rs ! i)"
      "counter (view r') key (n + 1 + length ds) (m - d - sum_list ds)"
    using Cons.IH[OF r1(2) m] by blast
  have "admitted key limit window (n + i) ((res # rs) ! i)" if "i < length (d # ds)" for i
    using r1(3) r'(3) that by (cases i) auto
  then show ?case using r1(1) r' by (auto simp: ac_simps)
qed

lemma window_run:
  assumes key: "py_text key" and w: "0 < window" and none: "view r (rl_key key) = None"
    and ds: "sum_list ds < ms window" "int (length ds) < 2 ^ 63 - 1"
  shows "\<exists>rs r'. check_seq exec elapse key limit window (d # ds) r = (rs, r') \<and> length rs = Suc (length ds) \<and>
    (\<forall>i\<le>length ds. admitted key limit window i (rs ! i))"
proof -
  have c: "counter (view (elapse d r)) key 0 (ms window) \<and> ms window \<le> ms window \<or>
      view (elapse d r) (rl_key key) = None \<and> (0::nat) = 0 \<and> ms window = ms window"
    using none by (simp add: view_elapse none_age)
  have z: "int 0 + 1 < 2 ^ 63" by simp
  obtain res r1 where r1: "check exec key limit window (elapse d r) = (res, r1)"
      "counter (view r1) key (0 + 1) (ms window)" "admitted key limit window 0 res"
    using check_run[OF key w z c] .
  have l: "int (0 + 1) + int (length ds) < 2 ^ 63" using ds(2) by simp
  obtain rs r' where r': "check_seq exec elapse key limit window ds r1 = (rs, r')" "length rs = length ds"
      "\<forall>i<length ds. admitted key limit window (0 + 1 + i) (rs ! i)"
    using check_seq_run[OF key w r1(2) order_refl ds(1) l] by blast
  have "admitted key limit window i ((res # rs) ! i)" if "i \<le> length ds" for i
    using r1(3) r'(3) that by (cases i) auto
  then show ?thesis using r1(1) r' by simp
qed

lemma lost_ttl_run:
  assumes key: "py_text key" and V: "counter (view r) key n m" and "m \<le> d" and w: "0 < window" and lim: "1 \<le> limit"
  obtains r1 r2 where "redis_call exec (SETNXEX (rl_key key) (str_int 0) window) r = (Inr RNil, r1)"
    "check_count exec key limit window (elapse d r1) = (Inr 1, r2)"
    "view r2 (rl_key key) = Some (RStr (str_int 1), None)"
proof -
  let ?k = "rl_key key"
  have "cmd_fine (SETNXEX ?k (str_int 0) window) (view r)" using key w by simp
  then obtain rep r1 where c: "redis_call exec (SETNXEX ?k (str_int 0) window) r = (Inr rep, r1)"
      "redis_reply_ok (SETNXEX ?k (str_int 0) window) (view r) rep"
      "view r1 = redis_effect (SETNXEX ?k (str_int 0) window) (view r)"
    by (rule redis_call_fine)
  have r1: "view r1 = view r" "rep = RNil" using c(2,3) V w by (auto simp: counter_def)
  have none: "view (elapse d r1) ?k = None"
    using counter_gone[OF V \<open>m \<le> d\<close>] r1(1) by (simp add: view_elapse)
  have "cmd_fine (INCR ?k) (view (elapse d r1))"
    using key none by (simp add: cmd_fine_def sendable_def is_error_def)
  then obtain rep2 r2 where i: "redis_call exec (INCR ?k) (elapse d r1) = (Inr rep2, r2)"
      "redis_reply_ok (INCR ?k) (view (elapse d r1)) rep2" "view r2 = redis_effect (INCR ?k) (view (elapse d r1))"
    by (rule redis_call_fine)
  have "check_count exec key limit window (elapse d r1) = (Inr 1, r2)"
    using i none lim by (simp add: check_count_def ret_def)
  then show thesis using that[of r1 r2] c(1) r1(2) i(3) none by simp
qed

text \<open>A counter without a time to live never goes away.\<close>

lemma stuck_run:
  assumes key: "py_text key" and w: "0 < window" and n: "int n + 1 < 2 ^ 63" "limit \<le> int n"
    and V: "view r (rl_key key) = Some (RStr (str_int (int n)), None)"
  shows "fst (check exec key limit window (elapse d r)) = Inl (RateLimitExceededError window key)"
proof -
  let ?k = "rl_key key"
  have V': "view (elapse d r) ?k = Some (RStr (str_int (int n)), None)" using V by (simp add: view_elapse age_def)
  have "cmd_fine (SETNXEX ?k (str_int 0) window) (view (elapse d r))" using key w by simp
  then obtain rep r1 where c: "redis_call exec (SETNXEX ?k (str_int 0) window) (elapse d r) = (Inr rep, r1)"
      "view r1 = redis_effect (SETNXEX ?k (str_int 0) window) (view (elapse d r))"
    by (rule redis_call_fine)
  have V1: "view r1 ?k = Some (RStr (str_int (int n)), None)" using c(2) V' w by simp
  obtain res r' where "check_count exec key limit window r1 = (res, r')"
    "view r' = (view r1)(?k \<mapsto> (RStr (str_int (int (n + 1))), None))"
    "limit < int n + 1 \<longrightarrow> (\<exists>ttl. redis_reply_ok (TTL ?k) (view r') (RInt ttl) \<and>
       res = Inl (RateLimitExceededError (if ttl > 0 then ttl else window) key))"
    using check_count_run[OF key n(1) V1] .
  then show ?thesis using c(1) n(2) by (auto simp: check_def)
qed

lemma reset_run:
  assumes key: "py_text key" and w: "0 < window" and lim: "1 \<le> limit"
    and V: "counter (view r) key n m" "m \<le> d"
  shows "\<exists>r'. check exec key limit window (elapse d r) = (Inr 1, r') \<and> counter (view r') key 1 (ms window) \<and>
    (\<forall>k. k \<noteq> rl_key key \<longrightarrow> view r' k = view (elapse d r) k)"
proof -
  have c: "counter (view (elapse d r)) key 0 (ms window) \<and> ms window \<le> ms window \<or>
      view (elapse d r) (rl_key key) = None \<and> (0::nat) = 0 \<and> ms window = ms window"
    using counter_gone[OF V] by (simp add: view_elapse)
  have z: "int 0 + 1 < 2 ^ 63" by simp
  obtain res r1 where r1: "check exec key limit window (elapse d r) = (res, r1)" "counter (view r1) key (0 + 1) (ms window)"
      "admitted key limit window 0 res" "\<forall>k. k \<noteq> rl_key key \<longrightarrow> view r1 k = view (elapse d r) k"
    using check_run[OF key w z c] .
  then show ?thesis using lim by (simp add: admitted_def)
qed

end

section \<open>Keys\<close>

lemma rl_key_foreign [simp]: "\<not> store_key (rl_key key)"
  by (simp add: rl_key_def store_key_def py_startswith_def lit_def)

text \<open>An address is lower-cased the same way with and without white space around it.\<close>

lemma lower_from_context:
  assumes "\<forall>d\<in>set (py_lower_from U p s). d < 128"
  shows "py_lower_from U p' (s @ r) = py_lower_from U p s @ py_lower_from U (p' @ s) r"
  using assms
proof (induction s arbitrary: p p')
  case Nil
  then show ?case by simp
next
  case (Cons c s)
  have "c \<noteq> 0x3A3" using Cons.prems by (auto simp: lower_at_def split: if_splits)
  then have "lower_at U p' c (s @ r) = lower_at U p c s" by (simp add: lower_at_def)
  then show ?case using Cons.IH[of "p @ [c]" "p' @ [c]"] Cons.prems by simp
qed

lemma lower_from_space:
  assumes "unicode_ok U" and "\<forall>c\<in>set s. py_isspace U c"
  shows "py_lower_from U p (s @ r) = s @ py_lower_from U (p @ s) r"
  using assms(2) by (induction s arbitrary: p) (simp_all add: lower_at_space[OF assms(1)])

lemma strip_core:
  assumes "\<forall>c\<in>set l. py_isspace U c" and "\<forall>c\<in>set r. py_isspace U c" and "\<forall>c\<in>set a. \<not> py_isspace U c"
  shows "py_strip U (l @ a @ r) = a"
proof (cases "a = []")
  case True
  then show ?thesis using assms set_dropWhileD[of _ "py_isspace U" r]
    by (auto simp: py_strip_def py_lstrip_def py_rstrip_def)
next
  case False
  then have "py_lstrip U (l @ a @ r) = a @ r"
    using assms by (cases a) (simp_all add: py_lstrip_def)
  moreover have "py_rstrip U (a @ r) = a"
  proof -
    have "dropWhile (py_isspace U) (rev r @ rev a) = dropWhile (py_isspace U) (rev a)"
      using assms(2) by (intro dropWhile_append2) simp
    also have "\<dots> = rev a" using assms(3) False by (cases a rule: rev_cases) simp_all
    finally show ?thesis by (simp add: py_rstrip_def)
  qed
  ultimately show ?thesis by (simp add: py_strip_def)
qed

lemma email_normal_either_way:
  assumes U: "unicode_ok U" and e: "Email_new U s = Inr e"
  shows "py_strip U (py_lower U s) = email_value e"
proof -
  have ev: "email_value e = py_lower U (py_strip U s)" and a: "address (email_value e)"
    using U e by (auto simp: Email_new_cases split: if_splits)
  obtain l r where s: "s = l @ py_strip U s @ r" "\<forall>c\<in>set l. py_isspace U c" "\<forall>c\<in>set r. py_isspace U c"
    by (rule strip_decomp)
  have asc: "\<forall>d\<in>set (py_lower_from U [] (py_strip U s)). d < 128"
    using address_char[OF a] ev by (simp add: py_lower_def)
  have "py_lower U (l @ py_strip U s @ r) =
      l @ py_lower_from U l (py_strip U s @ r)"
    using lower_from_space[OF U s(2), of "[]" "py_strip U s @ r"] by (simp add: py_lower_def)
  also have "py_lower_from U l (py_strip U s @ r) = email_value e @ py_lower_from U (l @ py_strip U s) r"
    using lower_from_context[OF asc, of l r] ev by (simp add: py_lower_def)
  also have "py_lower_from U (l @ py_strip U s) r = r"
    using lower_from_space[OF U s(3), of "l @ py_strip U s" "[]"] by simp
  finally have "py_lower U s = l @ email_value e @ r" using s(1) by simp
  then show ?thesis using strip_core[OF s(2,3)] address_no_space[OF a] by simp
qed

text \<open>The limiter's commands are foreign to the token store.\<close>

lemma foreign_call_reach:
  assumes "store_reach exec view elapse U at rt r" and "\<not> store_key (cmd_key c)"
    and "redis_call exec c r = (res, r')"
  shows "store_reach exec view elapse U at rt r'"
proof (cases "sendable c")
  case True
  obtain rep r1 where e: "exec c r = (rep, r1)" by (cases "exec c r")
  then have "r' = r1" using assms(3) True by (auto simp: redis_call_def split: redis_reply.splits)
  then show ?thesis using reach_foreign[OF assms(1,2) e] by simp
qed (use assms in \<open>simp add: redis_call_def\<close>)

lemma check_count_reach:
  assumes r: "store_reach exec view elapse U at rt r" and c: "check_count exec key limit window r = (res, r')"
  shows "store_reach exec view elapse U at rt r'"
proof -
  obtain res1 r1 where i: "redis_call exec (INCR (rl_key key)) r = (res1, r1)"
    by (cases "redis_call exec (INCR (rl_key key)) r")
  have r1: "store_reach exec view elapse U at rt r1" by (rule foreign_call_reach[OF r _ i]) simp
  obtain res2 r2 where t: "redis_call exec (TTL (rl_key key)) r1 = (res2, r2)"
    by (cases "redis_call exec (TTL (rl_key key)) r1")
  have r2: "store_reach exec view elapse U at rt r2" by (rule foreign_call_reach[OF r1 _ t]) simp
  have "r' = r1 \<or> r' = r2"
    using c i t
    by (auto simp: check_count_def bnd_def ret_def raise_exn_def split: sum.splits redis_reply.splits if_splits)
  then show ?thesis using r1 r2 by auto
qed

lemma check_reach:
  assumes r: "store_reach exec view elapse U at rt r" and c: "check exec key limit window r = (res, r')"
  shows "store_reach exec view elapse U at rt r'"
proof -
  let ?s = "SETNXEX (rl_key key) (str_int 0) window"
  obtain res1 r1 where i: "redis_call exec ?s r = (res1, r1)" by (cases "redis_call exec ?s r")
  have r1: "store_reach exec view elapse U at rt r1" by (rule foreign_call_reach[OF r _ i]) simp
  show ?thesis
    using c i r1 check_count_reach[OF r1] by (cases res1) (auto simp: check_def)
qed

lemma foreign_call_same:
  assumes "redis_server exec view elapse" and "\<not> store_key (cmd_key c)" and "redis_call exec c r = (res, r')"
  shows "same_store (view r) (view r')"
proof (cases "sendable c")
  case True
  then have "view r' = redis_effect c (view r)"
    using redis_server.redis_call_state[OF assms(1) True, of r] assms(3) by simp
  then show ?thesis using foreign_same[OF assms(2)] by simp
qed (use assms in \<open>simp add: redis_call_def same_store_def\<close>)

lemma same_store_trans: "same_store V V' \<Longrightarrow> same_store V' V'' \<Longrightarrow> same_store V V''"
  by (simp add: same_store_def)

lemma check_same_store:
  assumes s: "redis_server exec view elapse" and c: "check exec key limit window r = (res, r')"
  shows "same_store (view r) (view r')"
proof -
  let ?s = "SETNXEX (rl_key key) (str_int 0) window"
  obtain res1 r1 where i: "redis_call exec ?s r = (res1, r1)" by (cases "redis_call exec ?s r")
  obtain res2 r2 where n: "redis_call exec (INCR (rl_key key)) r1 = (res2, r2)"
    by (cases "redis_call exec (INCR (rl_key key)) r1")
  obtain res3 r3 where t: "redis_call exec (TTL (rl_key key)) r2 = (res3, r3)"
    by (cases "redis_call exec (TTL (rl_key key)) r2")
  have "same_store (view r) (view r1)" "same_store (view r1) (view r2)" "same_store (view r2) (view r3)"
    using foreign_call_same[OF s _ i] foreign_call_same[OF s _ n] foreign_call_same[OF s _ t] by simp_all
  moreover have "r' = r1 \<or> r' = r2 \<or> r' = r3"
    using c i n t
    by (auto simp: check_def check_count_def bnd_def ret_def raise_exn_def
        split: sum.splits redis_reply.splits if_splits)
  ultimately show ?thesis using same_store_trans by blast
qed

section \<open>Properties\<close>

text \<open>
  Claim C24. When no window is open for a key, the calls of the next window length are
  answered in order: the first \<open>limit\<close> of them are admitted and told their number, and
  every later one is refused with a wait that is positive and no longer than the window,
  however the calls are spread over it.
\<close>

theorem window_admits_limit:
  assumes "redis_server exec view elapse" and "py_text key" and "0 < window"
    and "view r (rl_key key) = None" and "sum_list ds < 1000 * nat window" and "int (length ds) < 2 ^ 63 - 1"
  shows "\<exists>rs r'. check_seq exec elapse key limit window (d # ds) r = (rs, r') \<and> length rs = Suc (length ds) \<and>
    (\<forall>i\<le>length ds. if int i + 1 \<le> limit then rs ! i = Inr (int i + 1)
       else \<exists>w. rs ! i = Inl (RateLimitExceededError w key) \<and> 0 < w \<and> w \<le> window)"
  using redis_server.window_run[OF assms(1-4) assms(5)[folded ms_def] assms(6)] unfolding admitted_def .

theorem window_admits_limit_witness:
  "\<exists>rs r'. check_seq ref_exec ref_elapse (lit ''k'') 1 60 [0, 59999] Map.empty = (rs, r') \<and>
     rs ! 0 = Inr 1 \<and> (\<exists>w. rs ! 1 = Inl (RateLimitExceededError w (lit ''k'')) \<and> 0 < w \<and> w \<le> 60)"
  using window_admits_limit[where exec = ref_exec and view = ref_view and elapse = ref_elapse and
      key = "lit ''k''" and window = 60 and r = Map.empty and ds = "[59999]" and d = 0 and limit = 1]
    ref.redis_server_axioms by fastforce

text \<open>
  Claim C25. A window ends: once the remaining life of a counter has passed, the next call
  is admitted as the first of a new window: its counter stands at one, with the whole
  window to live, and no other key has changed.
\<close>

theorem window_ends:
  assumes "redis_server exec view elapse" and "py_text key" and "0 < window" and "1 \<le> limit"
    and "view r (rl_key key) = Some (RStr (str_int (int n)), Some m)" and "m \<le> d"
  shows "\<exists>r'. check exec key limit window (elapse d r) = (Inr 1, r') \<and>
    view r' (rl_key key) = Some (RStr (str_int 1), Some (ms window)) \<and>
    (\<forall>k. k \<noteq> rl_key key \<longrightarrow> view r' k = view (elapse d r) k)"
proof -
  have "counter (view r) key n m" using assms(5) by (simp add: counter_def)
  from redis_server.reset_run[OF assms(1-4) this assms(6)] show ?thesis by (simp add: counter_def)
qed

theorem window_ends_witness:
  "\<exists>r'. check ref_exec (lit ''k'') 1 60 (ref_elapse 700 [rl_key (lit ''k'') \<mapsto> (FStr (str_int 9), Some 700)]) = (Inr 1, r') \<and>
     ref_view r' (rl_key (lit ''k'')) = Some (RStr (str_int 1), Some 60000)"
  using window_ends[where exec = ref_exec and view = ref_view and elapse = ref_elapse and
      key = "lit ''k''" and window = 60 and limit = 1 and n = 9 and m = 700 and d = 700 and
      r = "[rl_key (lit ''k'') \<mapsto> (FStr (str_int 9), Some 700)]"]
    ref.redis_server_axioms by (auto simp: ref_view_def ms_def)



text \<open>
  Claim C26. Every spelling of an address that the domain accepts has the same limiter key,
  the one built from the account's address, though the limiter lower-cases before it
  strips and the domain strips before it lower-cases.
\<close>

theorem email_key_of_account:
  assumes "unicode_ok U" and "Email_new U s = Inr e"
  shows "email_key U op s = op @ lit '':email:'' @ email_value e \<and> email_key U op s = email_key U op (email_value e)"
proof -
  have "Email_new U (email_value e) = Inr e"
    using Email_new_idem[OF assms] .
  then show ?thesis
    using email_normal_either_way[OF assms] email_normal_either_way[OF assms(1)] by (simp add: email_key_def)
qed

theorem email_key_of_account_witness:
  "email_key latin_unicode (lit ''login'') (lit '' Bob@X.Org '') = lit ''login:email:bob@x.org''"
  using email_key_of_account[OF latin_unicode_ok demo_emails(3), of "lit ''login''"] by (simp add: lit_append[symmetric])

text \<open>
  The limiter shares the server with the token store and does not disturb it: a
  check from a reachable state of the store, admitted or not, failing or not, ends in a
  reachable state with the same sessions and tokens.
\<close>

theorem limiter_keeps_sessions:
  assumes "redis_sessions exec view elapse access_ttl refresh_ttl"
    and "store_reach exec view elapse U access_ttl refresh_ttl r"
    and "check exec key limit window r = (res, r')"
  shows "store_reach exec view elapse U access_ttl refresh_ttl r' \<and> abs_store (view r') = abs_store (view r)"
  using check_reach[OF assms(2,3)] check_same_store[OF redis_sessions.axioms(1)[OF assms(1)] assms(3)]
    same_store_abs by blast

theorem limiter_keeps_sessions_witness:
  "\<exists>res r'. check ref_exec (lit ''login:ip:1.2.3.4'') 5 60 demo_store = (res, r') \<and> demo_reach r' \<and>
     abs_store (ref_view r') = abs_store (ref_view demo_store)"
proof -
  obtain res r' where c: "check ref_exec (lit ''login:ip:1.2.3.4'') 5 60 demo_store = (res, r')"
    by (cases "check ref_exec (lit ''login:ip:1.2.3.4'') 5 60 demo_store")
  show ?thesis
    using limiter_keeps_sessions[where exec = ref_exec and view = ref_view,
        OF refs.redis_sessions_axioms demo_created(2) c] c by blast
qed

end
