(* ===== verification/Idempotency.thy ===== *)
theory Idempotency
  imports JsonRoundtrip Requests RateLimiter
begin

text \<open>
  \<open>IdempotencyStore\<close>, \<open>auth_service/infrastructure/redis/idempotency_store.py\<close>, and the
  Strawberry extension \<open>IdempotencyExtension\<close> of
  \<open>auth_service/presentation/graphql/idempotency.py\<close>. The parsed document is the part of
  the syntax tree the extension reads; the execution of the operation, at the \<open>yield\<close> of the
  hook and only when the hook has set no result, is a parameter. Shown: a retry is answered
  from the store without executing anything, another request under the same key is a
  conflict, failures are not stored, and what the hash of a request leaves out.
\<close>

section \<open>IdempotencyStore\<close>

definition idem_key :: "pystr \<Rightarrow> pystr \<Rightarrow> pystr" where
  "idem_key operation idempotency_key = lit ''idempotency:'' @ operation @ lit '':'' @ idempotency_key"

text \<open>The value \<open>None\<close> is \<open>JNull\<close>, as it is in a decoded record.\<close>

definition idem_get :: "'f floats \<Rightarrow> 'r redis_exec \<Rightarrow> pystr \<Rightarrow> ('r, 'f json) act" where
  "idem_get F exec key =
     bnd (redis_call exec (GET key)) (\<lambda>rep.
       case rep of
         RNil \<Rightarrow> ret JNull
       | RBulk raw \<Rightarrow> lift_res (json_loads F raw)
       | _ \<Rightarrow> raise_exn TypeError)"

definition IDEM_TTL :: int where
  "IDEM_TTL = 86400"

lemma IDEM_TTL_pos: "0 < IDEM_TTL"
  by (simp add: IDEM_TTL_def)

definition idem_set :: "'f floats \<Rightarrow> 'r redis_exec \<Rightarrow> pystr \<Rightarrow> 'f json \<Rightarrow> int \<Rightarrow> ('r, unit) act" where
  "idem_set F exec key value ttl = bnd (redis_call exec (SETEX key ttl (json_dumps F value))) (\<lambda>_. ret ())"

section \<open>The document\<close>

datatype operation_type = QUERY | MUTATION | SUBSCRIPTION

text \<open>A field with its name and the text of its arguments; the extension reads only the name.\<close>

datatype selection_node = FieldNode pystr pystr | OtherSelection

datatype definition_node = OperationDefinitionNode operation_type "selection_node list" | OtherDefinition

fun first_field :: "selection_node list \<Rightarrow> pystr option" where
  "first_field [] = None"
| "first_field (FieldNode name args # sels) = Some name"
| "first_field (OtherSelection # sels) = first_field sels"

fun mutation_field :: "definition_node list \<Rightarrow> pystr option" where
  "mutation_field [] = None"
| "mutation_field (OperationDefinitionNode ty sels # defs) =
     (if ty \<noteq> MUTATION then mutation_field defs
      else (case first_field sels of Some name \<Rightarrow> Some name | None \<Rightarrow> mutation_field defs))"
| "mutation_field (OtherDefinition # defs) = mutation_field defs"

definition get_mutation_field_name :: "definition_node list option \<Rightarrow> pystr option" where
  "get_mutation_field_name doc = (case doc of None \<Rightarrow> None | Some defs \<Rightarrow> mutation_field defs)"

section \<open>The extension\<close>

definition IDEMPOTENT_OPERATIONS :: "pystr set" where
  "IDEMPOTENT_OPERATIONS = {lit ''login'', lit ''requestPasswordReset''}"

record graphql_error =
  ge_message :: pystr
  ge_code :: "pystr option"

record 'f execution_result =
  er_data :: "'f json"
  er_errors :: "graphql_error list"

definition conflict :: graphql_error where
  "conflict =
     \<lparr>ge_message = lit ''Idempotency key reused with different request'', ge_code = Some (lit ''IDEMPOTENCY_CONFLICT'')\<rparr>"

text \<open>\<open>d.get(k)\<close> and \<open>d[k]\<close> on a decoded value.\<close>

definition json_get :: "'f json \<Rightarrow> pystr \<Rightarrow> exn + 'f json" where
  "json_get v k =
     (case v of
        JObj kvs \<Rightarrow> Inr (case map_of kvs k of None \<Rightarrow> JNull | Some x \<Rightarrow> x)
      | _ \<Rightarrow> Inl AttributeError)"

definition json_index :: "'f json \<Rightarrow> pystr \<Rightarrow> exn + 'f json" where
  "json_index v k =
     (case v of
        JObj kvs \<Rightarrow> (case map_of kvs k of None \<Rightarrow> Inl KeyError | Some x \<Rightarrow> Inr x)
      | _ \<Rightarrow> Inl TypeError)"

text \<open>The store of the extension; it is the argument \<open>store\<close> of \<open>on_execute\<close>.\<close>

definition resolve_store :: "'s option \<Rightarrow> 's option \<Rightarrow> 's option" where
  "resolve_store injected scoped = (case injected of Some st \<Rightarrow> Some st | None \<Rightarrow> scoped)"

definition hash_input :: "'f floats \<Rightarrow> pystr \<Rightarrow> (pystr \<times> 'f json) list option \<Rightarrow> pystr" where
  "hash_input F operation_name variables =
     operation_name @ json_dumps_sorted F (JObj (case variables of None \<Rightarrow> [] | Some vs \<Rightarrow> vs))"

definition request_hash :: "'f floats \<Rightarrow> pystr \<Rightarrow> (pystr \<times> 'f json) list option \<Rightarrow> exn + pystr" where
  "request_hash F operation_name variables = token_digest (hash_input F operation_name variables)"

definition idem_record :: "pystr \<Rightarrow> 'f json \<Rightarrow> 'f json" where
  "idem_record h data = JObj [(lit ''request_hash'', JStr h), (lit ''response'', data)]"

text \<open>The answer from a stored record.\<close>

definition replay :: "pystr \<Rightarrow> 'f json \<Rightarrow> exn + 'f execution_result" where
  "replay h cached =
     (case json_get cached (lit ''request_hash'') of
        Inl e \<Rightarrow> Inl e
      | Inr stored \<Rightarrow>
          if stored = JStr h
          then (case json_index cached (lit ''response'') of
                  Inl e \<Rightarrow> Inl e
                | Inr data \<Rightarrow> Inr \<lparr>er_data = data, er_errors = []\<rparr>)
          else Inr \<lparr>er_data = JNull, er_errors = [conflict]\<rparr>)"

definition on_execute ::
  "'f floats \<Rightarrow> 'r redis_exec option \<Rightarrow> http_request option \<Rightarrow> definition_node list option \<Rightarrow> (pystr \<times> 'f json) list option \<Rightarrow>
   (('r, 'd) world, 'f execution_result) act \<Rightarrow> (('r, 'd) world, 'f execution_result) act" where
  "on_execute F store request doc variables execute =
     (case get_mutation_field_name doc of
        None \<Rightarrow> execute
      | Some operation_name \<Rightarrow>
          if operation_name \<notin> IDEMPOTENT_OPERATIONS then execute
          else
            (case request of
               None \<Rightarrow> execute
             | Some req \<Rightarrow>
                 if \<not> truthy (hr_idempotency_key req) then execute
                 else
                   (case store of
                      None \<Rightarrow> execute
                    | Some exec \<Rightarrow>
                        bnd (lift_res (request_hash F operation_name variables)) (\<lambda>h.
                        let redis_key = idem_key operation_name (the (hr_idempotency_key req)) in
                        bnd (on_redis (idem_get F exec redis_key)) (\<lambda>cached.
                          if cached \<noteq> JNull then lift_res (replay h cached)
                          else
                            bnd execute (\<lambda>result.
                              if er_errors result = [] \<and> er_data result \<noteq> JNull
                              then bnd (on_redis (idem_set F exec redis_key (idem_record h (er_data result)) IDEM_TTL))
                                     (\<lambda>_. ret result)
                              else ret result))))))"

section \<open>Runs\<close>

definition keyed :: "pystr \<Rightarrow> pystr \<Rightarrow> http_request \<Rightarrow> definition_node list option \<Rightarrow> bool" where
  "keyed op k req doc \<longleftrightarrow>
     get_mutation_field_name doc = Some op \<and> op \<in> IDEMPOTENT_OPERATIONS \<and> hr_idempotency_key req = Some k \<and> token_text k"

lemma idempotent_ascii: "op \<in> IDEMPOTENT_OPERATIONS \<Longrightarrow> ascii_text op"
  by (auto simp: IDEMPOTENT_OPERATIONS_def lit_def)

lemma idem_key_text [simp]: "op \<in> IDEMPOTENT_OPERATIONS \<Longrightarrow> py_text k \<Longrightarrow> py_text (idem_key op k)"
  by (auto simp: idem_key_def IDEMPOTENT_OPERATIONS_def)

lemma idem_key_foreign [simp]: "\<not> store_key (idem_key op k)"
  by (simp add: idem_key_def store_key_def py_startswith_def lit_def)

text \<open>The text that is hashed is ASCII, so hashing cannot fail.\<close>

lemma request_hash_total:
  assumes "floats_ok F" and "op \<in> IDEMPOTENT_OPERATIONS"
  shows "\<exists>t. request_hash F op vs = Inr (sha256_hex t)"
proof -
  let ?t = "op @ json_dumps_sorted F (JObj (case vs of None \<Rightarrow> [] | Some vs \<Rightarrow> vs))"
  have "ascii_text ?t"
    using ascii_dumps[OF assms(1), of "sort_keys (JObj (case vs of None \<Rightarrow> [] | Some vs \<Rightarrow> vs))"] idempotent_ascii[OF assms(2)]
    by (simp only: json_dumps_sorted_def ascii_text_simps)
  then have "py_encode ?t = Inr ?t" by (intro encode_ascii) (auto simp: ascii_text_def list_all_iff)
  then show ?thesis by (auto simp: request_hash_def hash_input_def token_digest_def)
qed

lemma hex_js_text: "js_text (sha256_hex t)"
proof (rule py_text_js)
  show "py_text (sha256_hex t)" by (rule py_text_sha256_hex)
  show "\<forall>c\<in>set (sha256_hex t). c < 0x110000" using sha256_hex_is_hex is_hex_lt by fastforce
qed

lemma record_ok:
  assumes "json_ok data"
  shows "json_ok (idem_record (sha256_hex t) data)"
proof -
  have "js_text (lit ''request_hash'')" "js_text (lit ''response'')" by (simp_all add: lit_def high_surrogate_def)
  then show ?thesis using assms hex_js_text by (simp add: idem_record_def)
qed

lemma replay_record:
  "replay h' (idem_record h data) =
     Inr (if h = h' then \<lparr>er_data = data, er_errors = []\<rparr> else \<lparr>er_data = JNull, er_errors = [conflict]\<rparr>)"
  by (simp add: replay_def idem_record_def json_get_def json_index_def)

lemma on_execute_keyed:
  assumes "keyed op k req doc" and "request_hash F op vs = Inr h"
  shows "on_execute F (Some exec) (Some req) doc vs execute =
    bnd (on_redis (idem_get F exec (idem_key op k))) (\<lambda>cached.
      if cached \<noteq> JNull then lift_res (replay h cached)
      else bnd execute (\<lambda>result.
        if er_errors result = [] \<and> er_data result \<noteq> JNull
        then bnd (on_redis (idem_set F exec (idem_key op k) (idem_record h (er_data result)) IDEM_TTL)) (\<lambda>_. ret result)
        else ret result))"
  using assms by (simp add: on_execute_def keyed_def token_text_def Let_def)

context redis_server
begin

lemma idem_get_miss:
  assumes "view r key = None" and "py_text key"
  obtains r' where "idem_get F exec key r = (Inr JNull, r')" "view r' = view r"
proof -
  have "cmd_fine (GET key) (view r)" using assms by simp
  then obtain rep r' where "redis_call exec (GET key) r = (Inr rep, r')" "redis_reply_ok (GET key) (view r) rep" "view r' = view r"
    by (rule redis_call_fine) simp
  then show thesis using that assms by (simp add: idem_get_def ret_def)
qed

lemma idem_get_hit:
  assumes "view r key = Some (RStr (json_dumps F v), e)" and "py_text key" and "floats_ok F" and "json_ok v"
  obtains r' where "idem_get F exec key r = (Inr v, r')" "view r' = view r"
proof -
  have "cmd_fine (GET key) (view r)" using assms by simp
  then obtain rep r' where "redis_call exec (GET key) r = (Inr rep, r')" "redis_reply_ok (GET key) (view r) rep" "view r' = view r"
    by (rule redis_call_fine) simp
  then show thesis using that assms json_loads_dumps[OF assms(3,4)] by (simp add: idem_get_def lift_res_def)
qed

lemma idem_set_run:
  assumes "py_text key" and "floats_ok F" and "0 < ttl"
  obtains r' where "idem_set F exec key v ttl r = (Inr (), r')"
    "view r' = (view r)(key \<mapsto> (RStr (json_dumps F v), Some (ms ttl)))"
proof -
  have "cmd_fine (SETEX key ttl (json_dumps F v)) (view r)"
    using assms py_text_dumps[OF assms(2), of v] by simp
  then obtain rep r' where "redis_call exec (SETEX key ttl (json_dumps F v)) r = (Inr rep, r')"
      "view r' = redis_effect (SETEX key ttl (json_dumps F v)) (view r)"
    by (rule redis_call_fine)
  then show thesis using that assms(3) by (simp add: idem_set_def ret_def)
qed

text \<open>The first request under a key, executed and stored.\<close>

lemma first_request:
  assumes kd: "keyed op k req doc" and F: "floats_ok F"
    and miss: "view (w_redis w) (idem_key op k) = None"
    and ex: "execute (w\<lparr>w_redis := snd (idem_get F exec (idem_key op k) (w_redis w))\<rparr>) = (Inr res, w0)"
    and res: "er_errors res = []" "er_data res \<noteq> JNull" and h: "request_hash F op vs = Inr h"
  obtains r where "on_execute F (Some exec) (Some req) doc vs execute w = (Inr res, w0\<lparr>w_redis := r\<rparr>)"
    "view r = (view (w_redis w0))(idem_key op k \<mapsto> (RStr (json_dumps F (idem_record h (er_data res))), Some 86400000))"
proof -
  have key: "py_text (idem_key op k)" using kd by (simp add: keyed_def token_text_def)
  obtain r1 where g: "idem_get F exec (idem_key op k) (w_redis w) = (Inr JNull, r1)" by (rule idem_get_miss[OF miss key])
  obtain r where r: "idem_set F exec (idem_key op k) (idem_record h (er_data res)) IDEM_TTL (w_redis w0) = (Inr (), r)"
      "view r = (view (w_redis w0))(idem_key op k \<mapsto> (RStr (json_dumps F (idem_record h (er_data res))), Some (ms IDEM_TTL)))"
    by (rule idem_set_run[OF key F IDEM_TTL_pos])
  have "on_execute F (Some exec) (Some req) doc vs execute w = (Inr res, w0\<lparr>w_redis := r\<rparr>)"
    using ex res by (simp add: on_execute_keyed[OF kd h] on_redis_run g r(1) ret_def)
  then show thesis using that r(2) by (simp add: IDEM_TTL_def ms_def)
qed

text \<open>A later request that finds the record of an earlier one.\<close>

lemma later_request:
  assumes kd: "keyed op k req doc" and F: "floats_ok F"
    and rec: "view (w_redis w) (idem_key op k) = Some (RStr (json_dumps F (idem_record (sha256_hex t) data)), e)" and ok: "json_ok data"
    and h: "request_hash F op vs = Inr h"
  obtains r where "on_execute F (Some exec) (Some req) doc vs execute w =
      (Inr (if sha256_hex t = h then \<lparr>er_data = data, er_errors = []\<rparr> else \<lparr>er_data = JNull, er_errors = [conflict]\<rparr>),
       w\<lparr>w_redis := r\<rparr>)" "view r = view (w_redis w)"
proof -
  have key: "py_text (idem_key op k)" using kd by (simp add: keyed_def token_text_def)
  obtain r where g: "idem_get F exec (idem_key op k) (w_redis w) = (Inr (idem_record (sha256_hex t) data), r)" "view r = view (w_redis w)"
    by (rule idem_get_hit[OF rec key F record_ok[OF ok]])
  have "idem_record (sha256_hex t) data \<noteq> JNull" by (simp add: idem_record_def)
  then have "on_execute F (Some exec) (Some req) doc vs execute w =
      (Inr (if sha256_hex t = h then \<lparr>er_data = data, er_errors = []\<rparr> else \<lparr>er_data = JNull, er_errors = [conflict]\<rparr>),
       w\<lparr>w_redis := r\<rparr>)"
    by (simp add: on_execute_keyed[OF kd h] on_redis_run g(1) replay_record lift_res_def)
  then show thesis using that g(2) by blast
qed

end

section \<open>Retries\<close>

text \<open>
  Claim C13. The first \<open>login\<close> or \<open>requestPasswordReset\<close> under an idempotency key is executed,
  and its data, when it has no errors, are kept for a day. Every later request for the
  operation under the key within the day is answered without executing anything, with the
  database, the mails and the keys of Redis untouched: with the same data when the hashes
  agree, and with the error IDEMPOTENCY_CONFLICT when they differ. The hash covers the name
  of the operation and the variables, so a request that differs only in arguments written
  into its document has the same hash and gets the stored data.
\<close>

theorem retry_is_not_executed:
  fixes exec :: "'r redis_exec" and w :: "('r, 'd) world" and F :: "'f floats"
  assumes "redis_server exec view elapse" and "floats_ok F" and "keyed op k req doc"
    and "view (w_redis w) (idem_key op k) = None"
    and "execute (w\<lparr>w_redis := snd (idem_get F exec (idem_key op k) (w_redis w))\<rparr>) = (Inr res, w0)"
    and "er_errors res = []" and "er_data res \<noteq> JNull" and "json_ok (er_data res)" and "t < 86400000"
  shows "\<exists>w1. on_execute F (Some exec) (Some req) doc vs execute w = (Inr res, w1) \<and>
    (\<forall>(w2 :: ('r, 'd) world) req' doc' vs' execute'. keyed op k req' doc' \<longrightarrow>
       view (w_redis w2) (idem_key op k) = age t (view (w_redis w1)) (idem_key op k) \<longrightarrow>
       (\<exists>r. on_execute F (Some exec) (Some req') doc' vs' execute' w2 =
          (Inr (if request_hash F op vs = request_hash F op vs' then \<lparr>er_data = er_data res, er_errors = []\<rparr>
                else \<lparr>er_data = JNull, er_errors = [conflict]\<rparr>), w2\<lparr>w_redis := r\<rparr>) \<and>
          view r = view (w_redis w2)))"
proof -
  have op: "op \<in> IDEMPOTENT_OPERATIONS" using assms(3) by (simp add: keyed_def)
  obtain x where x: "request_hash F op vs = Inr (sha256_hex x)" using request_hash_total[OF assms(2) op] by blast
  obtain r where r: "on_execute F (Some exec) (Some req) doc vs execute w = (Inr res, w0\<lparr>w_redis := r\<rparr>)"
    "view r = (view (w_redis w0))(idem_key op k \<mapsto>
       (RStr (json_dumps F (idem_record (sha256_hex x) (er_data res))), Some 86400000))"
    by (rule redis_server.first_request[where execute = execute and w = w, OF assms(1,3,2,4,5,6,7) x])
  show ?thesis
  proof (intro exI[of _ "w0\<lparr>w_redis := r\<rparr>"] conjI allI impI r(1))
    fix w2 :: "('r, 'd) world" and req' doc' vs' and execute' :: "(('r, 'd) world, 'f execution_result) act"
    assume a: "keyed op k req' doc'" "view (w_redis w2) (idem_key op k) = age t (view (w_redis (w0\<lparr>w_redis := r\<rparr>))) (idem_key op k)"
    obtain y where y: "request_hash F op vs' = Inr (sha256_hex y)" using request_hash_total[OF assms(2) op] by blast
    have "view (w_redis w2) (idem_key op k) =
        Some (RStr (json_dumps F (idem_record (sha256_hex x) (er_data res))), Some (86400000 - t))"
      using a(2) r(2) assms(9) by (simp add: age_def)
    then obtain r' where "on_execute F (Some exec) (Some req') doc' vs' execute' w2 =
        (Inr (if sha256_hex x = sha256_hex y then \<lparr>er_data = er_data res, er_errors = []\<rparr>
              else \<lparr>er_data = JNull, er_errors = [conflict]\<rparr>), w2\<lparr>w_redis := r'\<rparr>)" "view r' = view (w_redis w2)"
      using redis_server.later_request[where execute = execute', OF assms(1) a(1) assms(2) _ assms(8) y] by metis
    then show "\<exists>r. on_execute F (Some exec) (Some req') doc' vs' execute' w2 =
          (Inr (if request_hash F op vs = request_hash F op vs' then \<lparr>er_data = er_data res, er_errors = []\<rparr>
                else \<lparr>er_data = JNull, er_errors = [conflict]\<rparr>), w2\<lparr>w_redis := r\<rparr>) \<and>
          view r = view (w_redis w2)"
      by (intro exI[of _ r']) (simp add: x y)
  qed
qed

definition login_document :: "pystr \<Rightarrow> definition_node list option" where
  "login_document args = Some [OperationDefinitionNode MUTATION [FieldNode (lit ''login'') args]]"

definition keyed_request :: http_request where
  "keyed_request = anonymous_request\<lparr>hr_idempotency_key := Some (lit ''key-1'')\<rparr>"

lemma keyed_login: "keyed (lit ''login'') (lit ''key-1'') keyed_request (login_document args)"
  by (simp add: keyed_def login_document_def get_mutation_field_name_def IDEMPOTENT_OPERATIONS_def keyed_request_def
      token_text_def lit_def is_surrogate_def)

theorem retry_is_not_executed_witness:
  "\<exists>w1. on_execute ref_floats (Some ref_exec) (Some keyed_request) (login_document []) None
      (ret \<lparr>er_data = JStr (lit ''tokens''), er_errors = []\<rparr>) empty_world = (Inr \<lparr>er_data = JStr (lit ''tokens''), er_errors = []\<rparr>, w1) \<and>
    fst (on_execute ref_floats (Some ref_exec) (Some keyed_request) (login_document []) None (raise_exn KeyError)
      (w1\<lparr>w_redis := ref_elapse 1 (w_redis w1)\<rparr>)) =
      Inr \<lparr>er_data = JStr (lit ''tokens''), er_errors = []\<rparr>"
proof -
  let ?res = "\<lparr>er_data = JStr (lit ''tokens''), er_errors = []\<rparr> :: int execution_result"
  let ?r = "snd (idem_get ref_floats ref_exec (idem_key (lit ''login'') (lit ''key-1'')) (w_redis empty_world))"
  have "\<exists>w1. on_execute ref_floats (Some ref_exec) (Some keyed_request) (login_document []) None (ret ?res) empty_world = (Inr ?res, w1) \<and>
    (\<forall>(w2 :: (ref_state, db_view) world) req' doc' vs' execute'. keyed (lit ''login'') (lit ''key-1'') req' doc' \<longrightarrow>
       ref_view (w_redis w2) (idem_key (lit ''login'') (lit ''key-1'')) =
         age 1 (ref_view (w_redis w1)) (idem_key (lit ''login'') (lit ''key-1'')) \<longrightarrow>
       (\<exists>r. on_execute ref_floats (Some ref_exec) (Some req') doc' vs' execute' w2 =
          (Inr (if request_hash ref_floats (lit ''login'') None = request_hash ref_floats (lit ''login'') vs'
                then \<lparr>er_data = er_data ?res, er_errors = []\<rparr> else \<lparr>er_data = JNull, er_errors = [conflict]\<rparr>), w2\<lparr>w_redis := r\<rparr>) \<and>
          ref_view r = ref_view (w_redis w2)))"
    by (rule retry_is_not_executed[OF ref.redis_server_axioms ref_floats_ok keyed_login, where ?w0.0 = "empty_world\<lparr>w_redis := ?r\<rparr>"])
      (simp_all add: ret_def lit_def high_surrogate_def)
  then obtain w1 where w1: "on_execute ref_floats (Some ref_exec) (Some keyed_request) (login_document []) None (ret ?res) empty_world = (Inr ?res, w1)"
    and retry: "\<forall>(w2 :: (ref_state, db_view) world) req' doc' vs' execute'. keyed (lit ''login'') (lit ''key-1'') req' doc' \<longrightarrow>
       ref_view (w_redis w2) (idem_key (lit ''login'') (lit ''key-1'')) =
         age 1 (ref_view (w_redis w1)) (idem_key (lit ''login'') (lit ''key-1'')) \<longrightarrow>
       (\<exists>r. on_execute ref_floats (Some ref_exec) (Some req') doc' vs' execute' w2 =
          (Inr (if request_hash ref_floats (lit ''login'') None = request_hash ref_floats (lit ''login'') vs'
                then \<lparr>er_data = er_data ?res, er_errors = []\<rparr> else \<lparr>er_data = JNull, er_errors = [conflict]\<rparr>), w2\<lparr>w_redis := r\<rparr>) \<and>
          ref_view r = ref_view (w_redis w2))" by blast
  show ?thesis
    using w1 retry[rule_format, of keyed_request "login_document []" "w1\<lparr>w_redis := ref_elapse 1 (w_redis w1)\<rparr>" None "raise_exn KeyError"]
      keyed_login ref.view_elapse[of 1 "w_redis w1"] by auto
qed

text \<open>
  Claim C35. The arguments written in the document itself do not enter the hash: a login
  under a key that was used before, whose document differs only in its inline arguments,
  so in the address or the password, is answered with the data of the first login, that
  is with its tokens, and the password is not looked at.
\<close>

theorem inline_arguments_share_answer:
  fixes exec :: "'r redis_exec" and w :: "('r, 'd) world" and F :: "'f floats"
  assumes "redis_server exec view elapse" and "floats_ok F" and "hr_idempotency_key req = Some k" and "token_text k"
    and "view (w_redis w) (idem_key (lit ''login'') k) = None"
    and "execute (w\<lparr>w_redis := snd (idem_get F exec (idem_key (lit ''login'') k) (w_redis w))\<rparr>) = (Inr res, w0)"
    and "er_errors res = []" and "er_data res \<noteq> JNull" and "json_ok (er_data res)" and "t < 86400000"
  shows "\<exists>w1. on_execute F (Some exec) (Some req) (login_document args) vs execute w = (Inr res, w1) \<and>
    (\<forall>args' (w2 :: ('r, 'd) world) execute'.
       view (w_redis w2) (idem_key (lit ''login'') k) = age t (view (w_redis w1)) (idem_key (lit ''login'') k) \<longrightarrow>
       fst (on_execute F (Some exec) (Some req) (login_document args') vs execute' w2) =
         Inr \<lparr>er_data = er_data res, er_errors = []\<rparr>)"
proof -
  have op: "lit ''login'' \<in> IDEMPOTENT_OPERATIONS" by (simp add: IDEMPOTENT_OPERATIONS_def)
  have kd: "keyed (lit ''login'') k req (login_document a)" for a
    using assms(3,4) op by (simp add: keyed_def login_document_def get_mutation_field_name_def)
  obtain x where x: "request_hash F (lit ''login'') vs = Inr (sha256_hex x)"
    using request_hash_total[OF assms(2) op] by blast
  obtain r where r: "on_execute F (Some exec) (Some req) (login_document args) vs execute w = (Inr res, w0\<lparr>w_redis := r\<rparr>)"
    "view r = (view (w_redis w0))(idem_key (lit ''login'') k \<mapsto>
       (RStr (json_dumps F (idem_record (sha256_hex x) (er_data res))), Some 86400000))"
    by (rule redis_server.first_request[where execute = execute and w = w, OF assms(1) kd assms(2,5,6,7,8) x])
  show ?thesis
  proof (intro exI[of _ "w0\<lparr>w_redis := r\<rparr>"] conjI allI impI r(1))
    fix args' and w2 :: "('r, 'd) world" and execute' :: "(('r, 'd) world, 'f execution_result) act"
    assume "view (w_redis w2) (idem_key (lit ''login'') k) = age t (view (w_redis (w0\<lparr>w_redis := r\<rparr>))) (idem_key (lit ''login'') k)"
    then have "view (w_redis w2) (idem_key (lit ''login'') k) =
        Some (RStr (json_dumps F (idem_record (sha256_hex x) (er_data res))), Some (86400000 - t))"
      using r(2) assms(10) by (simp add: age_def)
    from redis_server.later_request[where execute = execute' and vs = vs, OF assms(1) kd assms(2) this assms(9) x]
    obtain r' where "on_execute F (Some exec) (Some req) (login_document args') vs execute' w2 =
        (Inr (if sha256_hex x = sha256_hex x then \<lparr>er_data = er_data res, er_errors = []\<rparr>
              else \<lparr>er_data = JNull, er_errors = [conflict]\<rparr>), w2\<lparr>w_redis := r'\<rparr>)" .
    then show "fst (on_execute F (Some exec) (Some req) (login_document args') vs execute' w2) =
        Inr \<lparr>er_data = er_data res, er_errors = []\<rparr>" by simp
  qed
qed

theorem inline_arguments_share_answer_witness:
  "\<exists>w1. on_execute ref_floats (Some ref_exec) (Some keyed_request) (login_document (lit ''password: right'')) None
      (ret \<lparr>er_data = JStr (lit ''tokens''), er_errors = []\<rparr>) empty_world = (Inr \<lparr>er_data = JStr (lit ''tokens''), er_errors = []\<rparr>, w1) \<and>
    fst (on_execute ref_floats (Some ref_exec) (Some keyed_request) (login_document (lit ''password: wrong'')) None
      (raise_exn bad_credentials) (w1\<lparr>w_redis := ref_elapse 1 (w_redis w1)\<rparr>)) =
      Inr \<lparr>er_data = JStr (lit ''tokens''), er_errors = []\<rparr>"
proof -
  let ?res = "\<lparr>er_data = JStr (lit ''tokens''), er_errors = []\<rparr> :: int execution_result"
  let ?k = "idem_key (lit ''login'') (lit ''key-1'')"
  let ?r = "snd (idem_get ref_floats ref_exec ?k (w_redis empty_world))"
  have "\<exists>w1. on_execute ref_floats (Some ref_exec) (Some keyed_request) (login_document (lit ''password: right'')) None (ret ?res)
      empty_world = (Inr ?res, w1) \<and>
    (\<forall>args' (w2 :: (ref_state, db_view) world) execute'. ref_view (w_redis w2) ?k = age 1 (ref_view (w_redis w1)) ?k \<longrightarrow>
       fst (on_execute ref_floats (Some ref_exec) (Some keyed_request) (login_document args') None execute' w2) =
         Inr \<lparr>er_data = er_data ?res, er_errors = []\<rparr>)"
    by (rule inline_arguments_share_answer[OF ref.redis_server_axioms ref_floats_ok, where ?w0.0 = "empty_world\<lparr>w_redis := ?r\<rparr>"])
      (simp_all add: ret_def lit_def high_surrogate_def keyed_request_def token_text_def is_surrogate_def)
  then obtain w1 where w1: "on_execute ref_floats (Some ref_exec) (Some keyed_request) (login_document (lit ''password: right'')) None
        (ret ?res) empty_world = (Inr ?res, w1)"
    and again: "\<And>args' (w2 :: (ref_state, db_view) world) execute'. ref_view (w_redis w2) ?k = age 1 (ref_view (w_redis w1)) ?k \<Longrightarrow>
       fst (on_execute ref_floats (Some ref_exec) (Some keyed_request) (login_document args') None execute' w2) =
         Inr \<lparr>er_data = er_data ?res, er_errors = []\<rparr>" by blast
  show ?thesis
    using w1 again[of "w1\<lparr>w_redis := ref_elapse 1 (w_redis w1)\<rparr>"] ref.view_elapse[of 1 "w_redis w1"] by auto
qed

text \<open>
  Claim C34. The text whose hash identifies a request is the same for two sets of variables
  exactly when they differ in nothing but the order of the keys, at any depth.
\<close>

theorem hash_input_canonical:
  assumes "floats_ok F" and "json_ok (JObj vs)" and "json_ok (JObj vs')"
  shows "hash_input F op (Some vs) = hash_input F op (Some vs') \<longleftrightarrow> sort_keys (JObj vs) = sort_keys (JObj vs')"
  using sorted_text_inj[OF assms] by (simp add: hash_input_def)

theorem hash_input_canonical_witness:
  "hash_input ref_floats (lit ''login'') (Some [(lit ''b'', JInt 1), (lit ''a'', JNull)]) =
     hash_input ref_floats (lit ''login'') (Some [(lit ''a'', JNull), (lit ''b'', JInt 1)]) \<and>
   hash_input ref_floats (lit ''login'') (Some [(lit ''a'', JInt 1)]) \<noteq> hash_input ref_floats (lit ''login'') (Some [(lit ''a'', JInt 2)])"
proof -
  have ok: "json_ok (JObj [(lit ''b'', JInt 1), (lit ''a'', JNull)])" "json_ok (JObj [(lit ''a'', JNull), (lit ''b'', JInt 1)])"
    "json_ok (JObj [(lit ''a'', JInt 1)])" "json_ok (JObj [(lit ''a'', JInt 2)])"
    by (simp_all add: lit_def str_nat.simps)
  show ?thesis
    using hash_input_canonical[OF ref_floats_ok ok(1,2), of "lit ''login''"] hash_input_canonical[OF ref_floats_ok ok(3,4), of "lit ''login''"]
    by (simp add: lit_def)
qed

section \<open>Records\<close>

text \<open>
  Claim C33. What \<open>set\<close> wrote, \<open>get\<close> returns, until the time to live has passed; from then on
  it finds nothing.
\<close>

theorem record_roundtrip:
  assumes "redis_server exec view elapse" and "floats_ok F" and "py_text key" and "json_ok v" and "0 < ttl"
  shows "\<exists>r'. idem_set F exec key v ttl r = (Inr (), r') \<and>
    fst (idem_get F exec key (elapse t r')) = Inr (if t < ms ttl then v else JNull)"
proof -
  note sv = assms(1)
  obtain r' where r': "idem_set F exec key v ttl r = (Inr (), r')"
      "view r' = (view r)(key \<mapsto> (RStr (json_dumps F v), Some (ms ttl)))"
    by (rule redis_server.idem_set_run[OF sv assms(3,2,5)])
  have V: "view (elapse t r') key = (if ms ttl \<le> t then None else Some (RStr (json_dumps F v), Some (ms ttl - t)))"
    by (simp add: redis_server.view_elapse[OF sv] age_def r'(2))
  have "fst (idem_get F exec key (elapse t r')) = Inr (if t < ms ttl then v else JNull)"
  proof (cases "t < ms ttl")
    case True
    then have "view (elapse t r') key = Some (RStr (json_dumps F v), Some (ms ttl - t))" using V by simp
    from redis_server.idem_get_hit[OF sv this assms(3,2,4)] True show ?thesis by (metis fst_conv)
  next
    case False
    then have "view (elapse t r') key = None" using V by simp
    from redis_server.idem_get_miss[OF sv this assms(3), of F] False show ?thesis by (metis fst_conv)
  qed
  then show ?thesis using r'(1) by blast
qed

theorem record_roundtrip_witness:
  "\<exists>r'. idem_set ref_floats ref_exec (lit ''k'') (JList [JBool True, JStr [0x1F600, 34]]) 1 Map.empty = (Inr (), r') \<and>
     fst (idem_get ref_floats ref_exec (lit ''k'') (ref_elapse 999 r')) = Inr (JList [JBool True, JStr [0x1F600, 34]])"
  using record_roundtrip[OF ref.redis_server_axioms ref_floats_ok, of "lit ''k''" "JList [JBool True, JStr [0x1F600, 34]]" 1 Map.empty 999]
  by (simp add: ms_def high_surrogate_def)

end
