(* ===== verification/Middleware.thy ===== *)
theory Middleware
  imports Idempotency
begin

text \<open>
  \<open>GraphQLRateLimitMiddleware\<close> of \<open>auth_service/main.py\<close>: the table of limits, the extraction
  of the operation and of the address from the raw body of a request, and \<open>dispatch\<close>, with
  every exception a body can provoke. Shown: an exhausted limit is answered with 429 and
  the request does not reach the application; which field of a document is counted; and
  documents that no limit applies to.
\<close>

section \<open>The body\<close>

text \<open>\<open>json.loads(bytes)\<close>: the encoding is guessed, then decoded with \<open>surrogatepass\<close>.\<close>

function utf8_pass :: "nat list \<Rightarrow> pystr option" where
  "utf8_pass [] = Some []"
| "utf8_pass (b # bs) =
     (let n = (if b < 0x80 then 0 else if b < 0xE0 then 1 else if b < 0xF0 then 2 else 3);
          c = fst (utf8_lead b (take n bs @ [0, 0, 0]))
      in if utf8_char c = b # take n bs \<and> c < 0x110000 then map_option (\<lambda>s. c # s) (utf8_pass (drop n bs)) else None)"
  by pat_completeness auto
termination by (relation "measure length") auto

definition word16 :: "bool \<Rightarrow> nat \<Rightarrow> nat \<Rightarrow> nat" where
  "word16 be a b = (if be then 256 * a + b else 256 * b + a)"

fun units16 :: "bool \<Rightarrow> nat list \<Rightarrow> nat list option" where
  "units16 be [] = Some []"
| "units16 be [a] = None"
| "units16 be (a # b # bs) = map_option (\<lambda>us. word16 be a b # us) (units16 be bs)"

fun join_pairs :: "nat list \<Rightarrow> pystr" where
  "join_pairs (a # b # us) =
     (if high_surrogate a \<and> low_surrogate b then (0x10000 + (a - 0xD800) * 1024 + (b - 0xDC00)) # join_pairs us
      else a # join_pairs (b # us))"
| "join_pairs us = us"

fun units32 :: "bool \<Rightarrow> nat list \<Rightarrow> pystr option" where
  "units32 be [] = Some []"
| "units32 be (a # b # c # d # bs) =
     (let x = (if be then 65536 * word16 True a b + word16 True c d else 65536 * word16 False c d + word16 False a b)
      in if x < 0x110000 then map_option (\<lambda>s. x # s) (units32 be bs) else None)"
| "units32 be _ = None"

definition decode_body :: "nat list \<Rightarrow> pystr option" where
  "decode_body b =
     (if py_startswith b [0, 0, 0xFE, 0xFF] then units32 True (drop 4 b)
      else if py_startswith b [0xFF, 0xFE, 0, 0] then units32 False (drop 4 b)
      else if py_startswith b [0xFE, 0xFF] then map_option join_pairs (units16 True (drop 2 b))
      else if py_startswith b [0xFF, 0xFE] then map_option join_pairs (units16 False (drop 2 b))
      else if py_startswith b [0xEF, 0xBB, 0xBF] then utf8_pass (drop 3 b)
      else
        (case b of
           b0 # b1 # b2 # b3 # _ \<Rightarrow>
             if b0 = 0 then (if b1 \<noteq> 0 then map_option join_pairs (units16 True b) else units32 True b)
             else if b1 = 0 then (if b2 \<noteq> 0 \<or> b3 \<noteq> 0 then map_option join_pairs (units16 False b) else units32 False b)
             else utf8_pass b
         | [b0, b1] \<Rightarrow>
             if b0 = 0 then map_option join_pairs (units16 True b)
             else if b1 = 0 then map_option join_pairs (units16 False b)
             else utf8_pass b
         | _ \<Rightarrow> utf8_pass b))"

definition loads_body :: "'f floats \<Rightarrow> nat list \<Rightarrow> exn + 'f json" where
  "loads_body F b = (case decode_body b of None \<Rightarrow> Inl ValueError | Some s \<Rightarrow> json_loads F s)"

section \<open>What is limited\<close>

definition RATE_LIMITS :: "(pystr \<times> (pystr \<times> int \<times> int) list) list" where
  "RATE_LIMITS =
     [(lit ''login'', [(lit ''ip'', 5, 60), (lit ''email'', 10, 900)]),
      (lit ''register'', [(lit ''ip'', 5, 3600)]),
      (lit ''requestPasswordReset'', [(lit ''email'', 3, 3600), (lit ''ip'', 10, 3600)]),
      (lit ''resetPassword'', [(lit ''ip'', 10, 3600)]),
      (lit ''refreshToken'', [(lit ''ip'', 60, 3600)])]"

definition EMAIL_OPS :: "pystr set" where
  "EMAIL_OPS = {lit ''login'', lit ''register'', lit ''requestPasswordReset''}"

text \<open>The selection of a mutation up to its first name that is followed by a bracket.\<close>

definition rx_selection :: "unicode \<Rightarrow> rx_item list" where
  "rx_selection U =
     [WordB, Many (\<lambda>c. c \<noteq> 123), One (\<lambda>c. c = 123), Lazy (\<lambda>c. c \<noteq> 123), OpenGroup] @ rx_plus (py_isword U) @
     [CloseGroup, Many (py_isspace U), One (\<lambda>c. c = 40 \<or> c = 123)]"

definition MUTATION_OP_RE :: "unicode \<Rightarrow> rx_item list" where
  "MUTATION_OP_RE U = rx_lit (lit ''mutation'') @ rx_selection U"

definition NAMED_MUTATION_OP_RE :: "unicode \<Rightarrow> pystr \<Rightarrow> rx_item list" where
  "NAMED_MUTATION_OP_RE U name = rx_lit (lit ''mutation'') @ rx_plus (py_isspace U) @ rx_lit name @ rx_selection U"

fun json_true :: "'f floats \<Rightarrow> 'f json \<Rightarrow> bool" where
  "json_true F JNull = False"
| "json_true F (JBool b) = b"
| "json_true F (JInt i) = (i \<noteq> 0)"
| "json_true F (JFloat x) = (\<not> fl_zero F x)"
| "json_true F (JStr s) = (s \<noteq> [])"
| "json_true F (JList vs) = (vs \<noteq> [])"
| "json_true F (JObj kvs) = (kvs \<noteq> [])"

text \<open>\<open>pattern.search(query)\<close> and its group, or the empty name.\<close>

definition searched :: "unicode \<Rightarrow> rx_item list \<Rightarrow> 'f json \<Rightarrow> exn + pystr" where
  "searched U pattern query =
     (case query of
        JStr q \<Rightarrow> Inr (case re_search U pattern q of Some g \<Rightarrow> g | None \<Rightarrow> [])
      | _ \<Rightarrow> Inl TypeError)"

definition extract_operation :: "unicode \<Rightarrow> 'f json \<Rightarrow> exn + pystr" where
  "extract_operation U body =
     (case body of
        JObj kvs \<Rightarrow>
          (let query = (case map_of kvs (lit ''query'') of Some q \<Rightarrow> q | None \<Rightarrow> JStr [])
           in case map_of kvs (lit ''operationName'') of
                Some (JStr op_name) \<Rightarrow>
                  if op_name \<noteq> [] then searched U (NAMED_MUTATION_OP_RE U op_name) query
                  else searched U (MUTATION_OP_RE U) query
              | _ \<Rightarrow> searched U (MUTATION_OP_RE U) query)
      | _ \<Rightarrow> Inl AttributeError)"

definition extract_email :: "'f floats \<Rightarrow> 'f json \<Rightarrow> exn + 'f json" where
  "extract_email F body =
     (case json_get body (lit ''variables'') of
        Inl e \<Rightarrow> Inl e
      | Inr vs \<Rightarrow>
          (let variables = (if json_true F vs then vs else JObj [])
           in case json_get variables (lit ''input'') of
                Inl e \<Rightarrow> Inl e
              | Inr i \<Rightarrow>
                  (let input_obj = (if json_true F i then i else JObj [])
                   in case json_get input_obj (lit ''email'') of
                        Inl e \<Rightarrow> Inl e
                      | Inr em \<Rightarrow> if json_true F em then Inr em else json_get variables (lit ''email''))))"

section \<open>Dispatch\<close>

record raw_request =
  rr_path :: pystr
  rr_method :: pystr
  rr_body :: "nat list"

datatype 'a http_response = Passed 'a | TooManyRequests pystr

definition client_ip :: "http_request \<Rightarrow> pystr" where
  "client_ip req =
     (case py_or (py_or (hr_real_ip req) (hr_client req)) (Some (lit ''unknown'')) of Some ip \<Rightarrow> ip | None \<Rightarrow> [])"

text \<open>One rule: nothing to check, the check, or an address that is no string.\<close>

definition check_rule ::
  "unicode \<Rightarrow> 'f floats \<Rightarrow> 'r redis_exec \<Rightarrow> pystr \<Rightarrow> pystr \<Rightarrow> 'f json \<Rightarrow> pystr \<times> int \<times> int \<Rightarrow> ('r, unit) act" where
  "check_rule U F exec operation ip email rule =
     (case rule of (dimension, limit, window) \<Rightarrow>
        if dimension = lit ''ip'' then bnd (check_ip exec ip operation limit window) (\<lambda>_. ret ())
        else if dimension = lit ''email'' \<and> json_true F email
        then (case email of
                JStr e \<Rightarrow> bnd (check_email U exec e operation limit window) (\<lambda>_. ret ())
              | _ \<Rightarrow> raise_exn AttributeError)
        else ret ())"

text \<open>The rules in order; the first that is exceeded gives the time to wait.\<close>

fun enforce ::
  "unicode \<Rightarrow> 'f floats \<Rightarrow> 'r redis_exec \<Rightarrow> pystr \<Rightarrow> pystr \<Rightarrow> 'f json \<Rightarrow> (pystr \<times> int \<times> int) list \<Rightarrow> ('r, int option) act" where
  "enforce U F exec operation ip email [] = ret None"
| "enforce U F exec operation ip email (rule # rules) =
     bnd (catch (bnd (check_rule U F exec operation ip email rule) (\<lambda>_. ret None))
            (\<lambda>e. case e of RateLimitExceededError retry_after _ \<Rightarrow> ret (Some retry_after) | _ \<Rightarrow> raise_exn e))
       (\<lambda>exceeded. case exceeded of Some t \<Rightarrow> ret (Some t) | None \<Rightarrow> enforce U F exec operation ip email rules)"

definition dispatch ::
  "'f floats \<Rightarrow> ('r, 'd) service option \<Rightarrow> unicode \<Rightarrow> raw_request \<Rightarrow> http_request \<Rightarrow>
   (('r, 'd) world, 'a) act \<Rightarrow> (('r, 'd) world, 'a http_response) act" where
  "dispatch F global U raw req call_next =
     (let pass = bnd call_next (\<lambda>x. ret (Passed x)) in
      if (rr_path raw \<noteq> lit ''/graphql'' \<and> rr_path raw \<noteq> lit ''/graphql/'') \<or> rr_method raw \<noteq> lit ''POST'' then pass
      else
        (case get_global_container global of
           Inl _ \<Rightarrow> pass
         | Inr S \<Rightarrow>
             (case loads_body F (rr_body raw) of
                Inl _ \<Rightarrow> pass
              | Inr body \<Rightarrow>
                  bnd (lift_res (extract_operation U body)) (\<lambda>operation.
                    case map_of RATE_LIMITS operation of
                      None \<Rightarrow> pass
                    | Some rules \<Rightarrow>
                        bnd (if operation \<in> EMAIL_OPS then lift_res (extract_email F body) else ret JNull) (\<lambda>email.
                        bnd (on_redis (enforce U F (sv_exec S) operation (client_ip req) email rules)) (\<lambda>exceeded.
                          case exceeded of
                            Some t \<Rightarrow> ret (TooManyRequests (str_int t))
                          | None \<Rightarrow> pass))))))"

section \<open>Matching\<close>

lemma many_greedy:
  "\<forall>c\<in>set a. p c \<Longrightarrow> b = [] \<or> \<not> p (hd b) \<Longrightarrow> rx_match U is (prev_of prev a) ins (cap_of ins cap a) b = Some g \<Longrightarrow>
   rx_match U (Many p # is) prev ins cap (a @ b) = Some g"
proof (induction a arbitrary: prev cap)
  case Nil
  then show ?case by (cases b) (simp_all add: rx_match.simps(3))
next
  case (Cons c a)
  have "rx_match U (Many p # is) (Some c) ins (cap_of ins cap [c]) (a @ b) = Some g"
    by (rule Cons.IH) (use Cons.prems prev_of_Cons[of prev c a] cap_of_Cons[of ins cap c a] in simp_all)
  then show ?case using Cons.prems(1) by (simp add: rx_match.simps(3))
qed

lemma lazy_skip:
  assumes "\<forall>c\<in>set a. p c" and "\<And>c prev cap s. c \<in> set a \<Longrightarrow> rx_match U is prev ins cap (c # s) = None"
    and "rx_match U is (prev_of prev a) ins (cap_of ins cap a) b = Some g"
  shows "rx_match U (Lazy p # is) prev ins cap (a @ b) = Some g"
  using assms
proof (induction a arbitrary: prev cap)
  case Nil
  then show ?case by (subst rx_match.simps(4)) simp
next
  case (Cons c a)
  have "rx_match U (Lazy p # is) (Some c) ins (cap_of ins cap [c]) (a @ b) = Some g"
    by (rule Cons.IH) (use Cons.prems prev_of_Cons[of prev c a] cap_of_Cons[of ins cap c a] in simp_all)
  then show ?case using Cons.prems(1,2) by (subst rx_match.simps(4)) simp
qed

lemma lit_match: "rx_match U (rx_lit s @ is) prev ins cap (s @ t) = rx_match U is (prev_of prev s) ins (cap_of ins cap s) t"
proof (induction s arbitrary: prev cap)
  case (Cons c s)
  then show ?case using prev_of_Cons[of prev c s] cap_of_Cons[of ins cap c s] by (simp add: rx_lit_def)
qed (simp add: rx_lit_def)

lemma lit_other: "d \<noteq> c \<Longrightarrow> rx_match U (rx_lit (c # s) @ is) prev ins cap (d # t) = None"
  by (simp add: rx_lit_def)

lemma search_skip:
  assumes "c \<notin> set a" and "rx_match U (rx_lit (c # s) @ is) (prev_of prev a) False [] b = Some g"
  shows "re_search_from U (rx_lit (c # s) @ is) prev (a @ b) = Some g"
  using assms
proof (induction a arbitrary: prev)
  case Nil
  then show ?case by (subst re_search_from.simps) simp
next
  case (Cons d a)
  have "re_search_from U (rx_lit (c # s) @ is) (Some d) (a @ b) = Some g"
    by (rule Cons.IH) (use Cons.prems prev_of_Cons[of prev d a] in simp_all)
  then show ?case using Cons.prems(1) lit_other[of d c U s "is" prev False "[]" "a @ b"]
    by (subst re_search_from.simps) simp
qed

text \<open>A selection whose first name before a bracket is \<open>f\<close>.\<close>

definition selects :: "unicode \<Rightarrow> pystr \<Rightarrow> pystr \<Rightarrow> bool" where
  "selects U f t \<longleftrightarrow>
     (\<exists>h sp sp2 b rest. t = h @ 123 # sp @ f @ sp2 @ b # rest \<and> 123 \<notin> set h \<and> (h = [] \<or> \<not> py_isword U (hd h)) \<and>
        list_all (\<lambda>c. c \<noteq> 123 \<and> \<not> py_isword U c) sp \<and> f \<noteq> [] \<and> list_all (py_isword U) f \<and>
        list_all (\<lambda>c. py_isspace U c \<and> \<not> py_isword U c) sp2 \<and> (b = 40 \<or> b = 123))"

lemma selection_match:
  assumes "selects U f t" and "py_isword U p"
  shows "rx_match U (rx_selection U) (Some p) False [] t = Some f"
proof -
  obtain h sp sp2 b rest where t: "t = h @ 123 # sp @ f @ sp2 @ b # rest" "123 \<notin> set h" "h = [] \<or> \<not> py_isword U (hd h)"
      "\<forall>c\<in>set sp. c \<noteq> 123 \<and> \<not> py_isword U c" "f \<noteq> []" "\<forall>c\<in>set f. py_isword U c"
      "\<forall>c\<in>set sp2. py_isspace U c \<and> \<not> py_isword U c" "b = 40 \<or> b = 123"
    using assms(1) unfolding selects_def list_all_iff by blast
  obtain c f' where f: "f = c # f'" using t(5) by (cases f) auto
  let ?close = "[CloseGroup, Many (py_isspace U), One (\<lambda>c. c = 40 \<or> c = 123)]"
  have b: "\<not> py_isspace U b" "\<not> py_isword U b"
    using t(8) by (auto simp: py_isspace_def py_isword_def ascii_letter_def ascii_digit_def)
  have m1: "rx_match U (Many (py_isspace U) # [One (\<lambda>c. c = 40 \<or> c = 123)]) q False f (sp2 @ b # rest) = Some f" for q
    by (rule many_greedy) (use t(7,8) b in \<open>auto simp: cap_of_def\<close>)
  have m2: "rx_match U (Many (py_isword U) # ?close) (Some c) True [c] (f' @ sp2 @ b # rest) = Some f"
  proof (rule many_greedy)
    show "sp2 @ b # rest = [] \<or> \<not> py_isword U (hd (sp2 @ b # rest))" using t(7) b by (cases sp2) auto
  qed (use t(6) f m1 in \<open>auto simp: cap_of_def\<close>)
  have g: "rx_match U (OpenGroup # rx_plus (py_isword U) @ ?close) q False [] (f @ sp2 @ b # rest) = Some f" for q
    using m2 t(6) f by (simp add: rx_plus_def cap_of_def)
  have l: "rx_match U (Lazy (\<lambda>c. c \<noteq> 123) # OpenGroup # rx_plus (py_isword U) @ ?close) q False [] (sp @ f @ sp2 @ b # rest) = Some f" for q
    by (rule lazy_skip) (use t(4) g in \<open>auto simp: rx_plus_def cap_of_def\<close>)
  have "rx_match U (Many (\<lambda>c. c \<noteq> 123) # One (\<lambda>c. c = 123) # Lazy (\<lambda>c. c \<noteq> 123) # OpenGroup # rx_plus (py_isword U) @ ?close)
      (Some p) False [] (h @ 123 # sp @ f @ sp2 @ b # rest) = Some f"
    by (rule many_greedy) (use t(2) l in \<open>auto simp: cap_of_def\<close>)
  moreover have "word_boundary U (Some p) t"
    using assms(2) t(1,3) by (cases h) (auto simp: word_boundary_def py_isword_def ascii_letter_def ascii_digit_def)
  ultimately show ?thesis by (simp add: rx_selection_def t(1))
qed

lemma mutation_search:
  assumes "109 \<notin> set pre" and "selects U f t"
  shows "re_search U (MUTATION_OP_RE U) (pre @ lit ''mutation'' @ t) = Some f"
proof -
  have m: "lit ''mutation'' = 109 # lit ''utation''" "prev_of p (lit ''mutation'') = Some 110" for p
    by (simp_all add: lit_def prev_of_def)
  have "py_isword U 110" by (simp add: py_isword_def ascii_letter_def)
  then have "rx_match U (rx_lit (lit ''mutation'') @ rx_selection U) (prev_of None pre) False [] (lit ''mutation'' @ t) = Some f"
    using selection_match[OF assms(2)] by (simp add: lit_match m(2) cap_of_def)
  then show ?thesis
    unfolding re_search_def MUTATION_OP_RE_def m(1) by (intro search_skip) (use assms(1) in \<open>simp_all add: m(1)\<close>)
qed

section \<open>Which field is counted\<close>

text \<open>A body without an operation name whose document has a mutation that selects \<open>f\<close> first.\<close>

definition selects_first :: "unicode \<Rightarrow> pystr \<Rightarrow> 'f json \<Rightarrow> bool" where
  "selects_first U f body \<longleftrightarrow>
     (\<exists>kvs pre t. body = JObj kvs \<and> map_of kvs (lit ''operationName'') \<in> {None, Some JNull, Some (JStr [])} \<and>
        map_of kvs (lit ''query'') = Some (JStr (pre @ lit ''mutation'' @ t)) \<and> 109 \<notin> set pre \<and> selects U f t)"

lemma extract_first: "selects_first U f body \<Longrightarrow> extract_operation U body = Inr f"
  by (auto simp: selects_first_def extract_operation_def searched_def mutation_search)


lemma ascii_body:
  assumes "list_all (\<lambda>c. 0 < c \<and> c < 128) t"
  shows "decode_body t = Some t"
proof -
  have u: "utf8_pass t = Some t" using assms
  proof (induction t)
    case (Cons c t)
    then show ?case by (simp add: Let_def utf8_lead_def utf8_char_ascii)
  qed simp
  have "\<not> py_startswith t (c # p)" if "c = 0 \<or> 128 \<le> c" for c p
    using assms that by (auto simp: startswith_iff)
  then have "decode_body t = utf8_pass t" unfolding decode_body_def using assms
    by (auto simp del: utf8_pass.simps split: list.split)
  then show ?thesis using u by simp
qed


definition body_of :: "pystr \<Rightarrow> int json" where
  "body_of query = JObj [(lit ''query'', JStr query)]"


lemma loads_dumped_body:
  assumes "floats_ok F" and "json_ok v"
  shows "loads_body F (json_dumps F v) = Inr v"
  using ascii_body[of "json_dumps F v"] ascii_dumps[OF assms(1), of v] json_loads_dumps[OF assms]
  by (simp add: loads_body_def ascii_text_def)



section \<open>Limits\<close>

text \<open>The counter a rule looks at, if any, and a counter in good order.\<close>

definition rule_key :: "unicode \<Rightarrow> 'f floats \<Rightarrow> pystr \<Rightarrow> pystr \<Rightarrow> 'f json \<Rightarrow> pystr \<times> int \<times> int \<Rightarrow> pystr option" where
  "rule_key U F operation ip email rule =
     (case rule of (dimension, limit, window) \<Rightarrow>
        if dimension = lit ''ip'' then Some (ip_key operation ip)
        else if dimension = lit ''email'' \<and> json_true F email
        then (case email of JStr e \<Rightarrow> Some (email_key U operation e) | _ \<Rightarrow> None)
        else None)"

definition text_or_false :: "'f floats \<Rightarrow> 'f json \<Rightarrow> bool" where
  "text_or_false F v \<longleftrightarrow> (json_true F v \<longrightarrow> (\<exists>s. v = JStr s))"

definition budget :: "redis_view \<Rightarrow> pystr \<Rightarrow> int \<Rightarrow> bool" where
  "budget V key window \<longleftrightarrow>
     V (rl_key key) = None \<or> (\<exists>n m. counter V key n m \<and> m \<le> ms window \<and> int n + 1 < 2 ^ 63)"

lemma check_rule_key:
  assumes "text_or_false F email"
  shows "check_rule U F exec operation ip email (d, limit, window) =
    (case rule_key U F operation ip email (d, limit, window) of
       None \<Rightarrow> ret () | Some key \<Rightarrow> bnd (check exec key limit window) (\<lambda>_. ret ()))"
  using assms
  by (auto simp: check_rule_def rule_key_def check_ip_def check_email_def text_or_false_def)

text \<open>A rule the limiter can work with: a window of at most an hour and a counter in good order.\<close>

definition rule_fine ::
  "unicode \<Rightarrow> 'f floats \<Rightarrow> pystr \<Rightarrow> pystr \<Rightarrow> 'f json \<Rightarrow> redis_view \<Rightarrow> pystr \<times> int \<times> int \<Rightarrow> bool" where
  "rule_fine U F operation ip email V rule =
     (case rule of (d, limit, window) \<Rightarrow>
        0 < window \<and> window \<le> 3600 \<and>
        (case rule_key U F operation ip email rule of None \<Rightarrow> True | Some key \<Rightarrow> py_text key \<and> budget V key window))"

lemma rl_key_eq [simp]: "rl_key a = rl_key b \<longleftrightarrow> a = b"
  by (simp add: rl_key_def)

lemma budget_other: "V' (rl_key key) = V (rl_key key) \<Longrightarrow> budget V' key window = budget V key window"
  by (simp add: budget_def counter_def)

lemma key_in_filter:
  "x \<in> set xs \<Longrightarrow> f x = Some y \<Longrightarrow> y \<in> set (List.map_filter f xs)"
  by (auto simp: List.map_filter_def image_iff intro!: bexI[of _ x])

lemma rule_fine_other:
  assumes "rule_fine U F operation ip email V rule" and "\<forall>k. k \<noteq> rl_key key \<longrightarrow> V' k = V k"
    and "rule_key U F operation ip email rule \<noteq> Some key"
  shows "rule_fine U F operation ip email V' rule"
  using assms budget_other[of V' _ V] by (auto simp: rule_fine_def split: option.splits)

lemma counter_same:
  assumes "counter V key n m" and "counter V key n' m'" and "int n + 1 < 2 ^ 63" and "int n' + 1 < 2 ^ 63"
  shows "n = n'"
proof -
  have "str_int (int n) = str_int (int n')" using assms(1,2) by (simp add: counter_def)
  moreover have "redis_int (str_int (int n)) = Some (int n)" using assms(3) by (intro redis_int_str) simp
  moreover have "redis_int (str_int (int n')) = Some (int n')" using assms(4) by (intro redis_int_str) simp
  ultimately show ?thesis by (metis nat_int option.inject)
qed

context redis_server
begin

lemma rule_run:
  assumes "text_or_false F email" and "rule_fine U F operation ip email (view r) (d, limit, window)"
    and "rule_key U F operation ip email (d, limit, window) = Some key"
  obtains n res r' where "check_rule U F exec operation ip email (d, limit, window) r = (map_sum id (\<lambda>_. ()) res, r')"
    "admitted key limit window n res" "\<forall>k. k \<noteq> rl_key key \<longrightarrow> view r' k = view r k"
    "int n + 1 < 2 ^ 63" "view r (rl_key key) = None \<or> (\<exists>m. counter (view r) key n m)"
proof -
  have w: "0 < window" "py_text key" and b: "budget (view r) key window" using assms(2,3) by (auto simp: rule_fine_def)
  obtain n m where n: "int n + 1 < 2 ^ 63"
    and V: "counter (view r) key n m \<and> m \<le> ms window \<or> view r (rl_key key) = None \<and> n = 0 \<and> m = ms window"
    using b that unfolding budget_def by fastforce
  obtain res r' where c: "check exec key limit window r = (res, r')"
    "admitted key limit window n res" "\<forall>k. k \<noteq> rl_key key \<longrightarrow> view r' k = view r k"
    using check_run[OF w(2,1) n V] by metis
  have "check_rule U F exec operation ip email (d, limit, window) r = (map_sum id (\<lambda>_. ()) res, r')"
    using c(1) assms(3) by (cases res) (simp_all add: check_rule_key[OF assms(1)] bnd_def ret_def)
  then show thesis using that c(2,3) n V by blast
qed

text \<open>A rule whose counter has reached its limit is among the rules: the answer is a time to wait.\<close>

lemma enforce_refuses:
  assumes "text_or_false F email"
    and "\<forall>rule\<in>set rules. rule_fine U F operation ip email (view r) rule"
    and "distinct (List.map_filter (rule_key U F operation ip email) rules)"
    and "(d, limit, window) \<in> set rules" and "rule_key U F operation ip email (d, limit, window) = Some key"
    and "counter (view r) key n m" and "limit \<le> int n" and "int n + 1 < 2 ^ 63"
  shows "\<exists>t r'. enforce U F exec operation ip email rules r = (Inr (Some t), r') \<and> 0 < t \<and> t \<le> 3600 \<and>
    (\<forall>k. (\<forall>key. k \<noteq> rl_key key) \<longrightarrow> view r' k = view r k)"
  using assms(2-)
proof (induction rules arbitrary: r)
  case (Cons rule rules)
  obtain d0 l0 w0 where rule: "rule = (d0, l0, w0)" by (cases rule)
  let ?key = "rule_key U F operation ip email"
  show ?case
  proof (cases "?key rule")
    case None
    then have "enforce U F exec operation ip email (rule # rules) r = enforce U F exec operation ip email rules r"
      using check_rule_key[OF assms(1), of U exec operation ip d0 l0 w0] rule by (simp add: catch_def bnd_def ret_def)
    moreover have "(d, limit, window) \<in> set rules" using Cons.prems(3,4) None by auto
    ultimately show ?thesis using Cons.IH[of r] Cons.prems None by (simp add: List.map_filter_simps)
  next
    case (Some k0)
    then obtain n0 res r1 where r1: "check_rule U F exec operation ip email rule r = (map_sum id (\<lambda>_. ()) res, r1)"
      "admitted k0 l0 w0 n0 res" "\<forall>k. k \<noteq> rl_key k0 \<longrightarrow> view r1 k = view r k"
      "int n0 + 1 < 2 ^ 63" "view r (rl_key k0) = None \<or> (\<exists>m. counter (view r) k0 n0 m)"
      using rule_run[OF assms(1)] Cons.prems(1) rule by (metis list.set_intros(1))
    show ?thesis
    proof (cases "int n0 + 1 \<le> l0")
      case False
      then obtain t where t: "res = Inl (RateLimitExceededError t k0)" "0 < t" "t \<le> w0"
        using r1(2) by (auto simp: admitted_def)
      have "w0 \<le> 3600" using Cons.prems(1) rule by (auto simp: rule_fine_def)
      then show ?thesis using r1(1,3) t by (auto simp: catch_def bnd_def ret_def)
    next
      case True
      then have "enforce U F exec operation ip email (rule # rules) r = enforce U F exec operation ip email rules r1"
        using r1(1,2) by (simp add: admitted_def catch_def bnd_def ret_def)
      moreover have k0: "k0 \<notin> set (List.map_filter ?key rules)"
        using Cons.prems(2) Some by (simp add: List.map_filter_simps)
      moreover have "rule \<noteq> (d, limit, window)"
        using True r1(4,5) Some rule Cons.prems(4-) counter_same[of "view r" key n m n0] by (auto simp: counter_def)
      moreover have "\<forall>rule\<in>set rules. rule_fine U F operation ip email (view r1) rule"
        using rule_fine_other[where U = U and operation = operation and ip = ip and email = email, OF _ r1(3)]
          Cons.prems(1) k0 key_in_filter[of _ rules ?key k0] by (metis list.set_intros(2))
      moreover have "counter (view r1) key n m"
        using k0 key_in_filter[of "(d, limit, window)" rules ?key key] Cons.prems(3-5) r1(3) \<open>rule \<noteq> (d, limit, window)\<close>
        unfolding counter_def by (metis rl_key_eq set_ConsD)
      ultimately show ?thesis using Cons.IH[of r1] Cons.prems Some r1(3) by (auto simp: List.map_filter_simps)
    qed
  qed
qed simp

end

section \<open>The middleware refuses\<close>

lemma keys_differ: "ip_key operation ip \<noteq> email_key U operation e"
  by (simp add: ip_key_def email_key_def lit_def)

lemma table_rules:
  assumes "map_of RATE_LIMITS operation = Some rules"
  shows "distinct (List.map_filter (rule_key U F operation ip email) rules)"
    and "\<forall>(d, limit, window)\<in>set rules. 0 < window \<and> window \<le> 3600"
proof -
  have d: "lit ''email'' \<noteq> lit ''ip''" by (simp add: lit_def)
  have rules: "rules \<in> {[(lit ''ip'', 5, 60), (lit ''email'', 10, 900)], [(lit ''ip'', 5, 3600)],
      [(lit ''email'', 3, 3600), (lit ''ip'', 10, 3600)], [(lit ''ip'', 10, 3600)], [(lit ''ip'', 60, 3600)]}"
    using assms by (auto simp: RATE_LIMITS_def split: if_splits)
  then show "\<forall>(d, limit, window)\<in>set rules. 0 < window \<and> window \<le> 3600" by auto
  show "distinct (List.map_filter (rule_key U F operation ip email) rules)"
    using rules d keys_differ[of operation ip U] keys_differ[of operation ip U, symmetric]
    by (auto simp: rule_key_def List.map_filter_simps split: json.split)
qed

text \<open>
  Claim C11. When the counter of any rule of the operation has reached its limit, the request
  is answered with 429 and a \<open>Retry-After\<close> of more than zero seconds and at most an hour,
  whatever the other counters hold; the application does not see the request, and nothing
  but counters changes.
\<close>

theorem exhausted_limit_refuses:
  fixes call_next :: "(('r, 'd) world, 'a) act" and S :: "('r, 'd) service" and F :: "'f floats"
  assumes "redis_server (sv_exec S) view elapse"
    and "rr_path raw = lit ''/graphql''" and "rr_method raw = lit ''POST''"
    and "loads_body F (rr_body raw) = Inr body" and "extract_operation U body = Inr operation"
    and "map_of RATE_LIMITS operation = Some rules"
    and "(if operation \<in> EMAIL_OPS then extract_email F body else Inr JNull) = Inr email" and "text_or_false F email"
    and "\<forall>(d, limit, window)\<in>set rules. \<forall>key. rule_key U F operation (client_ip req) email (d, limit, window) = Some key \<longrightarrow>
      py_text key \<and> budget (view (w_redis w)) key window"
    and "(d, limit, window) \<in> set rules" and "rule_key U F operation (client_ip req) email (d, limit, window) = Some key"
    and "counter (view (w_redis w)) key n m" and "limit \<le> int n" and "int n + 1 < 2 ^ 63"
  shows "\<exists>t r'. dispatch F (Some S) U raw req call_next w = (Inr (TooManyRequests (str_int t)), w\<lparr>w_redis := r'\<rparr>) \<and>
    0 < t \<and> t \<le> 3600 \<and> (\<forall>k. \<not> py_startswith k (lit ''rl:'') \<longrightarrow> view r' k = view (w_redis w) k)"
proof -
  have "\<forall>rule\<in>set rules. rule_fine U F operation (client_ip req) email (view (w_redis w)) rule"
    using assms(9) table_rules(2)[OF assms(6)] by (auto simp: rule_fine_def split: option.split)
  then obtain t r' where t: "enforce U F (sv_exec S) operation (client_ip req) email rules (w_redis w) = (Inr (Some t), r')"
      "0 < t" "t \<le> 3600" "\<forall>k. (\<forall>key. k \<noteq> rl_key key) \<longrightarrow> view r' k = view (w_redis w) k"
    using redis_server.enforce_refuses[OF assms(1,8) _ table_rules(1)[OF assms(6)] assms(10-14)] by blast
  have "bnd (if operation \<in> EMAIL_OPS then lift_res (extract_email F body) else ret JNull) f w = f email w"
    for f :: "'f json \<Rightarrow> (('r, 'd) world, 'a http_response) act"
    using assms(7) by (auto simp: bnd_def lift_res_def ret_def split: if_splits)
  then have "dispatch F (Some S) U raw req call_next w = (Inr (TooManyRequests (str_int t)), w\<lparr>w_redis := r'\<rparr>)"
    using assms(2-6) t(1) by (simp add: dispatch_def get_global_container_def lift_res_def on_redis_run bnd_def ret_def)
  moreover have "\<forall>k. \<not> py_startswith k (lit ''rl:'') \<longrightarrow> view r' k = view (w_redis w) k"
    using t(4) by (auto simp: rl_key_def startswith_iff)
  ultimately show ?thesis using t(2,3) by blast
qed

text \<open>A client that has used up its five logins.\<close>

definition open_login :: pystr where
  "open_login = lit ''mutation {login(input: {}) {accessToken}}''"

definition login_request :: raw_request where
  "login_request = \<lparr>rr_path = lit ''/graphql'', rr_method = lit ''POST'', rr_body = json_dumps ref_floats (body_of open_login)\<rparr>"

definition busy_world :: "(ref_state, db_view) world" where
  "busy_world = empty_world\<lparr>w_redis := [rl_key (ip_key (lit ''login'') (lit ''unknown'')) \<mapsto> (FStr (str_int (int 5)), Some 7000)]\<rparr>"

lemma open_selects: "selects_first latin_unicode (lit ''login'') (body_of open_login)"
proof -
  have "selects latin_unicode (lit ''login'') (lit '' '' @ 123 # [] @ lit ''login'' @ [] @ 40 # lit ''input: {}) {accessToken}}'')"
    unfolding selects_def
    by (intro exI conjI, rule refl) (auto simp: lit_def py_isword_def ascii_letter_def ascii_digit_def)
  moreover have "open_login = [] @ lit ''mutation'' @ lit '' '' @ 123 # [] @ lit ''login'' @ [] @ 40 # lit ''input: {}) {accessToken}}''"
    by (simp add: open_login_def lit_def)
  ultimately show ?thesis unfolding selects_first_def body_of_def
    by (intro exI[of _ "[(lit ''query'', JStr open_login)]"] exI[of _ "[]"] exI conjI) (auto simp: lit_def)
qed

theorem exhausted_limit_refuses_witness:
  "\<exists>t r'. dispatch ref_floats (Some ref_service) latin_unicode login_request anonymous_request (ret ()) busy_world =
     (Inr (TooManyRequests (str_int t)), busy_world\<lparr>w_redis := r'\<rparr>) \<and> 0 < t \<and> t \<le> 3600"
proof -
  let ?key = "ip_key (lit ''login'') (lit ''unknown'')" and ?rules = "[(lit ''ip'', 5, 60), (lit ''email'', 10, 900)] :: (pystr \<times> int \<times> int) list"
  have "json_ok (body_of open_login)" by (simp add: body_of_def open_login_def lit_def high_surrogate_def)
  then have l: "loads_body ref_floats (rr_body login_request) = Inr (body_of open_login)"
    using loads_dumped_body[OF ref_floats_ok] by (simp add: login_request_def)
  have e: "extract_operation latin_unicode (body_of open_login) = Inr (lit ''login'')" by (rule extract_first[OF open_selects])
  have m: "(if lit ''login'' \<in> EMAIL_OPS then extract_email ref_floats (body_of open_login) else Inr JNull) = Inr JNull"
    by (simp add: extract_email_def body_of_def json_get_def lit_def)
  have r: "map_of RATE_LIMITS (lit ''login'') = Some ?rules" by (simp add: RATE_LIMITS_def)
  have ip: "client_ip anonymous_request = lit ''unknown''" by (simp add: client_ip_def anonymous_request_def py_or_def lit_def)
  have k: "rule_key latin_unicode ref_floats (lit ''login'') (lit ''unknown'') JNull (lit ''ip'', 5, 60) = Some ?key"
    "rule_key latin_unicode ref_floats (lit ''login'') (lit ''unknown'') JNull (lit ''email'', 10, 900) = None"
    by (simp_all add: rule_key_def lit_def)
  have c: "counter (ref_view (w_redis busy_world)) ?key 5 7000" by (simp add: counter_def busy_world_def ref_view_def)
  then have b: "budget (ref_view (w_redis busy_world)) ?key 60" unfolding budget_def by (intro disjI2 exI[of _ 5] exI[of _ 7000]) (simp add: ms_def)
  have "py_text ?key" by (simp add: ip_key_def)
  then have "\<forall>(d, limit, window)\<in>set ?rules. \<forall>key.
      rule_key latin_unicode ref_floats (lit ''login'') (client_ip anonymous_request) JNull (d, limit, window) = Some key \<longrightarrow>
      py_text key \<and> budget (ref_view (w_redis busy_world)) key window"
    using b k by (simp add: ip)
  then show ?thesis
    using exhausted_limit_refuses[where S = ref_service and view = ref_view and elapse = ref_elapse and w = busy_world and call_next = "ret ()",
        OF _ _ _ l e r m _ _ _ _ c, of anonymous_request "lit ''ip''" 5 60] k ref.redis_server_axioms
    by (fastforce simp: login_request_def ip text_or_false_def)
qed

text \<open>
  Claim C38. A body that is JSON and no object, and a document that is no string, are not
  passed on and not answered: the middleware itself raises, before any counter is touched.
\<close>

theorem malformed_body_raises:
  assumes "rr_path raw = lit ''/graphql''" and "rr_method raw = lit ''POST''" and "loads_body F (rr_body raw) = Inr body"
    and "case body of JObj kvs \<Rightarrow> (\<exists>q. map_of kvs (lit ''query'') = Some q \<and> (\<nexists>s. q = JStr s)) | _ \<Rightarrow> True"
  shows "dispatch F (Some S) U raw req call_next w = (Inl (case body of JObj _ \<Rightarrow> TypeError | _ \<Rightarrow> AttributeError), w)"
proof -
  have "searched U pattern q = Inl TypeError" if "\<nexists>s. q = JStr s" for pattern and q :: "'a json"
    using that by (cases q) (simp_all add: searched_def)
  then have "extract_operation U body = Inl (case body of JObj _ \<Rightarrow> TypeError | _ \<Rightarrow> AttributeError)"
    using assms(4) by (cases body) (auto simp: extract_operation_def split: json.split option.split)
  then show ?thesis
    using assms(1-3) by (simp add: dispatch_def get_global_container_def lift_res_def bnd_def raise_exn_def)
qed

theorem malformed_body_raises_witness:
  "dispatch ref_floats (Some ref_service) latin_unicode
     \<lparr>rr_path = lit ''/graphql'', rr_method = lit ''POST'', rr_body = lit ''[]''\<rparr> anonymous_request (ret ()) empty_world =
     (Inl AttributeError, empty_world)"
proof -
  have "loads_body ref_floats (json_dumps ref_floats (JList [])) = Inr (JList [])"
    by (rule loads_dumped_body[OF ref_floats_ok]) simp
  then have "loads_body ref_floats (lit ''[]'') = Inr (JList [])" by (simp add: lit_def)
  then show ?thesis
    using malformed_body_raises[of "\<lparr>rr_path = lit ''/graphql'', rr_method = lit ''POST'', rr_body = lit ''[]''\<rparr>" ref_floats "JList []"
        ref_service latin_unicode anonymous_request "ret ()" empty_world] by simp
qed

end
