(* ===== verification/RateBound.thy ===== *)
theory RateBound
  imports Middleware
begin

text \<open>
  The promise of the rate limits, end to end: in any sequence of requests to the service,
  with the middleware in front, the resolvers behind it and any time between them, no more
  than the limit of an operation reaches the application from one address in a window.
  The counters belong to the limiter alone: no resolver touches them.
\<close>

section \<open>Keys that an action leaves alone\<close>

definition key_at :: "('r \<Rightarrow> redis_view) \<Rightarrow> pystr \<Rightarrow> (redis_value \<times> nat option) option \<Rightarrow> 'r \<Rightarrow> bool" where
  "key_at view k x r \<longleftrightarrow> view r k = x"

definition wkey_at :: "('r \<Rightarrow> redis_view) \<Rightarrow> pystr \<Rightarrow> (redis_value \<times> nat option) option \<Rightarrow> ('r, 'd) world \<Rightarrow> bool" where
  "wkey_at view k x w \<longleftrightarrow> key_at view k x (w_redis w)"

lemma wkey_redis [stable_intros]: "stable (key_at view k x) f \<Longrightarrow> stable (wkey_at view k x) (on_redis f)"
  by (auto simp: stable_def triple_def wkey_at_def on_redis_def split: prod.splits sum.splits)

lemma wkey_db [stable_intros]: "stable (wkey_at view k x) (on_db f)"
  by (auto simp: stable_def triple_def wkey_at_def on_db_def split: prod.splits sum.splits)

lemma wkey_mail [stable_intros]: "stable (wkey_at view k x) (send_reset_email a t)"
  by (simp add: stable_def triple_def wkey_at_def send_reset_email_def)

lemma wkey_dummy [stable_intros]: "stable (wkey_at view k x) (dummy_verify S dr p)"
  by (auto simp: stable_def triple_def wkey_at_def dummy_verify_def bnd_def lift_res_def ret_def
      split: sum.splits prod.splits if_splits)

lemma stable_for_each [stable_intros]: "(\<And>x. stable P (f x)) \<Longrightarrow> stable P (for_each f xs)"
  by (induction xs) (simp_all add: stable_intros)

context redis_server
begin

lemma call_key:
  assumes "k \<noteq> cmd_key c"
  shows "stable (key_at view k x) (redis_call exec c)"
proof -
  have "view (snd (redis_call exec c r)) k = view r k" for r
    using redis_call_state[of c r] effect_other_key[OF assms] by (cases "sendable c") (simp_all add: redis_call_def)
  then show ?thesis by (auto simp: stable_def triple_def key_at_def split: prod.splits sum.splits) (metis snd_conv)+
qed

lemma pipeline_key:
  assumes "\<forall>c\<in>set cs. k \<noteq> cmd_key c"
  shows "stable (key_at view k x) (redis_pipeline exec cs)"
proof -
  have "view (snd (redis_pipeline exec cs r)) k = view r k" for r
    using pipeline_state[of cs r] pipe_other_key[OF assms] by (cases "list_all sendable cs") (simp_all add: redis_pipeline_def)
  then show ?thesis by (auto simp: stable_def triple_def key_at_def split: prod.splits sum.splits) (metis snd_conv)+
qed

lemma store_key_at:
  assumes "\<not> store_key k"
  shows "stable (key_at view k x) (create_session exec now sid uid jti tok dev at rt)"
    and "stable (key_at view k x) (get_session exec sid)"
    and "stable (key_at view k x) (is_access_jti_valid exec j)"
    and "stable (key_at view k x) (get_session_by_refresh_token exec t)"
    and "stable (key_at view k x) (rotate_session U exec now sid old jti tok at rt)"
    and "stable (key_at view k x) (revoke_session exec sid)"
    and "stable (key_at view k x) (revoke_all_user_sessions U exec uid)"
proof -
  have k: "k \<noteq> access_key a" "k \<noteq> refresh_key a" "k \<noteq> session_key a" "k \<noteq> user_sessions_key a" for a
    using assms store_key_simps by metis+
  show get: "stable (key_at view k x) (get_session exec sid)" for sid
    unfolding get_session_def by (auto intro!: stable_intros call_key simp: k split: redis_reply.split)
  show "stable (key_at view k x) (create_session exec now sid uid jti tok dev at rt)"
    unfolding create_session_def by (intro stable_intros pipeline_key) (simp add: create_cmds_def k)
  show "stable (key_at view k x) (is_access_jti_valid exec j)"
    unfolding is_access_jti_valid_def by (auto intro!: stable_intros call_key simp: k split: redis_reply.split)
  show "stable (key_at view k x) (get_session_by_refresh_token exec t)"
    unfolding get_session_by_refresh_token_def
    by (auto intro!: stable_intros call_key simp: k split: redis_reply.split list.split)
  show "stable (key_at view k x) (rotate_session U exec now sid old jti tok at rt)"
    unfolding rotate_session_def by (intro stable_intros get pipeline_key) (auto simp: rotate_cmds_def k)
  show rev: "stable (key_at view k x) (revoke_session exec sid)" for sid
    unfolding revoke_session_def by (intro stable_intros get pipeline_key) (auto simp: revoke_cmds_def k)
  show "stable (key_at view k x) (revoke_all_user_sessions U exec uid)"
    unfolding revoke_all_user_sessions_def by (auto intro!: stable_intros call_key rev simp: k split: redis_reply.split)
qed

end

context auth_service
begin

lemma resolvers_key:
  assumes "\<not> store_key k"
  shows "stable (wkey_at view k x) (resolve S dr req op)"
proof -
  note at = store_key_at[OF assms]
  have audit: "stable (wkey_at view k x) (audit S dr ty uid sid ip meta)" for ty uid sid ip meta
    unfolding audit_def by (intro stable_intros)
  have handlers: "stable (wkey_at view k x) (register_user S dr c1)" "stable (wkey_at view k x) (authenticate_user S dr c2)"
    "stable (wkey_at view k x) (refresh_token S dr c3)" "stable (wkey_at view k x) (revoke_session_handler S dr c4)"
    "stable (wkey_at view k x) (request_password_reset S dr c5)" "stable (wkey_at view k x) (reset_password S dr c6)"
    for c1 c2 c3 c4 c5 c6
    unfolding register_user_def authenticate_user_def refresh_token_def rotate_tokens_def revoke_session_handler_def
      request_password_reset_def reset_password_def complete_reset_def record_login_failed_def
    by (intro stable_intros at audit)+
  have owned: "stable (wkey_at view k x) (revoke_owned S dr req u i)" for u i
    unfolding revoke_owned_eq by (intro stable_intros handlers at)
  show ?thesis
    by (cases op)
      (auto simp: as_value_def register_mutation_eq login_mutation_eq refresh_token_mutation_eq
        request_password_reset_mutation_eq reset_password_mutation_eq revoke_session_mutation_eq me_eq Let_def
        intro!: stable_intros handlers owned at split: option.split sum.split exn.split)
qed

lemma serve_key:
  assumes "graphql_executor run" and "\<not> store_key k"
  shows "stable (wkey_at view k x) (serve S run dr req op)"
    and "\<exists>y w'. serve S run dr req op w = (Inr y, w')"
proof -
  show "\<exists>y w'. serve S run dr req op w = (Inr y, w')" by (rule serve_run[OF assms(1), of w dr req op]) blast
  have "wkey_at view k x (snd (serve S run dr req op w))" if x: "wkey_at view k x w" for w
  proof -
    obtain d0 out w1 d where s: "resolve S dr req op (w\<lparr>w_db := d0\<rparr>) = (out, w1)"
      "serve S run dr req op w = (Inr (case out of Inr x \<Rightarrow> Data x | Inl e \<Rightarrow> Errors e), w1\<lparr>w_db := d\<rparr>)"
      by (rule serve_run[OF assms(1), of w dr req op]) (rule that)
    have "wkey_at view k x w1" by (rule stableD[OF resolvers_key[OF assms(2)] _ s(1)]) (use x in \<open>simp add: wkey_at_def\<close>)
    then show ?thesis using s(2) by (simp add: wkey_at_def)
  qed
  then show "stable (wkey_at view k x) (serve S run dr req op)"
    by (auto simp: stable_def triple_def split: prod.splits sum.splits) (metis snd_conv)+
qed

end

section \<open>Counters\<close>

text \<open>The operations of the table have no colon in their names, so keys tell them apart.\<close>

lemma table_operation:
  assumes "map_of RATE_LIMITS operation = Some rules"
  shows "58 \<notin> set operation" and "py_text operation"
  using assms by (auto simp: RATE_LIMITS_def lit_def is_surrogate_def split: if_splits)

lemma rule_key_ip:
  assumes "58 \<notin> set operation" and "58 \<notin> set operation'"
    and "rule_key U F operation' ip' email rule = Some (ip_key operation ip)"
  shows "operation' = operation \<and> ip' = ip"
proof -
  have ip: "ip_key p x = p @ 58 # 105 # lit ''p:'' @ x" and email: "email_key U p e = p @ 58 # 101 # lit ''mail:'' @ py_strip U (py_lower U e)"
    for p x e by (simp_all add: ip_key_def email_key_def lit_def)
  have no: "email_key U operation' e \<noteq> ip_key operation ip" for e
    using split_first[OF assms(2,1)] unfolding ip email by fastforce
  then have "ip_key operation' ip' = ip_key operation ip"
    using assms(3) by (cases rule) (auto simp: rule_key_def split: if_splits json.splits)
  then show ?thesis using split_first[OF assms(2,1)] unfolding ip by fastforce
qed

text \<open>The counter of an open window, or none where a window can open.\<close>

definition window_at :: "redis_view \<Rightarrow> pystr \<Rightarrow> int \<Rightarrow> nat \<Rightarrow> nat \<Rightarrow> bool" where
  "window_at V key window n m \<longleftrightarrow>
     counter V key n m \<and> m \<le> ms window \<or> V (rl_key key) = None \<and> n = 0 \<and> m = ms window"

lemma window_ages:
  assumes "window_at V key window n m" and "d + t < m"
  obtains m' where "window_at (age d V) key window n m'" and "t < m'"
proof (cases "V (rl_key key)")
  case None
  then show thesis using assms that[of m] none_age[of V "rl_key key" d] by (auto simp: window_at_def counter_def)
next
  case (Some x)
  then show thesis using assms that[of "m - d"] counter_age[of V key n m d] by (auto simp: window_at_def counter_def)
qed

lemma window_at_same: "V' (rl_key key) = V (rl_key key) \<Longrightarrow> window_at V' key window n m = window_at V key window n m"
  by (simp add: window_at_def counter_def)

context redis_server
begin

lemma check_key:
  assumes "key' \<noteq> key"
  shows "stable (key_at view (rl_key key) x) (check exec key' limit window)"
  unfolding check_def check_count_def
  by (auto intro!: stable_intros call_key simp: assms[symmetric] split: redis_reply.split)

lemma check_rule_frame:
  assumes "rule_key U F operation ip email rule \<noteq> Some key"
  shows "stable (key_at view (rl_key key) x) (check_rule U F exec operation ip email rule)"
  using assms
  by (cases rule)
    (auto simp: check_rule_def rule_key_def check_ip_def check_email_def intro!: stable_intros check_key
      split: json.split json.splits if_splits)

lemma enforce_frame:
  assumes "\<forall>rule\<in>set rules. rule_key U F operation ip email rule \<noteq> Some key"
  shows "stable (key_at view (rl_key key) x) (enforce U F exec operation ip email rules)"
  using assms
  by (induction rules) (auto intro!: stable_intros check_rule_frame split: exn.split)

text \<open>One pass over the rules counts once, and lets a request through only within the limit.\<close>

lemma enforce_counts:
  assumes key: "py_text key" and w: "0 < window" and n: "int n + 1 < 2 ^ 63"
  shows "enforce U F exec operation ip email rules r = (res, r') \<Longrightarrow>
    (d, limit, window) \<in> set rules \<Longrightarrow> rule_key U F operation ip email (d, limit, window) = Some key \<Longrightarrow>
    distinct (List.map_filter (rule_key U F operation ip email) rules) \<Longrightarrow> window_at (view r) key window n m \<Longrightarrow>
    (res = Inr None \<longrightarrow> int n + 1 \<le> limit \<and> counter (view r') key (n + 1) m) \<and>
    (view r' (rl_key key) = view r (rl_key key) \<or> counter (view r') key (n + 1) m)"
proof (induction rules arbitrary: r)
  case (Cons rule rules)
  let ?key = "rule_key U F operation ip email"
  show ?case
  proof (cases "?key rule = Some key")
    case True
    have others: "\<forall>rule\<in>set rules. ?key rule \<noteq> Some key"
      using Cons.prems(4) True key_in_filter[of _ rules ?key key] by (auto simp: List.map_filter_simps)
    then have rule: "rule = (d, limit, window)" using Cons.prems(2,3) by auto
    obtain out r1 where c: "check exec key limit window r = (out, r1)" "counter (view r1) key (n + 1) m"
        "admitted key limit window n out"
      using check_run[OF key w n Cons.prems(5)[unfolded window_at_def]] by metis
    have "check_rule U F exec operation ip email rule = bnd (check exec key limit window) (\<lambda>_. ret ())"
      using True rule by (auto simp: check_rule_def rule_key_def check_ip_def check_email_def split: if_splits json.splits)
    then have run: "check_rule U F exec operation ip email rule r = (map_sum id (\<lambda>_. ()) out, r1)"
      using c(1) by (cases out) (simp_all add: bnd_def ret_def)
    show ?thesis
    proof (cases "int n + 1 \<le> limit")
      case True
      then have e: "enforce U F exec operation ip email rules r1 = (res, r')"
        using Cons.prems(1) run c(3) by (simp add: admitted_def catch_def bnd_def ret_def)
      have "key_at view (rl_key key) (view r1 (rl_key key)) r'"
        by (rule stableD[OF enforce_frame[OF others] _ e]) (simp add: key_at_def)
      then show ?thesis using c(2) True by (simp add: key_at_def counter_def)
    next
      case False
      then show ?thesis using Cons.prems(1) run c(2,3) by (auto simp: admitted_def catch_def bnd_def ret_def)
    qed
  next
    case False
    then have mem: "(d, limit, window) \<in> set rules" using Cons.prems(2,3) by auto
    obtain out r1 where run: "check_rule U F exec operation ip email rule r = (out, r1)" by fastforce
    have "key_at view (rl_key key) (view r (rl_key key)) r1"
      by (rule stableD[OF check_rule_frame[OF False] _ run]) (simp add: key_at_def)
    then have same: "view r1 (rl_key key) = view r (rl_key key)" by (simp add: key_at_def)
    have d: "distinct (List.map_filter ?key rules)"
      using Cons.prems(4) by (auto simp: List.map_filter_simps split: option.splits)
    have "res \<noteq> Inr None \<and> r' = r1 \<or> enforce U F exec operation ip email rules r1 = (res, r')"
    proof (cases out)
      case (Inl e)
      then show ?thesis using Cons.prems(1) run
        by (cases e) (auto simp: catch_def bnd_def ret_def raise_exn_def)
    next
      case (Inr u)
      then show ?thesis using Cons.prems(1) run by (simp add: catch_def bnd_def ret_def)
    qed
    then show ?thesis
      using Cons.IH[of r1, OF _ mem Cons.prems(3) d] Cons.prems(5) window_at_same[of "view r1" key "view r"] same by auto
  qed
qed simp

end

section \<open>Requests\<close>

text \<open>A request that names the operation and comes from the address.\<close>

definition counts :: "'f floats \<Rightarrow> unicode \<Rightarrow> pystr \<Rightarrow> pystr \<Rightarrow> raw_request \<Rightarrow> http_request \<Rightarrow> bool" where
  "counts F U operation ip raw req \<longleftrightarrow>
     rr_path raw \<in> {lit ''/graphql'', lit ''/graphql/''} \<and> rr_method raw = lit ''POST'' \<and> client_ip req = ip \<and>
     (case loads_body F (rr_body raw) of Inl _ \<Rightarrow> False | Inr body \<Rightarrow> extract_operation U body = Inr operation)"

definition passed :: "exn + 'a http_response \<Rightarrow> bool" where
  "passed res \<longleftrightarrow> (case res of Inr (Passed _) \<Rightarrow> True | _ \<Rightarrow> False)"

text \<open>Requests one after the other, each after a wait, with any operation behind the middleware.\<close>

record arrival =
  ar_wait :: nat
  ar_raw :: raw_request
  ar_request :: http_request
  ar_draws :: draws
  ar_operation :: operation

fun http_seq ::
  "'f floats \<Rightarrow> ('r, 'd) service \<Rightarrow> (nat \<Rightarrow> 'r \<Rightarrow> 'r) \<Rightarrow> (('r, 'd) world, gql_value) executor \<Rightarrow> arrival list \<Rightarrow> ('r, 'd) world \<Rightarrow>
   (exn + gql_value response http_response) list \<times> ('r, 'd) world" where
  "http_seq F S elapse run [] w = ([], w)"
| "http_seq F S elapse run (a # as) w =
     (case dispatch F (Some S) (sv_unicode S) (ar_raw a) (ar_request a)
             (serve S run (ar_draws a) (ar_request a) (ar_operation a)) (w\<lparr>w_redis := elapse (ar_wait a) (w_redis w)\<rparr>) of
        (res, w1) \<Rightarrow> (case http_seq F S elapse run as w1 of (ress, w') \<Rightarrow> (res # ress, w')))"

text \<open>The part of \<open>dispatch\<close> for an operation with limits.\<close>

definition limited ::
  "'f floats \<Rightarrow> ('r, 'd) service \<Rightarrow> unicode \<Rightarrow> http_request \<Rightarrow> 'f json \<Rightarrow> pystr \<Rightarrow> (pystr \<times> int \<times> int) list \<Rightarrow>
   (('r, 'd) world, 'a http_response) act \<Rightarrow> (('r, 'd) world, 'a http_response) act" where
  "limited F S U req body operation rules pass =
     bnd (if operation \<in> EMAIL_OPS then lift_res (extract_email F body) else ret JNull) (\<lambda>email.
     bnd (on_redis (enforce U F (sv_exec S) operation (client_ip req) email rules)) (\<lambda>exceeded.
       case exceeded of Some t \<Rightarrow> ret (TooManyRequests (str_int t)) | None \<Rightarrow> pass))"

lemma dispatch_extracted:
  assumes "\<not> ((rr_path raw \<noteq> lit ''/graphql'' \<and> rr_path raw \<noteq> lit ''/graphql/'') \<or> rr_method raw \<noteq> lit ''POST'')"
    and "loads_body F (rr_body raw) = Inr body" and "extract_operation U body = Inr operation"
  shows "dispatch F (Some S) U raw req call_next =
    (case map_of RATE_LIMITS operation of None \<Rightarrow> bnd call_next (\<lambda>x. ret (Passed x))
     | Some rules \<Rightarrow> limited F S U req body operation rules (bnd call_next (\<lambda>x. ret (Passed x))))"
proof -
  have "bnd (lift_res (Inr x)) f = f x" for x and f :: "pystr \<Rightarrow> (('a, 'c) world, 'b http_response) act"
    by (simp add: fun_eq_iff bnd_def lift_res_def ret_def)
  then show ?thesis unfolding dispatch_def Let_def limited_def using assms
    by (auto simp: get_global_container_def split: option.split)
qed

lemma counted_limited:
  assumes "counts F U operation ip raw req" and "map_of RATE_LIMITS operation = Some rules"
  obtains body where
    "dispatch F (Some S) U raw req call_next = limited F S U req body operation rules (bnd call_next (\<lambda>x. ret (Passed x)))"
  using assms dispatch_extracted[of raw F _ U operation S req call_next]
  by (auto simp: counts_def split: sum.splits)

lemma dispatch_cases:
  obtains "dispatch F (Some S) U raw req call_next = bnd call_next (\<lambda>x. ret (Passed x))"
  | e where "dispatch F (Some S) U raw req call_next = raise_exn e"
  | body operation rules where "map_of RATE_LIMITS operation = Some rules" "counts F U operation (client_ip req) raw req"
    "dispatch F (Some S) U raw req call_next = limited F S U req body operation rules (bnd call_next (\<lambda>x. ret (Passed x)))"
proof (cases "rr_path raw \<in> {lit ''/graphql'', lit ''/graphql/''} \<and> rr_method raw = lit ''POST''")
  case post: True
  then have p: "\<not> ((rr_path raw \<noteq> lit ''/graphql'' \<and> rr_path raw \<noteq> lit ''/graphql/'') \<or> rr_method raw \<noteq> lit ''POST'')" by auto
  show thesis
  proof (cases "loads_body F (rr_body raw)")
    case (Inl e)
    then show thesis using that(1) p by (simp add: dispatch_def Let_def get_global_container_def)
  next
    case body: (Inr body)
    show thesis
    proof (cases "extract_operation U body")
      case (Inl e)
      then show thesis using that(2)[of e] p body by (simp add: dispatch_def Let_def get_global_container_def lift_res_def bnd_def raise_exn_def fun_eq_iff)
    next
      case op: (Inr operation)
      note d = dispatch_extracted[OF p body op]
      show thesis
      proof (cases "map_of RATE_LIMITS operation")
        case None
        show thesis by (rule that(1)) (use d None in simp)
      next
        case (Some rules)
        have c: "counts F U operation (client_ip req) raw req" using post body op by (simp add: counts_def)
        show thesis by (rule that(3)[OF Some c]) (use d Some in simp)
      qed
    qed
  qed
qed (use that(1) in \<open>auto simp: dispatch_def Let_def\<close>)

context auth_service
begin

text \<open>A request that does not count leaves the counter alone.\<close>

lemma other_request:
  assumes run: "graphql_executor run" and op: "58 \<notin> set operation" and no: "\<not> counts F (sv_unicode S) operation ip raw req"
  shows "stable (wkey_at view (rl_key (ip_key operation ip)) x) (dispatch F (Some S) (sv_unicode S) raw req (serve S run dr req' oper))"
proof -
  let ?P = "wkey_at view (rl_key (ip_key operation ip)) x"
  let ?pass = "bnd (serve S run dr req' oper) (\<lambda>x. ret (Passed x))"
  have pass: "stable ?P ?pass" by (intro stable_intros serve_key(1)[OF run]) simp
  have enf: "stable ?P (on_redis (enforce (sv_unicode S) F (sv_exec S) operation' (client_ip req) email rules))"
    if "map_of RATE_LIMITS operation' = Some rules" "operation' \<noteq> operation \<or> client_ip req \<noteq> ip" for operation' email rules
    by (intro stable_intros enforce_frame)
      (use that(2) rule_key_ip[OF op table_operation(1)[OF that(1)]] in blast)
  have lim: "stable ?P (limited F S (sv_unicode S) req body operation' rules ?pass)"
    if "map_of RATE_LIMITS operation' = Some rules" "operation' \<noteq> operation \<or> client_ip req \<noteq> ip" for operation' body rules
    unfolding limited_def by (intro stable_intros pass enf[OF that])
  consider "dispatch F (Some S) (sv_unicode S) raw req (serve S run dr req' oper) = ?pass"
    | e where "dispatch F (Some S) (sv_unicode S) raw req (serve S run dr req' oper) = raise_exn e"
    | body operation' rules where "map_of RATE_LIMITS operation' = Some rules" "counts F (sv_unicode S) operation' (client_ip req) raw req"
      "dispatch F (Some S) (sv_unicode S) raw req (serve S run dr req' oper) = limited F S (sv_unicode S) req body operation' rules ?pass"
    by (rule dispatch_cases)
  then show ?thesis using no lim pass by cases (auto simp: stable_intros)
qed

text \<open>A request that counts.\<close>

lemma counted_request:
  fixes F :: "'f floats"
  assumes run: "graphql_executor run" and tab: "map_of RATE_LIMITS operation = Some rules" "(lit ''ip'', limit, window) \<in> set rules"
    and ip: "py_text ip" and n: "int n + 1 < 2 ^ 63" and c: "counts F (sv_unicode S) operation ip raw req"
    and win: "window_at (view (w_redis w)) (ip_key operation ip) window n m"
    and d: "dispatch F (Some S) (sv_unicode S) raw req (serve S run dr req' oper) w = (res, w')"
  shows "(passed res \<longrightarrow> int n + 1 \<le> limit \<and> counter (view (w_redis w')) (ip_key operation ip) (n + 1) m) \<and>
    (view (w_redis w') (rl_key (ip_key operation ip)) = view (w_redis w) (rl_key (ip_key operation ip)) \<or>
     counter (view (w_redis w')) (ip_key operation ip) (n + 1) m)"
proof -
  let ?key = "ip_key operation ip" and ?U = "sv_unicode S"
  have rule: "rule_key ?U F operation (client_ip req) email (lit ''ip'', limit, window) = Some ?key" for email :: "'f json"
    using c by (simp add: rule_key_def counts_def)
  have key: "py_text ?key" using ip table_operation(2)[OF tab(1)] by (simp add: ip_key_def)
  have w: "0 < window" using table_rules(2)[OF tab(1)] tab(2) by auto
  let ?pass = "bnd (serve S run dr req' oper) (\<lambda>x. ret (Passed x))"
  obtain body where "dispatch F (Some S) ?U raw req (serve S run dr req' oper) = limited F S ?U req body operation rules ?pass"
    by (rule counted_limited[OF c tab(1)])
  then have l: "limited F S ?U req body operation rules ?pass w = (res, w')" using d by simp
  have "snd ((if operation \<in> EMAIL_OPS then lift_res (extract_email F body) else ret JNull) w) = w"
    by (cases "extract_email F body") (auto simp: lift_res_def ret_def raise_exn_def)
  then obtain em where em: "(if operation \<in> EMAIL_OPS then lift_res (extract_email F body) else ret JNull) w = (em, w)"
    by (metis prod.collapse)
  show ?thesis
  proof (cases em)
    case (Inl e)
    then show ?thesis using l em by (auto simp: limited_def bnd_def passed_def)
  next
    case (Inr email)
    obtain out r1 where e: "enforce ?U F (sv_exec S) operation (client_ip req) email rules (w_redis w) = (out, r1)" by fastforce
    note ec = enforce_counts[OF key w n e tab(2) rule table_rules(1)[OF tab(1)] win]
    show ?thesis
    proof (cases "out = Inr None")
      case True
      obtain y w2 where s: "serve S run dr req' oper (w\<lparr>w_redis := r1\<rparr>) = (Inr y, w2)"
        using serve_key(2)[OF run rl_key_foreign] by blast
      have "wkey_at view (rl_key ?key) (view r1 (rl_key ?key)) w2"
        by (rule stableD[OF serve_key(1)[OF run rl_key_foreign] _ s]) (simp add: wkey_at_def key_at_def)
      moreover have "w' = w2" using l em Inr e s True by (simp add: limited_def bnd_def on_redis_def ret_def)
      ultimately show ?thesis using ec True by (simp add: wkey_at_def key_at_def counter_def)
    next
      case False
      then have "w' = w\<lparr>w_redis := r1\<rparr>" "\<not> passed res"
        using l em Inr e by (auto simp: limited_def bnd_def on_redis_def ret_def passed_def split: sum.splits option.splits)
      then show ?thesis using ec by simp
    qed
  qed
qed

text \<open>Within a window: every request that passes is counted, and the count stays within the limit.\<close>

lemma seq_bound:
  fixes F :: "'f floats"
  assumes run: "graphql_executor run" and tab: "map_of RATE_LIMITS operation = Some rules" "(lit ''ip'', limit, window) \<in> set rules"
    and ip: "py_text ip"
  shows "window_at (view (w_redis w)) (ip_key operation ip) window n m \<Longrightarrow>
    sum_list (map ar_wait as) < m \<Longrightarrow> int n + int (length as) < 2 ^ 63 \<Longrightarrow>
    int n + int (length (filter (\<lambda>(a, res). counts F (sv_unicode S) operation ip (ar_raw a) (ar_request a) \<and> passed res)
      (zip as (fst (http_seq F S elapse run as w))))) \<le> max (int n) limit"
proof (induction as arbitrary: w n m)
  case (Cons a as)
  let ?key = "ip_key operation ip" and ?w = "w\<lparr>w_redis := elapse (ar_wait a) (w_redis w)\<rparr>"
  let ?c = "\<lambda>a. counts F (sv_unicode S) operation ip (ar_raw a) (ar_request a)"
  let ?n = "\<lambda>w. int (length (filter (\<lambda>(a, res). ?c a \<and> passed res) (zip as (fst (http_seq F S elapse run as w)))))"
  obtain m' where win: "window_at (view (w_redis ?w)) ?key window n m'" and m': "sum_list (map ar_wait as) < m'"
    using window_ages[OF Cons.prems(1), of "ar_wait a" "sum_list (map ar_wait as)"] Cons.prems(2) by (auto simp: view_elapse)
  obtain res w1 where d: "dispatch F (Some S) (sv_unicode S) (ar_raw a) (ar_request a)
      (serve S run (ar_draws a) (ar_request a) (ar_operation a)) ?w = (res, w1)" by fastforce
  have IH: "window_at (view (w_redis w1)) ?key window k m' \<Longrightarrow> k \<le> n + 1 \<Longrightarrow> int k + ?n w1 \<le> max (int k) limit" for k
    using Cons.IH[OF _ m', of w1 k] Cons.prems(3) by simp
  have goal: "int (length (filter (\<lambda>(a, res). ?c a \<and> passed res) (zip (a # as) (fst (http_seq F S elapse run (a # as) w))))) =
      (if ?c a \<and> passed res then 1 else 0) + ?n w1"
    using d by (simp split: prod.split)
  have same: "view (w_redis w1) (rl_key ?key) = view (w_redis ?w) (rl_key ?key) \<Longrightarrow> int n + ?n w1 \<le> max (int n) limit"
    using IH[of n] win window_at_same[of "view (w_redis w1)" ?key "view (w_redis ?w)"] by simp
  have one: "counter (view (w_redis w1)) ?key (n + 1) m' \<Longrightarrow> int n + 1 + ?n w1 \<le> max (int n + 1) limit"
    using IH[of "n + 1"] win by (auto simp: window_at_def)
  show ?case
  proof (cases "?c a")
    case True
    have n: "int n + 1 < 2 ^ 63" using Cons.prems(3) by simp
    from counted_request[OF run tab ip n True win d] same one show ?thesis unfolding goal by auto
  next
    case False
    have "wkey_at view (rl_key ?key) (view (w_redis ?w) (rl_key ?key)) w1"
      by (rule stableD[OF other_request[OF run table_operation(1)[OF tab(1)] False] _ d]) (simp add: wkey_at_def key_at_def)
    then show ?thesis using same False unfolding goal by (simp add: wkey_at_def key_at_def)
  qed
qed simp

end

section \<open>The bound\<close>

text \<open>
  Claim C4. Rate limits hold end to end. Take any sequence of requests, with any time between
  them, served by the middleware and the resolvers behind it, whatever the documents turn
  out to execute: of the requests within one window that the middleware takes for an operation and
  that come from one address, at most as many reach the application as the limit of that
  operation allows, however many other requests are mixed in.
\<close>

theorem attempts_bounded:
  fixes F :: "'f floats"
  assumes "auth_service S view elapse dview text_ok inet_ok" and "graphql_executor run"
    and "map_of RATE_LIMITS operation = Some rules" and "(lit ''ip'', limit, window) \<in> set rules" and "py_text ip"
    and "view (w_redis w) (rl_key (ip_key operation ip)) = None"
    and "sum_list (map ar_wait as) < 1000 * nat window" and "length as < 2 ^ 62"
  shows "int (length (filter (\<lambda>(a, res). counts F (sv_unicode S) operation ip (ar_raw a) (ar_request a) \<and> passed res)
    (zip as (fst (http_seq F S elapse run as w))))) \<le> limit"
proof -
  have "0 \<le> limit" using assms(3,4) by (auto simp: RATE_LIMITS_def lit_def split: if_splits)
  moreover have "window_at (view (w_redis w)) (ip_key operation ip) window 0 (ms window)" using assms(6) by (simp add: window_at_def)
  moreover have "int 0 + int (length as) < 2 ^ 63" using assms(8) by simp
  ultimately show ?thesis
    using auth_service.seq_bound[OF assms(1-5), where n = 0 and m = "ms window" and as = as and w = w and F = F] assms(7)
    by (simp add: ms_def)
qed

text \<open>A hundred logins from one client within ten seconds.\<close>

definition flood :: "arrival list" where
  "flood = replicate 100
     \<lparr>ar_wait = 100, ar_raw = login_request, ar_request = anonymous_request, ar_draws = demo_draws, ar_operation = Me\<rparr>"

theorem attempts_bounded_witness:
  "list_all (\<lambda>a. counts ref_floats latin_unicode (lit ''login'') (lit ''unknown'') (ar_raw a) (ar_request a)) flood \<and>
   length (filter (\<lambda>(a, res). counts ref_floats latin_unicode (lit ''login'') (lit ''unknown'') (ar_raw a) (ar_request a) \<and> passed res)
     (zip flood (fst (http_seq ref_floats ref_service ref_elapse plain_executor flood empty_world)))) \<le> 5"
proof -
  have "json_ok (body_of open_login)" by (simp add: body_of_def open_login_def lit_def high_surrogate_def)
  then have "loads_body ref_floats (rr_body login_request) = Inr (body_of open_login)"
    using loads_dumped_body[OF ref_floats_ok] by (simp add: login_request_def)
  moreover have "client_ip anonymous_request = lit ''unknown''"
    by (simp add: client_ip_def anonymous_request_def py_or_def lit_def)
  ultimately have c: "counts ref_floats latin_unicode (lit ''login'') (lit ''unknown'') login_request anonymous_request"
    using extract_first[OF open_selects] by (simp add: counts_def login_request_def)
  have t: "map_of RATE_LIMITS (lit ''login'') = Some [(lit ''ip'', 5, 60), (lit ''email'', 10, 900)]" by (simp add: RATE_LIMITS_def)
  have "sum_list (map ar_wait flood) = 10000" by (simp add: flood_def sum_list_replicate)
  moreover have "length flood < 2 ^ 62" by (simp add: flood_def)
  ultimately have "int (length (filter (\<lambda>(a, res). counts ref_floats (sv_unicode ref_service) (lit ''login'') (lit ''unknown'') (ar_raw a) (ar_request a) \<and> passed res)
     (zip flood (fst (http_seq ref_floats ref_service ref_elapse plain_executor flood empty_world))))) \<le> 5"
    by (intro attempts_bounded[OF refsvc.auth_service_axioms plain_executor_ok t, where window = 60])
      (simp_all add: empty_world_def ref_view_def)
  then show ?thesis using c by (simp add: flood_def list_all_iff)
qed

end
