(* ===== verification/Application.thy ===== *)
theory Application
  imports RateBound
begin

text \<open>
  The whole stack of a request: the middleware, the context getter with its transaction, the
  schema with its extension, the resolver. The GraphQL library between them is a parameter:
  it hands a parsed document and its variables to the extension, turns the outcome of a
  resolver into a result, and makes an exception that leaves a hook an error of the result.
  Shown: a retry under an idempotency key has no effect, whatever happened in between.
\<close>

section \<open>The stack\<close>

record 'f engine =
  en_render :: "definition_node list option \<Rightarrow> gql_value response \<Rightarrow> 'f execution_result"
  en_error :: "exn \<Rightarrow> 'f execution_result"

text \<open>What the library documents: errors of resolvers and hooks are listed in the result.\<close>

definition engine_ok :: "'f engine \<Rightarrow> bool" where
  "engine_ok E \<longleftrightarrow> (\<forall>doc e. er_errors (en_render E doc (Errors e)) \<noteq> []) \<and> (\<forall>e. er_errors (en_error E e) \<noteq> [])"

record 'f call =
  ca_raw :: raw_request
  ca_request :: http_request
  ca_document :: "definition_node list option"
  ca_variables :: "(pystr \<times> 'f json) list option"
  ca_draws :: draws
  ca_operation :: operation

text \<open>\<open>schema\<close>: the extension around the execution of the operation.\<close>

definition schema_execute ::
  "'f floats \<Rightarrow> 'f engine \<Rightarrow> (('r, 'd) world, gql_value) executor \<Rightarrow> ('r, 'd) service \<Rightarrow> 'f call \<Rightarrow>
   (('r, 'd) world, 'f execution_result) act" where
  "schema_execute F E run S c =
     catch
       (on_execute F (resolve_store None (Some (sc_idempotency_store (new_RequestScope S)))) (Some (ca_request c))
          (ca_document c) (ca_variables c)
          (bnd (run (resolve S (ca_draws c) (ca_request c) (ca_operation c))) (\<lambda>resp. ret (en_render E (ca_document c) resp))))
       (\<lambda>e. ret (en_error E e))"

text \<open>The router: the scope of \<open>get_context\<close> is open while the schema executes.\<close>

definition graphql_app ::
  "'f floats \<Rightarrow> 'f engine \<Rightarrow> (('r, 'd) world, gql_value) executor \<Rightarrow> ('r, 'd) service option \<Rightarrow> 'f call \<Rightarrow>
   (('r, 'd) world, 'f execution_result) act" where
  "graphql_app F E run g c =
     (case get_global_container g of
        Inl e \<Rightarrow> raise_exn e
      | Inr S \<Rightarrow> request_scope S (schema_execute F E run S c))"

definition post_graphql ::
  "'f floats \<Rightarrow> 'f engine \<Rightarrow> (('r, 'd) world, gql_value) executor \<Rightarrow> ('r, 'd) service option \<Rightarrow> unicode \<Rightarrow> 'f call \<Rightarrow>
   (('r, 'd) world, 'f execution_result http_response) act" where
  "post_graphql F E run g U c = dispatch F g U (ca_raw c) (ca_request c) (graphql_app F E run g c)"

fun post_all ::
  "'f floats \<Rightarrow> 'f engine \<Rightarrow> (('r, 'd) world, gql_value) executor \<Rightarrow> ('r, 'd) service \<Rightarrow> (nat \<Rightarrow> 'r \<Rightarrow> 'r) \<Rightarrow>
   (nat \<times> 'f call) list \<Rightarrow> ('r, 'd) world \<Rightarrow> ('r, 'd) world" where
  "post_all F E run S elapse [] w = w"
| "post_all F E run S elapse ((d, c) # cs) w =
     post_all F E run S elapse cs
       (snd (post_graphql F E run (Some S) (sv_unicode S) c (w\<lparr>w_redis := elapse d (w_redis w)\<rparr>)))"

section \<open>Keys the stack leaves alone\<close>

definition uses_key :: "pystr \<Rightarrow> pystr \<Rightarrow> 'f call \<Rightarrow> bool" where
  "uses_key op k c \<longleftrightarrow>
     get_mutation_field_name (ca_document c) = Some op \<and> hr_idempotency_key (ca_request c) = Some k"

definition limiter_key :: "pystr \<Rightarrow> bool" where
  "limiter_key k \<longleftrightarrow> py_startswith k (lit ''rl:'')"

lemma idempotent_no_colon: "op \<in> IDEMPOTENT_OPERATIONS \<Longrightarrow> 58 \<notin> set op"
  by (auto simp: IDEMPOTENT_OPERATIONS_def lit_def)

lemma idem_key_eq:
  assumes "op \<in> IDEMPOTENT_OPERATIONS" and "op' \<in> IDEMPOTENT_OPERATIONS"
  shows "idem_key op k = idem_key op' k' \<longleftrightarrow> op = op' \<and> k = k'"
  using split_first[OF assms[THEN idempotent_no_colon], of k k'] by (auto simp: idem_key_def lit_def)

lemma idem_key_no_limit [simp]: "\<not> limiter_key (idem_key op k)"
  by (simp add: limiter_key_def idem_key_def py_startswith_def lit_def)

lemma rl_key_limiter [simp]: "limiter_key (rl_key key)"
  by (auto simp: limiter_key_def rl_key_def startswith_iff)

context redis_server
begin

lemma idem_key_at:
  assumes "k \<noteq> key"
  shows "stable (key_at view k x) (idem_get F exec key)" and "stable (key_at view k x) (idem_set F exec key v ttl)"
  unfolding idem_get_def idem_set_def
  by (auto intro!: stable_intros call_key simp: assms split: redis_reply.split)

lemma limiter_key_at:
  assumes "\<not> limiter_key k"
  shows "stable (key_at view k x) (enforce U F exec operation ip email rules)"
proof -
  have k: "k \<noteq> rl_key key" for key using assms by auto
  have check: "stable (key_at view k x) (check exec key limit window)" for key limit window
    unfolding check_def check_count_def by (auto intro!: stable_intros call_key simp: k split: redis_reply.split)
  have "stable (key_at view k x) (check_rule U F exec operation ip email rule)" for rule
    by (cases rule) (auto simp: check_rule_def check_ip_def check_email_def intro!: stable_intros check split: json.split)
  then show ?thesis by (induction rules) (auto intro!: stable_intros split: exn.split)
qed

text \<open>The extension touches only its own record.\<close>

lemma on_execute_key:
  assumes "op \<in> IDEMPOTENT_OPERATIONS" and "stable (wkey_at view (idem_key op k) x) execute"
    and "\<not> (get_mutation_field_name doc = Some op \<and> hr_idempotency_key req = Some k)"
  shows "stable (wkey_at view (idem_key op k) x) (on_execute F (Some exec) (Some req) doc vs execute)"
proof (cases "\<exists>op' k'. get_mutation_field_name doc = Some op' \<and> op' \<in> IDEMPOTENT_OPERATIONS \<and> hr_idempotency_key req = Some k' \<and> k' \<noteq> []")
  case True
  then obtain op' k' where o: "get_mutation_field_name doc = Some op'" "op' \<in> IDEMPOTENT_OPERATIONS" "hr_idempotency_key req = Some k'" "k' \<noteq> []"
    by blast
  have "idem_key op k \<noteq> idem_key op' k'" using idem_key_eq[OF assms(1) o(2)] assms(3) o(1,3) by auto
  then show ?thesis unfolding on_execute_def Let_def using o
    by (auto intro!: stable_intros assms(2) idem_key_at)
next
  case False
  then have "on_execute F (Some exec) (Some req) doc vs execute = execute"
    by (cases "hr_idempotency_key req") (auto simp: on_execute_def split: option.split)
  then show ?thesis using assms(2) by simp
qed

end

text \<open>A middleware that lets a request through has changed counters at most.\<close>

lemma dispatch_key:
  assumes "redis_server (sv_exec S) view elapse" and "\<not> limiter_key k" and "stable (wkey_at view k x) call_next"
  shows "stable (wkey_at view k x) (dispatch F (Some S) U raw req call_next)"
proof -
  note enf = redis_server.limiter_key_at[OF assms(1,2)]
  have lim: "stable (wkey_at view k x) (limited F S U req body operation rules (bnd call_next (\<lambda>x. ret (Passed x))))"
    for body operation rules
    unfolding limited_def by (intro stable_intros assms(3) enf)
  show ?thesis
    by (rule dispatch_cases[of F S U raw req call_next]) (simp_all add: lim stable_intros assms(3))
qed

lemma limited_outcome:
  assumes "redis_server (sv_exec S) view elapse" and "limited F S U req body operation rules pass w = (res, w')"
  obtains r where "\<forall>k. \<not> limiter_key k \<longrightarrow> view r k = view (w_redis w) k"
    "pass (w\<lparr>w_redis := r\<rparr>) = (res, w') \<or> (\<forall>x. res \<noteq> Inr (Passed x)) \<and> w' = w\<lparr>w_redis := r\<rparr>"
proof -
  let ?em = "if operation \<in> EMAIL_OPS then lift_res (extract_email F body) else ret JNull"
  have "snd (?em w) = w" by (cases "extract_email F body") (auto simp: lift_res_def ret_def raise_exn_def)
  then obtain em where em: "?em w = (em, w)" by (metis prod.collapse)
  show thesis
  proof (cases em)
    case (Inl e)
    then show thesis using that[of "w_redis w"] assms(2) em by (auto simp: limited_def bnd_def)
  next
    case (Inr email)
    obtain out r where e: "enforce U F (sv_exec S) operation (client_ip req) email rules (w_redis w) = (out, r)" by fastforce
    have v: "view r k = view (w_redis w) k" if "\<not> limiter_key k" for k
      using stableD[OF redis_server.limiter_key_at[OF assms(1) that] _ e, of "view (w_redis w) k"] by (simp add: key_at_def)
    have p: "out = Inr None \<Longrightarrow> pass (w\<lparr>w_redis := r\<rparr>) = (res, w')"
      using assms(2) em Inr e by (simp add: limited_def bnd_def on_redis_def)
    have q: "out \<noteq> Inr None \<Longrightarrow> (\<forall>x. res \<noteq> Inr (Passed x)) \<and> w' = w\<lparr>w_redis := r\<rparr>"
      using assms(2) em Inr e by (auto simp: limited_def bnd_def on_redis_def ret_def split: sum.splits option.splits)
    show thesis by (intro that[of r]) (use v p q in blast)+
  qed
qed

lemma dispatch_outcome:
  assumes "redis_server (sv_exec S) view elapse" and "dispatch F (Some S) U raw req call_next w = (res, w')"
  obtains r where "\<forall>k. \<not> limiter_key k \<longrightarrow> view r k = view (w_redis w) k"
    "(case call_next (w\<lparr>w_redis := r\<rparr>) of
        (Inr x, w1) \<Rightarrow> res = Inr (Passed x) \<and> w' = w1
      | (Inl e, w1) \<Rightarrow> res = Inl e \<and> w' = w1) \<or> (\<forall>x. res \<noteq> Inr (Passed x)) \<and> w' = w\<lparr>w_redis := r\<rparr>"
proof -
  let ?pass = "bnd call_next (\<lambda>x. ret (Passed x))"
  obtain r where r: "\<forall>k. \<not> limiter_key k \<longrightarrow> view r k = view (w_redis w) k"
      "?pass (w\<lparr>w_redis := r\<rparr>) = (res, w') \<or> (\<forall>x. res \<noteq> Inr (Passed x)) \<and> w' = w\<lparr>w_redis := r\<rparr>"
  proof (rule dispatch_cases[of F S U raw req call_next])
    assume "dispatch F (Some S) U raw req call_next = ?pass"
    then show thesis using that[of "w_redis w"] assms(2) by simp
  next
    fix e
    assume "dispatch F (Some S) U raw req call_next = raise_exn e"
    then show thesis using that[of "w_redis w"] assms(2) by (auto simp: raise_exn_def)
  next
    fix body operation rules
    assume "dispatch F (Some S) U raw req call_next = limited F S U req body operation rules ?pass"
    then show thesis using limited_outcome[OF assms(1), of F U req body operation rules ?pass w res w'] that assms(2) by metis
  qed
  from r(2) show thesis
    by (intro that[OF r(1)]) (auto simp: bnd_def ret_def split: prod.splits sum.splits)
qed

context auth_service
begin

text \<open>The scope around an execution that always answers.\<close>

lemma scope_run:
  obtains d0 where "dview d0 = (dview (w_db w))\<lparr>working := committed (dview (w_db w)), active := True\<rparr>"
    "\<And>(body :: (('r, 'd) world, 'x) act) x w1. body (w\<lparr>w_db := d0\<rparr>) = (Inr x, w1) \<Longrightarrow>
       \<exists>d. request_scope S body w = (Inr x, w1\<lparr>w_db := d\<rparr>) \<and>
         dview d = (if active (dview (w_db w1)) then (dview (w_db w1))\<lparr>committed := working (dview (w_db w1))\<rparr> else dead (dview (w_db w1)))"
proof -
  obtain d0 where b: "flush (sv_sql S) BeginTransaction (w_db w) = (Inr (), d0)"
      "dview d0 = (dview (w_db w))\<lparr>working := committed (dview (w_db w)), active := True\<rparr>"
    by (rule begin_run)
  show thesis
  proof (rule that[OF b(2)])
    fix body :: "(('r, 'd) world, 'x) act" and x and w1 :: "('r, 'd) world"
    assume r: "body (w\<lparr>w_db := d0\<rparr>) = (Inr x, w1)"
    obtain d where "flush (sv_sql S) CommitTransaction (w_db w1) = (Inr (), d)"
      "dview d = (if active (dview (w_db w1)) then (dview (w_db w1))\<lparr>committed := working (dview (w_db w1))\<rparr> else dead (dview (w_db w1)))"
      by (rule commit_run)
    then show "\<exists>d. request_scope S body w = (Inr x, w1\<lparr>w_db := d\<rparr>) \<and>
         dview d = (if active (dview (w_db w1)) then (dview (w_db w1))\<lparr>committed := working (dview (w_db w1))\<rparr> else dead (dview (w_db w1)))"
      using r by (auto simp: request_scope_def on_db_run b(1) ret_def)
  qed
qed

lemma schema_total: "\<exists>x w'. schema_execute F E run S c w = (Inr x, w')"
  by (auto simp: schema_execute_def catch_def ret_def split: prod.split sum.split)

lemma app_run:
  obtains d0 x w1 d where "dview d0 = (dview (w_db w))\<lparr>working := committed (dview (w_db w)), active := True\<rparr>"
    "schema_execute F E run S c (w\<lparr>w_db := d0\<rparr>) = (Inr x, w1)" "graphql_app F E run (Some S) c w = (Inr x, w1\<lparr>w_db := d\<rparr>)"
    "dview d = (if active (dview (w_db w1)) then (dview (w_db w1))\<lparr>committed := working (dview (w_db w1))\<rparr> else dead (dview (w_db w1)))"
proof -
  obtain d0 where d0: "dview d0 = (dview (w_db w))\<lparr>working := committed (dview (w_db w)), active := True\<rparr>"
    "\<And>(body :: (('r, 'd) world, 'a execution_result) act) x w1. body (w\<lparr>w_db := d0\<rparr>) = (Inr x, w1) \<Longrightarrow>
       \<exists>d. request_scope S body w = (Inr x, w1\<lparr>w_db := d\<rparr>) \<and>
         dview d = (if active (dview (w_db w1)) then (dview (w_db w1))\<lparr>committed := working (dview (w_db w1))\<rparr> else dead (dview (w_db w1)))"
    by (rule scope_run[of w]) blast
  obtain x w1 where s: "schema_execute F E run S c (w\<lparr>w_db := d0\<rparr>) = (Inr x, w1)" using schema_total by blast
  from d0(2)[of "schema_execute F E run S c", OF s] show thesis
    using that[OF d0(1) s] by (auto simp: graphql_app_def get_global_container_def)
qed

lemma execution_run:
  assumes "graphql_executor run"
  obtains resp w' where "bnd (run (resolve S dr req oper)) (\<lambda>resp. ret (en_render E doc resp)) w = (Inr (en_render E doc resp), w')"
    "resolve S dr req oper w = ((case resp of Data x \<Rightarrow> Inr x | Errors e \<Rightarrow> Inl e), w')"
proof -
  obtain out w' where r: "resolve S dr req oper w = (out, w')" by fastforce
  have "run (resolve S dr req oper) w = (Inr (case out of Inr x \<Rightarrow> Data x | Inl e \<Rightarrow> Errors e), w')"
    using assms r by (simp add: graphql_executor_def split: sum.split)
  then show thesis using that[of "case out of Inr x \<Rightarrow> Data x | Inl e \<Rightarrow> Errors e" w'] r
    by (cases out) (simp_all add: bnd_def ret_def)
qed

lemma execution_key:
  assumes "graphql_executor run" and "\<not> store_key k"
  shows "stable (wkey_at view k x) (bnd (run (resolve S dr req oper)) (\<lambda>resp. ret (en_render E doc resp)))"
proof -
  have "wkey_at view k x w'" if "wkey_at view k x w"
    "bnd (run (resolve S dr req oper)) (\<lambda>resp. ret (en_render E doc resp)) w = (res, w')" for w res w'
    using that execution_run[OF assms(1), of dr req oper E doc w] stableD[OF resolvers_key[OF assms(2)] that(1)] by (metis prod.inject)
  then show ?thesis by (auto simp: stable_def triple_def split: prod.splits sum.splits)
qed

text \<open>A request without the key leaves the record alone.\<close>

lemma post_key:
  assumes "graphql_executor run" and "op \<in> IDEMPOTENT_OPERATIONS" and "\<not> uses_key op k c"
  shows "stable (wkey_at view (idem_key op k) x) (post_graphql F E run (Some S) (sv_unicode S) c)"
proof -
  have s: "stable (wkey_at view (idem_key op k) x) (schema_execute F E run S c)"
    unfolding schema_execute_def resolve_store_def using assms(3)
    by (auto simp: uses_key_def intro!: stable_intros on_execute_key[OF assms(2)] execution_key[OF assms(1)])
  have "wkey_at view (idem_key op k) x w'" if a: "wkey_at view (idem_key op k) x w" "graphql_app F E run (Some S) c w = (res, w')" for w res w'
  proof -
    obtain d0 y w1 d where r: "schema_execute F E run S c (w\<lparr>w_db := d0\<rparr>) = (Inr y, w1)"
        "graphql_app F E run (Some S) c w = (Inr y, w1\<lparr>w_db := d\<rparr>)"
      by (rule app_run[of w F E run c]) blast
    have "wkey_at view (idem_key op k) x w1" by (rule stableD[OF s _ r(1)]) (use a(1) in \<open>simp add: wkey_at_def\<close>)
    then show ?thesis using a(2) r(2) by (auto simp: wkey_at_def)
  qed
  then have "stable (wkey_at view (idem_key op k) x) (graphql_app F E run (Some S) c)"
    by (auto simp: stable_def triple_def split: prod.splits sum.splits)
  then show ?thesis unfolding post_graphql_def
    by (intro dispatch_key[where elapse = elapse] redis_server_axioms) simp_all
qed

text \<open>The first request with the key, when it succeeds, leaves its record.\<close>

lemma first_app:
  fixes c :: "'f call"
  assumes run: "graphql_executor run" and E: "engine_ok E" and F: "floats_ok F"
    and key: "keyed op k (ca_request c) (ca_document c)" and miss: "view (w_redis w) (idem_key op k) = None"
    and app: "graphql_app F E run (Some S) c w = (Inr res, w1)" and res: "er_errors res = []" "er_data res \<noteq> JNull"
    and h: "request_hash F op (ca_variables c) = Inr h"
  shows "view (w_redis w1) (idem_key op k) = Some (RStr (json_dumps F (idem_record h (er_data res))), Some 86400000)"
proof -
  let ?ex = "bnd (run (resolve S (ca_draws c) (ca_request c) (ca_operation c))) (\<lambda>resp. ret (en_render E (ca_document c) resp))"
  let ?on = "on_execute F (Some (sv_exec S)) (Some (ca_request c)) (ca_document c) (ca_variables c) ?ex"
  obtain d0 w2 d where s: "schema_execute F E run S c (w\<lparr>w_db := d0\<rparr>) = (Inr res, w2)" "w1 = w2\<lparr>w_db := d\<rparr>"
    by (rule app_run[of w F E run c]) (use app in auto)
  let ?w = "w\<lparr>w_db := d0\<rparr>"
  have on: "?on ?w = (Inr res, w2)"
    using s(1) E res(1) by (auto simp: schema_execute_def resolve_store_def catch_def ret_def engine_ok_def split: prod.splits sum.splits)
  obtain resp w0 where ex: "?ex (?w\<lparr>w_redis := snd (idem_get F (sv_exec S) (idem_key op k) (w_redis ?w))\<rparr>) = (Inr (en_render E (ca_document c) resp), w0)"
    by (rule execution_run[OF run])
  let ?res = "en_render E (ca_document c) resp"
  have key': "py_text (idem_key op k)" using key by (simp add: keyed_def token_text_def)
  obtain r where g: "idem_get F (sv_exec S) (idem_key op k) (w_redis w) = (Inr JNull, r)" by (rule idem_get_miss[OF miss key'])
  have ok: "er_errors ?res = [] \<and> er_data ?res \<noteq> JNull"
  proof (rule ccontr)
    assume "\<not> (er_errors ?res = [] \<and> er_data ?res \<noteq> JNull)"
    then have "?on ?w = (Inr ?res, w0)" using ex g by (auto simp: on_execute_keyed[OF key h] on_redis_run ret_def)
    then have "res = ?res" using on by simp
    then show False using res \<open>\<not> (er_errors ?res = [] \<and> er_data ?res \<noteq> JNull)\<close> by simp
  qed
  have miss': "view (w_redis ?w) (idem_key op k) = None" using miss by simp
  obtain r2 where r2: "?on ?w = (Inr ?res, w0\<lparr>w_redis := r2\<rparr>)"
      "view r2 = (view (w_redis w0))(idem_key op k \<mapsto> (RStr (json_dumps F (idem_record h (er_data ?res))), Some 86400000))"
    by (rule first_request[where execute = ?ex and w = ?w, OF key F miss' ex conjunct1[OF ok] conjunct2[OF ok] h])
  then show ?thesis using on s(2) by auto
qed

text \<open>A request with a new key whose resolver answers is answered.\<close>

lemma app_answers:
  fixes c :: "'f call"
  assumes run: "graphql_executor run" and F: "floats_ok F"
    and key: "keyed op k (ca_request c) (ca_document c)" and miss: "view (w_redis w) (idem_key op k) = None"
    and res: "\<And>w'. fst (resolve S (ca_draws c) (ca_request c) (ca_operation c) w') = Inr v"
    and data: "en_render E (ca_document c) (Data v) = \<lparr>er_data = x, er_errors = []\<rparr>" "x \<noteq> JNull"
  shows "\<exists>w1. graphql_app F E run (Some S) c w = (Inr \<lparr>er_data = x, er_errors = []\<rparr>, w1)"
proof -
  let ?ex = "bnd (run (resolve S (ca_draws c) (ca_request c) (ca_operation c))) (\<lambda>resp. ret (en_render E (ca_document c) resp))"
  have op: "op \<in> IDEMPOTENT_OPERATIONS" using key by (simp add: keyed_def)
  obtain t where h: "request_hash F op (ca_variables c) = Inr (sha256_hex t)" using request_hash_total[OF F op] by blast
  obtain d0 y w2 d where s: "schema_execute F E run S c (w\<lparr>w_db := d0\<rparr>) = (Inr y, w2)" "graphql_app F E run (Some S) c w = (Inr y, w2\<lparr>w_db := d\<rparr>)"
    by (rule app_run[of w F E run c]) blast
  let ?w = "w\<lparr>w_db := d0\<rparr>"
  obtain resp w0 where ex: "?ex (?w\<lparr>w_redis := snd (idem_get F (sv_exec S) (idem_key op k) (w_redis ?w))\<rparr>) = (Inr (en_render E (ca_document c) resp), w0)"
      "resolve S (ca_draws c) (ca_request c) (ca_operation c) (?w\<lparr>w_redis := snd (idem_get F (sv_exec S) (idem_key op k) (w_redis ?w))\<rparr>) =
        ((case resp of Data x \<Rightarrow> Inr x | Errors e \<Rightarrow> Inl e), w0)"
    by (rule execution_run[OF run])
  have "resp = Data v" using ex(2) res[of "?w\<lparr>w_redis := snd (idem_get F (sv_exec S) (idem_key op k) (w_redis ?w))\<rparr>"] by (cases resp) auto
  then have ex': "?ex (?w\<lparr>w_redis := snd (idem_get F (sv_exec S) (idem_key op k) (w_redis ?w))\<rparr>) = (Inr \<lparr>er_data = x, er_errors = []\<rparr>, w0)"
    using ex(1) data(1) by simp
  have miss': "view (w_redis ?w) (idem_key op k) = None" using miss by simp
  obtain r where "on_execute F (Some (sv_exec S)) (Some (ca_request c)) (ca_document c) (ca_variables c) ?ex ?w =
      (Inr \<lparr>er_data = x, er_errors = []\<rparr>, w0\<lparr>w_redis := r\<rparr>)"
    by (rule first_request[where execute = ?ex and w = ?w, OF key F miss' ex' _ _ h]) (simp_all add: data(2))
  then have "y = \<lparr>er_data = x, er_errors = []\<rparr>" using s(1) by (simp add: schema_execute_def resolve_store_def catch_def)
  then show ?thesis using s(2) by blast
qed

text \<open>A request that finds a record of its own hash is answered from it, and nothing changes.\<close>

lemma retry_app:
  fixes c :: "'f call"
  assumes F: "floats_ok F" and key: "keyed op k (ca_request c) (ca_document c)"
    and rec: "view (w_redis w) (idem_key op k) = Some (RStr (json_dumps F (idem_record (sha256_hex t) data)), e)" and ok: "json_ok data"
    and h: "request_hash F op (ca_variables c) = Inr (sha256_hex t)"
    and app: "graphql_app F E run (Some S) c w = (res, w1)"
  shows "res = Inr \<lparr>er_data = data, er_errors = []\<rparr> \<and> view (w_redis w1) = view (w_redis w) \<and>
    committed (dview (w_db w1)) = committed (dview (w_db w)) \<and> w_outbox w1 = w_outbox w"
proof -
  let ?ex = "bnd (run (resolve S (ca_draws c) (ca_request c) (ca_operation c))) (\<lambda>resp. ret (en_render E (ca_document c) resp))"
  obtain d0 x w2 d where s: "dview d0 = (dview (w_db w))\<lparr>working := committed (dview (w_db w)), active := True\<rparr>"
      "schema_execute F E run S c (w\<lparr>w_db := d0\<rparr>) = (Inr x, w2)" "graphql_app F E run (Some S) c w = (Inr x, w2\<lparr>w_db := d\<rparr>)"
      "dview d = (if active (dview (w_db w2)) then (dview (w_db w2))\<lparr>committed := working (dview (w_db w2))\<rparr> else dead (dview (w_db w2)))"
    by (rule app_run[of w F E run c])
  let ?w = "w\<lparr>w_db := d0\<rparr>"
  have rec': "view (w_redis ?w) (idem_key op k) = Some (RStr (json_dumps F (idem_record (sha256_hex t) data)), e)" using rec by simp
  obtain r where r: "on_execute F (Some (sv_exec S)) (Some (ca_request c)) (ca_document c) (ca_variables c) ?ex ?w =
      (Inr (if sha256_hex t = sha256_hex t then \<lparr>er_data = data, er_errors = []\<rparr> else \<lparr>er_data = JNull, er_errors = [conflict]\<rparr>),
       ?w\<lparr>w_redis := r\<rparr>)" "view r = view (w_redis ?w)"
    by (rule later_request[where execute = ?ex and w = ?w, OF key F rec' ok h])
  then have "x = \<lparr>er_data = data, er_errors = []\<rparr>" "w2 = ?w\<lparr>w_redis := r\<rparr>"
    using s(2) by (auto simp: schema_execute_def resolve_store_def catch_def ret_def)
  then show ?thesis using s app r(2) by auto
qed

text \<open>Requests without the key, within the life of the record, only age it.\<close>

lemma post_all_key:
  assumes "graphql_executor run" and "op \<in> IDEMPOTENT_OPERATIONS"
  shows "\<forall>(d, c)\<in>set cs. \<not> uses_key op k c \<Longrightarrow> view (w_redis w) (idem_key op k) = Some (v, Some m) \<Longrightarrow>
    sum_list (map fst cs) < m \<Longrightarrow>
    view (w_redis (post_all F E run S elapse cs w)) (idem_key op k) = Some (v, Some (m - sum_list (map fst cs)))"
proof (induction cs arbitrary: w m)
  case (Cons dc cs)
  obtain d c where dc: "dc = (d, c)" by (cases dc)
  let ?w = "w\<lparr>w_redis := elapse d (w_redis w)\<rparr>"
  have a: "view (w_redis ?w) (idem_key op k) = Some (v, Some (m - d))"
    using Cons.prems(2,3) dc by (simp add: view_elapse age_def)
  obtain res w1 where p: "post_graphql F E run (Some S) (sv_unicode S) c ?w = (res, w1)" by fastforce
  have "wkey_at view (idem_key op k) (Some (v, Some (m - d))) w1"
    by (rule stableD[OF post_key[OF assms, of k c] _ p]) (use Cons.prems(1) dc a in \<open>auto simp: wkey_at_def key_at_def\<close>)
  then have "view (w_redis w1) (idem_key op k) = Some (v, Some (m - d))" by (simp add: wkey_at_def key_at_def)
  then show ?case using Cons.IH[of w1 "m - d"] Cons.prems dc p by simp
qed simp

end

section \<open>Retries\<close>

text \<open>
  Claim C5. A retry has no effect, end to end. Let a \<open>login\<close> or \<open>requestPasswordReset\<close> under an
  idempotency key pass the middleware and succeed. Let any requests follow that do not use
  the key for the operation, with any waits, for less than a day. Then a request with the
  same key and hash, whatever it would execute: when it passes the middleware it is
  answered with the stored data, and in any case no row is committed, no mail sent, and no
  key of Redis changed but the counters of the limiter; so no second session is opened.
\<close>

theorem retry_has_no_effect:
  fixes F :: "'f floats" and w :: "('r, 'd) world"
  assumes "auth_service S view elapse dview text_ok inet_ok" and "graphql_executor run" and "engine_ok E" and "floats_ok F"
    and "keyed op k (ca_request c) (ca_document c)" and "keyed op k (ca_request c') (ca_document c')"
    and "request_hash F op (ca_variables c') = request_hash F op (ca_variables c)"
    and "view (w_redis w) (idem_key op k) = None"
    and "post_graphql F E run (Some S) (sv_unicode S) c w = (Inr (Passed res), w1)"
    and "er_errors res = []" and "er_data res \<noteq> JNull" and "json_ok (er_data res)"
    and "\<forall>(d, x)\<in>set cs. \<not> uses_key op k x" and "sum_list (map fst cs) < 86400000"
    and "w2 = post_all F E run S elapse cs w1"
    and "post_graphql F E run (Some S) (sv_unicode S) c' w2 = (out, w3)"
  shows "(\<forall>res'. out = Inr (Passed res') \<longrightarrow> res' = \<lparr>er_data = er_data res, er_errors = []\<rparr>) \<and>
    committed (dview (w_db w3)) = committed (dview (w_db w2)) \<and> w_outbox w3 = w_outbox w2 \<and>
    (\<forall>key. \<not> limiter_key key \<longrightarrow> view (w_redis w3) key = view (w_redis w2) key)"
proof -
  note sv = assms(1)
  note rs = redis_sessions.axioms(1)[OF auth_service.server[OF sv]]
  have op: "op \<in> IDEMPOTENT_OPERATIONS" using assms(5) by (simp add: keyed_def)
  obtain t where h: "request_hash F op (ca_variables c) = Inr (sha256_hex t)" using request_hash_total[OF assms(4) op] by blast
  let ?v = "RStr (json_dumps F (idem_record (sha256_hex t) (er_data res)))"
  obtain r where r: "\<forall>k. \<not> limiter_key k \<longrightarrow> view r k = view (w_redis w) k"
      "graphql_app F E run (Some S) c (w\<lparr>w_redis := r\<rparr>) = (Inr res, w1)"
    by (rule dispatch_outcome[OF rs assms(9)[unfolded post_graphql_def]]) (auto split: prod.splits sum.splits)
  have "view (w_redis w1) (idem_key op k) = Some (?v, Some 86400000)"
    by (rule auth_service.first_app[OF sv assms(2-5) _ r(2) assms(10,11) h]) (use r(1) assms(8) in simp)
  then have v2: "view (w_redis w2) (idem_key op k) = Some (?v, Some (86400000 - sum_list (map fst cs)))"
    using auth_service.post_all_key[OF sv assms(2) op assms(13) _ assms(14)] assms(15) by simp
  obtain r' where r': "\<forall>k. \<not> limiter_key k \<longrightarrow> view r' k = view (w_redis w2) k"
      "(case graphql_app F E run (Some S) c' (w2\<lparr>w_redis := r'\<rparr>) of
          (Inr x, w') \<Rightarrow> out = Inr (Passed x) \<and> w3 = w'
        | (Inl e, w') \<Rightarrow> out = Inl e \<and> w3 = w') \<or> (\<forall>x. out \<noteq> Inr (Passed x)) \<and> w3 = w2\<lparr>w_redis := r'\<rparr>"
    by (rule dispatch_outcome[OF rs assms(16)[unfolded post_graphql_def]])
  obtain o' w' where app: "graphql_app F E run (Some S) c' (w2\<lparr>w_redis := r'\<rparr>) = (o', w')" by fastforce
  have v2': "view (w_redis (w2\<lparr>w_redis := r'\<rparr>)) (idem_key op k) = Some (?v, Some (86400000 - sum_list (map fst cs)))"
    using r'(1) v2 by simp
  from auth_service.retry_app[OF sv assms(4,6) v2' assms(12) _ app] h assms(7)
  have "o' = Inr \<lparr>er_data = er_data res, er_errors = []\<rparr> \<and> view (w_redis w') = view r' \<and>
      committed (dview (w_db w')) = committed (dview (w_db w2)) \<and> w_outbox w' = w_outbox w2" by simp
  then show ?thesis using r' app by (auto split: sum.splits)
qed

text \<open>A library with one kind of data, and a request for a reset sent in a form, which is not JSON.\<close>

definition ref_engine :: "int engine" where
  "ref_engine =
     \<lparr>en_render = (\<lambda>doc resp. case resp of
          Data _ \<Rightarrow> \<lparr>er_data = JBool True, er_errors = []\<rparr>
        | Errors e \<Rightarrow> \<lparr>er_data = JNull, er_errors = [\<lparr>ge_message = [], ge_code = None\<rparr>]\<rparr>),
      en_error = (\<lambda>e. \<lparr>er_data = JNull, er_errors = [\<lparr>ge_message = [], ge_code = None\<rparr>]\<rparr>)\<rparr>"

definition reset_call :: "int call" where
  "reset_call =
     \<lparr>ca_raw = \<lparr>rr_path = lit ''/graphql'', rr_method = lit ''POST'', rr_body = lit ''--form''\<rparr>, ca_request = keyed_request,
      ca_document = Some [OperationDefinitionNode MUTATION [FieldNode (lit ''requestPasswordReset'') []]],
      ca_variables = None, ca_draws = demo_draws, ca_operation = RequestPasswordReset \<lparr>qi_email = []\<rparr>\<rparr>"

lemma reset_call:
  "keyed (lit ''requestPasswordReset'') (lit ''key-1'') (ca_request reset_call) (ca_document reset_call)"
  "fst (resolve ref_service (ca_draws reset_call) (ca_request reset_call) (ca_operation reset_call) w) =
     Inr (VResult (denied (lit ''Invalid email address: '' @ py_repr latin_unicode [])))"
  "dispatch ref_floats (Some ref_service) U (ca_raw reset_call) req call_next = bnd call_next (\<lambda>x. ret (Passed x))"
proof -
  show "keyed (lit ''requestPasswordReset'') (lit ''key-1'') (ca_request reset_call) (ca_document reset_call)"
    by (simp add: reset_call_def keyed_def get_mutation_field_name_def IDEMPOTENT_OPERATIONS_def keyed_request_def token_text_def
        lit_def is_surrogate_def)
  have "\<not> address []" by (simp add: address_def)
  then have "Email_new latin_unicode [] = Inl (InvalidEmailError (lit ''Invalid email address: '' @ py_repr latin_unicode []))"
    using Email_new_cases[OF latin_unicode_ok, of "[]"] by (simp add: py_strip_def py_lstrip_def py_rstrip_def py_lower_def)
  then show "fst (resolve ref_service (ca_draws reset_call) (ca_request reset_call) (ca_operation reset_call) w) =
     Inr (VResult (denied (lit ''Invalid email address: '' @ py_repr latin_unicode [])))"
    by (simp add: reset_call_def as_value_def request_password_reset_mutation_eq request_password_reset_def lift_res_def
        catch_def bnd_def ret_def raise_exn_def)
  have "decode_body (lit ''--form'') = Some (lit ''--form'')" by (rule ascii_body) (simp add: lit_def)
  moreover have "json_loads ref_floats (lit ''--form'') = Inl ValueError"
    by (simp add: json_loads_def json_fuel_def skip_ws_def js_ws_def lit_def scan_word_def scan_number_def number_parts_def
        js_minus_def js_integer_def py_startswith_def Let_def ascii_digit_def numeral_eq_Suc)
  ultimately show "dispatch ref_floats (Some ref_service) U (ca_raw reset_call) req call_next = bnd call_next (\<lambda>x. ret (Passed x))"
    by (simp add: dispatch_def Let_def get_global_container_def reset_call_def loads_body_def)
qed

theorem retry_has_no_effect_witness:
  "\<exists>w1 out w3. post_graphql ref_floats ref_engine plain_executor (Some ref_service) latin_unicode reset_call empty_world =
      (Inr (Passed \<lparr>er_data = JBool True, er_errors = []\<rparr>), w1) \<and>
    post_graphql ref_floats ref_engine plain_executor (Some ref_service) latin_unicode reset_call w1 = (out, w3) \<and>
    committed (w_db w3) = committed (w_db w1) \<and> w_outbox w3 = w_outbox w1"
proof -
  let ?post = "post_graphql ref_floats ref_engine plain_executor (Some ref_service) (sv_unicode ref_service) reset_call"
  have E: "engine_ok ref_engine" by (simp add: engine_ok_def ref_engine_def)
  have miss: "ref_view (w_redis empty_world) (idem_key (lit ''requestPasswordReset'') (lit ''key-1'')) = None"
    by (simp add: empty_world_def ref_view_def)
  obtain w1 where "graphql_app ref_floats ref_engine plain_executor (Some ref_service) reset_call empty_world =
      (Inr \<lparr>er_data = JBool True, er_errors = []\<rparr>, w1)"
    using refsvc.app_answers[OF plain_executor_ok ref_floats_ok reset_call(1) miss reset_call(2), of ref_engine "JBool True"]
    by (auto simp: ref_engine_def)
  then have w1: "?post empty_world = (Inr (Passed \<lparr>er_data = JBool True, er_errors = []\<rparr>), w1)"
    by (simp add: post_graphql_def reset_call(3) bnd_def ret_def)
  obtain out w3 where w3: "?post (post_all ref_floats ref_engine plain_executor ref_service ref_elapse [] w1) = (out, w3)" by fastforce
  show ?thesis
    using retry_has_no_effect[OF refsvc.auth_service_axioms plain_executor_ok E ref_floats_ok reset_call(1) reset_call(1) refl miss w1 _ _ _ _ _ refl w3]
      w1 w3 by simp
qed

end
