(* ===== verification/NamedOperation.thy ===== *)
theory NamedOperation
  imports Middleware
begin

text \<open>
  How far the promise of the comment on \<open>_extract_operation\<close> goes: with an \<open>operationName\<close> the
  middleware is to count the field of that operation, not of the first mutation of the
  document. Shown over the matcher of the expression: the documents for which it does, the
  text it goes by, and a kind of document for which nothing is counted at all.
\<close>

section \<open>Names and headers\<close>

definition gql_name :: "pystr \<Rightarrow> bool" where
  "gql_name s \<longleftrightarrow> s \<noteq> [] \<and> list_all (\<lambda>c. ascii_letter c \<or> ascii_digit c \<or> c = 95) s"

text \<open>The header of a mutation of that name: the keyword, white space, the whole name.\<close>

definition mutation_named :: "unicode \<Rightarrow> pystr \<Rightarrow> pystr \<Rightarrow> bool" where
  "mutation_named U name s \<longleftrightarrow>
     (\<exists>sp t. s = lit ''mutation'' @ sp @ name @ t \<and> sp \<noteq> [] \<and> list_all (py_isspace U) sp \<and>
        (t = [] \<or> \<not> py_isword U (hd t)))"

text \<open>
  The first header of that name in the text of a document, with no brace before its
  selection, and \<open>f\<close> the first word of the selection, followed by a bracket. The text is all
  the expression sees: a header in a comment counts as one.
\<close>

definition names_first :: "unicode \<Rightarrow> pystr \<Rightarrow> pystr \<Rightarrow> pystr \<Rightarrow> bool" where
  "names_first U name f q \<longleftrightarrow>
     (\<exists>pre sp t. q = pre @ lit ''mutation'' @ sp @ name @ t \<and> sp \<noteq> [] \<and> list_all (py_isspace U) sp \<and> selects U f t \<and>
        (\<forall>i<length pre. \<not> mutation_named U name (drop i q)))"

lemma gql_name_chars:
  assumes "gql_name name"
  shows "py_isword U (last name)" and "\<not> py_isspace U (hd name)" and "name \<noteq> []"
proof -
  have c: "py_isword U c \<and> \<not> py_isspace U c" if "c \<in> set name" for c
    using assms that by (auto simp: gql_name_def list_all_iff py_isword_def py_isspace_def ascii_letter_def ascii_digit_def)
  show n: "name \<noteq> []" using assms by (simp add: gql_name_def)
  show "py_isword U (last name)" "\<not> py_isspace U (hd name)" using c n by auto
qed

section \<open>Searching\<close>

lemma rx_lit_iff:
  "rx_match U (rx_lit l @ is) prev False cap s \<noteq> None \<longleftrightarrow>
     (\<exists>b. s = l @ b \<and> rx_match U is (prev_of prev l) False cap b \<noteq> None)"
proof (induction l arbitrary: prev s)
  case (Cons c l)
  have "rx_lit (c # l) @ is = One (\<lambda>d. d = c) # rx_lit l @ is" by (simp add: rx_lit_def)
  then show ?case unfolding rx_char_iff Cons.IH by (simp only: rx_char_iff Cons.IH prev_of_Cons) auto
qed (simp add: rx_lit_def)

lemma search_after:
  assumes "\<And>i p. i < length pre \<Longrightarrow> rx_match U is p False [] (drop i (pre @ s)) = None"
    and "rx_match U is (prev_of prev pre) False [] s = Some g"
  shows "re_search_from U is prev (pre @ s) = Some g"
  using assms
proof (induction pre arbitrary: prev)
  case Nil
  then show ?case by (subst re_search_from.simps) simp
next
  case (Cons c pre)
  have "re_search_from U is (Some c) (pre @ s) = Some g"
    by (rule Cons.IH) (use Cons.prems(1)[of "Suc i" for i] Cons.prems(2) prev_of_Cons[of prev c pre] in simp_all)
  then show ?case using Cons.prems(1)[of 0 prev] by (subst re_search_from.simps) simp
qed

lemma search_nothing:
  "(\<And>i p. i \<le> length s \<Longrightarrow> rx_match U is p False [] (drop i s) = None) \<Longrightarrow> re_search_from U is prev s = None"
proof (induction s arbitrary: prev)
  case Nil
  then show ?case by (subst re_search_from.simps) simp
next
  case (Cons c s)
  have "re_search_from U is (Some c) s = None" by (rule Cons.IH) (use Cons.prems[of "Suc i" for i] in simp)
  then show ?case using Cons.prems[of 0 prev] by (subst re_search_from.simps) simp
qed

text \<open>The expression matches only at a header, and there it captures the first field.\<close>

lemma named_only_at_header:
  assumes "gql_name name" and "\<not> mutation_named U name s"
  shows "rx_match U (NAMED_MUTATION_OP_RE U name) prev False [] s = None"
proof (rule ccontr)
  assume "rx_match U (NAMED_MUTATION_OP_RE U name) prev False [] s \<noteq> None"
  then obtain sp t where s: "s = lit ''mutation'' @ sp @ name @ t" "sp \<noteq> []" "\<forall>c\<in>set sp. py_isspace U c"
      "rx_match U (rx_selection U) (prev_of (Some (last sp)) name) False [] t \<noteq> None"
    unfolding NAMED_MUTATION_OP_RE_def rx_plus_def by (simp only: rx_lit_iff append.simps rx_plus_iff) blast
  have "word_boundary U (Some (last name)) t"
    using s(4) gql_name_chars(3)[OF assms(1)] by (auto simp: rx_selection_def prev_of_def split: if_splits)
  then have "t = [] \<or> \<not> py_isword U (hd t)"
    using gql_name_chars(1)[OF assms(1)] by (cases t) (auto simp: word_boundary_def)
  then show False using assms(2) s(1-3) unfolding mutation_named_def list_all_iff by blast
qed

lemma named_at_header:
  assumes "gql_name name" and "sp \<noteq> []" and "list_all (py_isspace U) sp" and "selects U f t"
  shows "rx_match U (NAMED_MUTATION_OP_RE U name) prev False [] (lit ''mutation'' @ sp @ name @ t) = Some f"
proof -
  note n = gql_name_chars(1,2)[OF assms(1), of U] gql_name_chars(3)[OF assms(1)]
  obtain c sp' where sp: "sp = c # sp'" using assms(2) by (cases sp) auto
  have "rx_match U (rx_lit name @ rx_selection U) p False [] (name @ t) = Some f" for p
    using selection_match[OF assms(4) n(1)] n(3) by (simp add: lit_match prev_of_def cap_of_def)
  then have "rx_match U (Many (py_isspace U) # rx_lit name @ rx_selection U) p False [] (sp' @ name @ t) = Some f" for p
    by (intro many_greedy) (use assms(3) sp n(2,3) in \<open>auto simp: list_all_iff cap_of_def\<close>)
  then show ?thesis
    using assms(3) by (simp add: NAMED_MUTATION_OP_RE_def lit_match rx_plus_def sp cap_of_def)
qed

section \<open>A brace before the selection\<close>

text \<open>What an expression finds after a header: a word and a bracket between the first two braces.\<close>

definition bracketed :: "unicode \<Rightarrow> pystr \<Rightarrow> bool" where
  "bracketed U t \<longleftrightarrow>
     (\<exists>h sp f sp2 b rest. t = h @ 123 # sp @ f @ sp2 @ b # rest \<and> 123 \<notin> set h \<and> 123 \<notin> set sp \<and>
        f \<noteq> [] \<and> list_all (py_isword U) f \<and> list_all (py_isspace U) sp2 \<and> (b = 40 \<or> b = 123))"

lemma selection_bracketed:
  assumes "rx_match U (rx_selection U) prev False [] t \<noteq> None"
  shows "bracketed U t"
proof -
  let ?close = "[CloseGroup, Many (py_isspace U), One (\<lambda>c. c = 40 \<or> c = 123)]"
  obtain h t1 p where h: "t = h @ 123 # t1" "\<forall>c\<in>set h. c \<noteq> 123"
      "rx_match U (Lazy (\<lambda>c. c \<noteq> 123) # OpenGroup # One (py_isword U) # Many (py_isword U) # ?close) p False [] t1 \<noteq> None"
    using assms unfolding rx_selection_def rx_plus_def append.simps rx_match.simps(7)
    by (simp only: rx_match_Many_iff run_then_def rx_match_One_iff cap_of_def if_False split: if_splits) (blast | simp)+
  obtain sp t2 q where sp: "t1 = sp @ t2" "\<forall>c\<in>set sp. c \<noteq> 123"
      "rx_match U (One (py_isword U) # Many (py_isword U) # ?close) q True [] t2 \<noteq> None"
    using h(3) unfolding rx_match_Lazy_iff run_then_def cap_of_def if_False rx_match.simps(5) by blast
  obtain c f t3 q' cap where f: "t2 = c # f @ t3" "py_isword U c" "\<forall>c\<in>set f. py_isword U c"
      "rx_match U ?close q' True cap t3 \<noteq> None"
    using sp(3) unfolding rx_match_One_iff rx_match_Many_iff run_then_def by blast
  obtain sp2 b rest where "t3 = sp2 @ b # rest" "\<forall>c\<in>set sp2. py_isspace U c" "b = 40 \<or> b = 123"
    using f(4) unfolding rx_match.simps(6) rx_match_Many_iff run_then_def rx_match_One_iff by blast
  then have "t = h @ 123 # sp @ (c # f) @ sp2 @ b # rest \<and> 123 \<notin> set h \<and> 123 \<notin> set sp \<and> c # f \<noteq> [] \<and>
      list_all (py_isword U) (c # f) \<and> list_all (py_isspace U) sp2 \<and> (b = 40 \<or> b = 123)"
    using h(1,2) sp(1,2) f(1-3) by (auto simp: list_all_iff)
  then show ?thesis unfolding bracketed_def by blast
qed




text \<open>What follows the headers the expression looks for: of that name, or of any mutation.\<close>

definition after_header :: "unicode \<Rightarrow> pystr \<Rightarrow> pystr \<Rightarrow> pystr \<Rightarrow> bool" where
  "after_header U name s t \<longleftrightarrow>
     (if name = [] then s = lit ''mutation'' @ t
      else \<exists>sp. s = lit ''mutation'' @ sp @ name @ t \<and> sp \<noteq> [] \<and> list_all (py_isspace U) sp)"

lemma hidden_nothing:
  assumes "\<And>t. after_header U name s t \<Longrightarrow> \<not> bracketed U t"
  shows "rx_match U (if name = [] then MUTATION_OP_RE U else NAMED_MUTATION_OP_RE U name) prev False [] s = None"
proof (rule ccontr)
  assume m: "rx_match U (if name = [] then MUTATION_OP_RE U else NAMED_MUTATION_OP_RE U name) prev False [] s \<noteq> None"
  obtain t p where "after_header U name s t" "rx_match U (rx_selection U) p False [] t \<noteq> None"
  proof (cases "name = []")
    case True
    then show thesis using m that unfolding after_header_def MUTATION_OP_RE_def if_P[OF True] rx_lit_iff by blast
  next
    case False
    then have "\<exists>sp t p. s = lit ''mutation'' @ sp @ name @ t \<and> sp \<noteq> [] \<and> (\<forall>c\<in>set sp. py_isspace U c) \<and>
        rx_match U (rx_selection U) p False [] t \<noteq> None"
      using m unfolding NAMED_MUTATION_OP_RE_def rx_plus_def if_not_P[OF False]
      by (simp only: rx_lit_iff append.simps rx_plus_iff) blast
    then show thesis using that False unfolding after_header_def list_all_iff by auto
  qed
  then show False using assms selection_bracketed by blast
qed

section \<open>Which field is counted\<close>

text \<open>
  Claim C12. When a request names its operation, the middleware goes by the first header
  \<open>mutation name\<close> in the text of the document, whatever other operations stand before it: if
  no brace stands between that header and the selection, and the selection begins with a
  field and a bracket, that field is counted. When no header of that name is followed by a
  word and a bracket between its first two braces, nothing is counted.
\<close>

theorem named_operation_is_counted:
  assumes "gql_name name" and "map_of kvs (lit ''operationName'') = Some (JStr name)"
    and "map_of kvs (lit ''query'') = Some (JStr q)"
  shows "(\<forall>f. names_first U name f q \<longrightarrow> extract_operation U (JObj kvs) = Inr f) \<and>
    ((\<forall>i\<le>length q. \<forall>t. after_header U name (drop i q) t \<longrightarrow> \<not> bracketed U t) \<longrightarrow> extract_operation U (JObj kvs) = Inr [])"
proof -
  let ?re = "NAMED_MUTATION_OP_RE U name"
  have e: "extract_operation U (JObj kvs) = Inr (case re_search_from U ?re None q of Some g \<Rightarrow> g | None \<Rightarrow> [])"
    using assms gql_name_chars(3) by (simp add: extract_operation_def searched_def re_search_def)
  have "re_search_from U ?re None q = Some f" if first: "names_first U name f q" for f
  proof -
    obtain pre sp t where q: "q = pre @ lit ''mutation'' @ sp @ name @ t" "sp \<noteq> []" "list_all (py_isspace U) sp" "selects U f t"
        "\<forall>i<length pre. \<not> mutation_named U name (drop i q)"
      using first unfolding names_first_def by blast
    show ?thesis unfolding q(1)
      by (rule search_after) (use q named_only_at_header[OF assms(1)] named_at_header[OF assms(1) q(2-4)] in simp_all)
  qed
  moreover have "re_search_from U ?re None q = None" if "\<forall>i\<le>length q. \<forall>t. after_header U name (drop i q) t \<longrightarrow> \<not> bracketed U t"
    by (rule search_nothing) (use that hidden_nothing[of U name] gql_name_chars(3)[OF assms(1)] in auto)
  ultimately show ?thesis using e by simp
qed

text \<open>A login behind a harmless mutation, named as the operation to execute.\<close>

definition decoy_query :: pystr where
  "decoy_query = lit ''mutation A {x(i: 1)} mutation B {login(input: {}) {accessToken}}''"

theorem named_operation_is_counted_witness:
  "extract_operation latin_unicode (JObj [(lit ''query'', JStr decoy_query), (lit ''operationName'', JStr (lit ''B''))] :: int json) =
     Inr (lit ''login'') \<and>
   extract_operation latin_unicode (JObj [(lit ''query'', JStr []), (lit ''operationName'', JStr (lit ''B''))] :: int json) = Inr []"
proof -
  have n: "gql_name (lit ''B'')" by (simp add: gql_name_def lit_def ascii_letter_def)
  let ?pre = "lit ''mutation A {x(i: 1)} ''"
  have s: "selects latin_unicode (lit ''login'') (lit '' '' @ 123 # [] @ lit ''login'' @ [] @ 40 # lit ''input: {}) {accessToken}}'')"
    unfolding selects_def
    by (intro exI conjI, rule refl) (auto simp: lit_def py_isword_def ascii_letter_def ascii_digit_def)
  have q: "decoy_query = ?pre @ lit ''mutation'' @ lit '' '' @ lit ''B'' @ lit '' '' @ 123 # [] @ lit ''login'' @ [] @ 40 # lit ''input: {}) {accessToken}}''"
    by (simp add: decoy_query_def lit_def)
  have "\<not> mutation_named latin_unicode (lit ''B'') (drop i decoy_query)" if "i < length ?pre" for i
  proof
    assume "mutation_named latin_unicode (lit ''B'') (drop i decoy_query)"
    then obtain sp t where d: "drop i decoy_query = lit ''mutation'' @ sp @ lit ''B'' @ t" "sp \<noteq> []" "list_all (py_isspace latin_unicode) sp"
      unfolding mutation_named_def by blast
    show False
    proof (cases i)
      case 0
      obtain c sp' where sp: "sp = c # sp'" using d(2) by (cases sp) auto
      show False using d(1,3) 0 sp by (cases sp') (auto simp: decoy_query_def lit_def py_isspace_def)
    next
      case (Suc j)
      have "\<forall>c\<in>set (tl ?pre). c \<noteq> 109" by (simp add: lit_def)
      moreover have "j < length (tl ?pre)" using that Suc by simp
      ultimately have "tl ?pre ! j \<noteq> 109" using nth_mem by blast
      moreover have "drop i decoy_query \<noteq> []" "hd (drop i decoy_query) = tl ?pre ! j"
        using that Suc by (simp_all add: q hd_drop_conv_nth nth_append nth_tl)
      ultimately show False using d(1) by (simp add: lit_def)
    qed
  qed
  then have f: "names_first latin_unicode (lit ''B'') (lit ''login'') decoy_query"
    unfolding names_first_def using q s by (intro exI[of _ ?pre] exI[of _ "lit '' ''"] exI conjI) (auto simp: lit_def py_isspace_def)
  have "\<not> after_header latin_unicode (lit ''B'') (drop i []) t" for i t by (simp add: after_header_def lit_def)
  then show ?thesis
    using f named_operation_is_counted[OF n, of "[(lit ''query'', JStr decoy_query), (lit ''operationName'', JStr (lit ''B''))] :: (pystr \<times> int json) list" decoy_query latin_unicode]
      named_operation_is_counted[OF n, of "[(lit ''query'', JStr []), (lit ''operationName'', JStr (lit ''B''))] :: (pystr \<times> int json) list" "[]" latin_unicode]
    by (simp add: lit_def)
qed






end
