(* ===== verification/StoreRefinement.thy ===== *)
theory StoreRefinement
  imports StoreSystem
begin

text \<open>
  The port \<open>TokenStore\<close> as an abstract machine over sessions, and \<open>RedisTokenStore\<close> as an
  implementation of it: every run of the store, with waits and with traffic of the other
  users of the server in between, is a run of the machine with the same replies.
\<close>

section \<open>The machine\<close>

datatype store_op =
    Open pystr "pystr option" uuid uuid pystr pystr
  | Refresh pystr pystr pystr pystr
  | Validate pystr
  | Close uuid
  | CloseAll uuid
  | Wait nat
  | Other redis_cmd

datatype store_reply = Ok | Found "session_ref option" | Accepted bool

text \<open>
  Opening, refreshing and closing sessions as the contract has them. Time takes away some
  sessions and tokens and adds none; other traffic changes nothing.
\<close>

inductive session_step :: "sessions \<Rightarrow> store_op \<Rightarrow> store_reply \<Rightarrow> sessions \<Rightarrow> bool" where
  step_open: "session_step A (Open now dev sid uid jti tok) Ok (a_create (str_uuid sid) (str_uuid uid) jti tok A)"
| step_refused: "refresh A t = None \<Longrightarrow> session_step A (Refresh now t jti tok) (Found None) A"
| step_refresh:
    "refresh A t = Some (u, s) \<Longrightarrow>
     session_step A (Refresh now t jti tok) (Found (Some \<lparr>ref_user_id = u, ref_session_id = s\<rparr>)) (a_rotate s u jti tok A)"
| step_validate: "session_step A (Validate j) (Accepted (access A j \<noteq> None)) A"
| step_close: "session_step A (Close sid) Ok (a_revoke {str_uuid sid} A)"
| step_close_all: "session_step A (CloseAll uid) Ok (a_revoke_all (str_uuid uid) A)"
| step_wait:
    "access A' \<subseteq>\<^sub>m access A \<Longrightarrow> refresh A' \<subseteq>\<^sub>m refresh A \<Longrightarrow> owner A' \<subseteq>\<^sub>m owner A \<Longrightarrow> session_step A (Wait d) Ok A'"
| step_other: "session_step A (Other c) Ok A"

inductive session_run :: "sessions \<Rightarrow> store_op list \<Rightarrow> store_reply list \<Rightarrow> sessions \<Rightarrow> bool" where
  run_nil: "session_run A [] [] A"
| run_step: "session_step A oper rep A' \<Longrightarrow> session_run A' opers reps A'' \<Longrightarrow> session_run A (oper # opers) (rep # reps) A''"

section \<open>The store\<close>

fun store_step ::
  "'r redis_exec \<Rightarrow> (nat \<Rightarrow> 'r \<Rightarrow> 'r) \<Rightarrow> unicode \<Rightarrow> int \<Rightarrow> int \<Rightarrow> store_op \<Rightarrow> ('r, store_reply) act" where
  "store_step exec elapse U at rt (Open now dev sid uid jti tok) =
     bnd (create_session exec now sid uid jti tok dev at rt) (\<lambda>_. ret Ok)"
| "store_step exec elapse U at rt (Refresh now t jti tok) =
     bnd (get_session_by_refresh_token exec t) (\<lambda>found.
       case found of
         None \<Rightarrow> ret (Found None)
       | Some session \<Rightarrow>
           bnd (lift_res (UUID U (ref_session_id session))) (\<lambda>sid.
           bnd (rotate_session U exec now sid t jti tok at rt) (\<lambda>_. ret (Found (Some session)))))"
| "store_step exec elapse U at rt (Validate j) = bnd (is_access_jti_valid exec j) (\<lambda>b. ret (Accepted b))"
| "store_step exec elapse U at rt (Close sid) = bnd (revoke_session exec sid) (\<lambda>_. ret Ok)"
| "store_step exec elapse U at rt (CloseAll uid) = bnd (revoke_all_user_sessions U exec uid) (\<lambda>_. ret Ok)"
| "store_step exec elapse U at rt (Wait d) = (\<lambda>r. (Inr Ok, elapse d r))"
| "store_step exec elapse U at rt (Other c) = (\<lambda>r. (Inr Ok, snd (exec c r)))"

fun store_run ::
  "'r redis_exec \<Rightarrow> (nat \<Rightarrow> 'r \<Rightarrow> 'r) \<Rightarrow> unicode \<Rightarrow> int \<Rightarrow> int \<Rightarrow> store_op list \<Rightarrow> 'r \<Rightarrow> (exn + store_reply) list \<times> 'r" where
  "store_run exec elapse U at rt [] r = ([], r)"
| "store_run exec elapse U at rt (oper # opers) r =
     (case store_step exec elapse U at rt oper r of (rep, r1) \<Rightarrow>
        (case store_run exec elapse U at rt opers r1 of (reps, r') \<Rightarrow> (rep # reps, r')))"

text \<open>The random draws of an operation are new, its texts can be sent, other traffic stays off the store's keys.\<close>

fun op_fine :: "redis_view \<Rightarrow> store_op \<Rightarrow> bool" where
  "op_fine V (Open now dev sid uid jti tok) =
     (fresh_session V sid \<and> fresh_pair V jti tok \<and> py_text now \<and> pred_option py_text dev)"
| "op_fine V (Refresh now t jti tok) = (py_text t \<and> fresh_pair V jti tok \<and> py_text now)"
| "op_fine V (Validate j) = py_text j"
| "op_fine V (Other c) = (\<not> store_key (cmd_key c))"
| "op_fine V _ = True"

fun ops_fine ::
  "'r redis_exec \<Rightarrow> ('r \<Rightarrow> redis_view) \<Rightarrow> (nat \<Rightarrow> 'r \<Rightarrow> 'r) \<Rightarrow> unicode \<Rightarrow> int \<Rightarrow> int \<Rightarrow> store_op list \<Rightarrow> 'r \<Rightarrow> bool" where
  "ops_fine exec view elapse U at rt [] r = True"
| "ops_fine exec view elapse U at rt (oper # opers) r =
     (op_fine (view r) oper \<and> ops_fine exec view elapse U at rt opers (snd (store_step exec elapse U at rt oper r)))"

section \<open>Refinement\<close>

context redis_sessions
begin

lemma refresh_step:
  assumes ok: "store_ok (ms refresh_ttl) {} (view r)" and "py_text t" and "fresh_pair (view r) jti tok" and "py_text now"
  shows "\<exists>rep r'. store_step exec elapse U access_ttl refresh_ttl (Refresh now t jti tok) r = (Inr rep, r') \<and>
    store_ok (ms refresh_ttl) {} (view r') \<and>
    session_step (abs_store (view r)) (Refresh now t jti tok) rep (abs_store (view r'))"
proof -
  let ?A = "abs_store (view r)"
  obtain r1 where l: "get_session_by_refresh_token exec t r =
      (Inr (map_option (\<lambda>(u, s). \<lparr>ref_user_id = u, ref_session_id = s\<rparr>) (refresh ?A t)), r1)"
      "store_ok (ms refresh_ttl) {} (view r1)" "abs_store (view r1) = a_take t ?A"
    using rts.look_up[OF ok assms(2)] by blast
  show ?thesis
  proof (cases "refresh ?A t")
    case None
    then have "a_take t ?A = ?A" by (simp add: a_take_def fun_upd_idem)
    then show ?thesis using l None step_refused[OF None] by (auto simp: ret_def simp del: abs_store_simps)
  next
    case (Some us)
    then obtain u s where us: "refresh ?A t = Some (u, s)" by (cases us) simp
    let ?ref = "\<lparr>ref_user_id = u, ref_session_id = s\<rparr>"
    obtain sid where sid: "s = str_uuid sid" using rts.refresh_owner[OF ok us] by blast
    have look: "get_session_by_refresh_token exec t r = (Inr (Some ?ref), r1)" using l(1) us by simp
    have uuid: "UUID U (ref_session_id ?ref) = Inr sid" by (simp add: sid UUID_str)
    obtain uid r' where r': "?ref = \<lparr>ref_user_id = str_uuid uid, ref_session_id = str_uuid sid\<rparr>"
        "rotate_session U exec now sid t jti tok access_ttl refresh_ttl r1 = (Inr (), r')"
        "store_ok (ms refresh_ttl) {} (view r')"
        "abs_store (view r') = a_rotate (str_uuid sid) (str_uuid uid) jti tok ?A"
      using refresh_run[OF ok look uuid assms(3,4)] by metis
    then have "store_step exec elapse U access_ttl refresh_ttl (Refresh now t jti tok) r = (Inr (Found (Some ?ref)), r')"
      using look uuid by (simp add: lift_res_def ret_def bnd_def)
    then show ?thesis using r' step_refresh[OF us, of now jti tok] by auto
  qed
qed

lemma step_refines:
  assumes ok: "store_ok (ms refresh_ttl) {} (view r)" and fine: "op_fine (view r) oper"
  shows "\<exists>rep r'. store_step exec elapse U access_ttl refresh_ttl oper r = (Inr rep, r') \<and>
    store_ok (ms refresh_ttl) {} (view r') \<and> session_step (abs_store (view r)) oper rep (abs_store (view r'))"
proof (cases oper)
  case (Open now dev sid uid jti tok)
  then show ?thesis using rts.create[OF ok, of sid jti tok now dev uid] fine step_open
    by (fastforce simp: ret_def)
next
  case (Refresh now t jti tok)
  then show ?thesis using refresh_step[OF ok] fine by simp
next
  case (Validate j)
  then show ?thesis using rts.valid[OF ok, of j] fine step_validate[of "abs_store (view r)" j]
    by (fastforce simp: ret_def simp del: abs_store_simps)
next
  case (Close sid)
  then show ?thesis using rts.revoke[OF ok, of sid] step_close by (fastforce simp: ret_def)
next
  case (CloseAll uid)
  then show ?thesis using rts.revoke_all[OF ok, of uid] step_close_all by (fastforce simp: ret_def)
next
  case (Wait d)
  have "session_step (abs_store (view r)) (Wait d) Ok (abs_store (age d (view r)))"
    by (rule step_wait) (use age_abs[of d "view r"] in \<open>auto simp: map_le_def dom_def simp del: abs_store_simps\<close>)
  then show ?thesis using Wait age_ok[OF ok, of d] by (auto simp: view_elapse)
next
  case (Other c)
  have "same_store (view r) (view (snd (exec c r)))"
    using foreign_same[of c "view r"] fine Other exec_effect[of c r] by simp
  then show ?thesis using Other same_store_ok[OF ok] same_store_abs step_other by fastforce
qed

lemma run_refines:
  assumes "store_ok (ms refresh_ttl) {} (view r)" and "ops_fine exec view elapse U access_ttl refresh_ttl opers r"
  shows "\<exists>reps r'. store_run exec elapse U access_ttl refresh_ttl opers r = (map Inr reps, r') \<and>
    store_ok (ms refresh_ttl) {} (view r') \<and> session_run (abs_store (view r)) opers reps (abs_store (view r'))"
  using assms
proof (induction opers arbitrary: r)
  case Nil
  then show ?case by (auto intro: run_nil)
next
  case (Cons oper opers)
  obtain rep r1 where r1: "store_step exec elapse U access_ttl refresh_ttl oper r = (Inr rep, r1)"
      "store_ok (ms refresh_ttl) {} (view r1)" "session_step (abs_store (view r)) oper rep (abs_store (view r1))"
    using step_refines[OF Cons.prems(1), of oper] Cons.prems(2) by fastforce
  obtain reps r' where r': "store_run exec elapse U access_ttl refresh_ttl opers r1 = (map Inr reps, r')"
      "store_ok (ms refresh_ttl) {} (view r')" "session_run (abs_store (view r1)) opers reps (abs_store (view r'))"
    using Cons.IH[OF r1(2)] Cons.prems(2) r1(1) by fastforce
  show ?case
    by (intro exI[of _ "rep # reps"] exI[of _ r'] conjI run_step[OF r1(3) r'(3)]) (simp_all add: r1(1) r'(1,2))
qed

end

text \<open>
  Claim C15. The Redis token store implements the port. Run any sequence of openings,
  refreshes, validations, revocations and waits from a reachable state, interleaved with
  any commands on other keys: no operation fails, the replies are replies of the abstract
  machine of sessions, and the sessions in Redis at the end are the machine's. Identifiers
  and tokens that are drawn are new, as their hypotheses say.
\<close>

theorem store_refines_sessions:
  assumes "redis_sessions exec view elapse access_ttl refresh_ttl"
    and "store_reach exec view elapse U access_ttl refresh_ttl r"
    and "ops_fine exec view elapse U access_ttl refresh_ttl opers r"
  shows "\<exists>reps r'. store_run exec elapse U access_ttl refresh_ttl opers r = (map Inr reps, r') \<and>
    session_run (abs_store (view r)) opers reps (abs_store (view r'))"
  using redis_sessions.run_refines[OF assms(1) redis_sessions.reach_ok[OF assms(1,2)] assms(3)] by blast

theorem store_refines_sessions_witness:
  "\<exists>reps r'. store_run ref_exec ref_elapse latin_unicode 900 2592000
      [Refresh (lit ''2027'') (lit ''tok'') (lit ''jti2'') (lit ''tok2''), Validate (lit ''jti''), Other (INCR (lit ''rl:k'')), Wait 5, CloseAll 1]
      demo_store = (map Inr reps, r') \<and>
    session_run (abs_store (ref_view demo_store))
      [Refresh (lit ''2027'') (lit ''tok'') (lit ''jti2'') (lit ''tok2''), Validate (lit ''jti''), Other (INCR (lit ''rl:k'')), Wait 5, CloseAll 1]
      reps (abs_store (ref_view r'))"
  by (rule store_refines_sessions[where exec = ref_exec and view = ref_view, OF refs.redis_sessions_axioms demo_created(2)])
    (use demo_fresh in \<open>simp add: store_key_def py_startswith_def lit_def is_surrogate_def\<close>)

end
