(* ===== verification/Migrations.thy ===== *)
theory Migrations
  imports Database
begin

text \<open>
  The schema of the database: the two migrations of \<open>alembic/versions\<close>, upwards and
  downwards, and the tables that \<open>auth_service/infrastructure/db/models.py\<close> declares. The
  commands of Alembic are sent to a server that is a parameter; the locale
  \<open>schema_server\<close> names what the migrations rely on. Shown: upgrading an empty database
  builds what the models declare, and downgrading undoes an upgrade.
\<close>

section \<open>Catalogues\<close>

datatype col_type = TUuid | TString nat | TBoolean | TDateTime bool | TInet | TJsonb

datatype on_delete = Cascade | SetNull

record column =
  col_name :: pystr
  col_type :: col_type
  col_nullable :: bool
  col_server_default :: "pystr option"

datatype tab_constraint =
    PrimaryKeyConstraint "pystr list"
  | ForeignKeyConstraint pystr pystr pystr on_delete

record table_def =
  tab_name :: pystr
  tab_columns :: "column list"
  tab_constraints :: "tab_constraint list"

record index_def =
  ix_name :: pystr
  ix_table :: pystr
  ix_columns :: "pystr list"
  ix_unique :: bool

record catalogue =
  cat_tables :: "table_def list"
  cat_indexes :: "index_def list"

datatype ddl =
    CreateTable table_def
  | CreateIndex index_def
  | DropIndex pystr pystr
  | DropTable pystr

type_synonym 'c ddl_exec = "ddl \<Rightarrow> ('c, unit) act"

text \<open>A name of a relation is taken by a table or by an index; what a table refers to.\<close>

definition taken :: "catalogue \<Rightarrow> pystr \<Rightarrow> bool" where
  "taken C n \<longleftrightarrow> n \<in> tab_name ` set (cat_tables C) \<or> n \<in> ix_name ` set (cat_indexes C)"

fun refers :: "tab_constraint \<Rightarrow> pystr set" where
  "refers (ForeignKeyConstraint _ t _ _) = {t}"
| "refers (PrimaryKeyConstraint _) = {}"

definition references :: "table_def \<Rightarrow> pystr set" where
  "references t = \<Union> (refers ` set (tab_constraints t))"

text \<open>What a command does to a catalogue, when it succeeds.\<close>

fun ddl_effect :: "ddl \<Rightarrow> catalogue \<Rightarrow> catalogue option" where
  "ddl_effect (CreateTable t) C =
     (if taken C (tab_name t) \<or> \<not> references t \<subseteq> tab_name ` set (cat_tables C) then None
      else Some (C\<lparr>cat_tables := cat_tables C @ [t]\<rparr>))"
| "ddl_effect (CreateIndex i) C =
     (if taken C (ix_name i) \<or>
         \<not> list_ex (\<lambda>t. tab_name t = ix_table i \<and> set (ix_columns i) \<subseteq> col_name ` set (tab_columns t)) (cat_tables C)
      then None
      else Some (C\<lparr>cat_indexes := cat_indexes C @ [i]\<rparr>))"
| "ddl_effect (DropIndex n t) C =
     (if n \<notin> ix_name ` set (cat_indexes C) then None
      else Some (C\<lparr>cat_indexes := filter (\<lambda>i. ix_name i \<noteq> n) (cat_indexes C)\<rparr>))"
| "ddl_effect (DropTable n) C =
     (if n \<notin> tab_name ` set (cat_tables C) \<or> list_ex (\<lambda>t. tab_name t \<noteq> n \<and> n \<in> references t) (cat_tables C) then None
      else Some (C\<lparr>cat_tables := filter (\<lambda>t. tab_name t \<noteq> n) (cat_tables C),
                   cat_indexes := filter (\<lambda>i. ix_table i \<noteq> n) (cat_indexes C)\<rparr>))"

locale schema_server =
  fixes ddl :: "'c ddl_exec" and cview :: "'c \<Rightarrow> catalogue"
  assumes ddl_ok: "ddl_effect c (cview s) = Some C \<Longrightarrow> \<exists>s'. ddl c s = (Inr (), s') \<and> cview s' = C"
    and ddl_fails: "ddl_effect c (cview s) = None \<Longrightarrow> \<exists>m. fst (ddl c s) = Inl (ExternalError m)"

section \<open>Migrations\<close>

definition Column :: "string \<Rightarrow> col_type \<Rightarrow> bool \<Rightarrow> column" where
  "Column n ty nullable = \<lparr>col_name = lit n, col_type = ty, col_nullable = nullable, col_server_default = None\<rparr>"

definition index_on :: "string \<Rightarrow> string \<Rightarrow> string \<Rightarrow> bool \<Rightarrow> index_def" where
  "index_on n t c u = \<lparr>ix_name = lit n, ix_table = lit t, ix_columns = [lit c], ix_unique = u\<rparr>"

fun in_order :: "'c ddl_exec \<Rightarrow> ddl list \<Rightarrow> ('c, unit) act" where
  "in_order ddl [] = ret ()"
| "in_order ddl (c # cs) = bnd (ddl c) (\<lambda>_. in_order ddl cs)"

definition create_users :: table_def where
  "create_users =
     \<lparr>tab_name = lit ''users'',
      tab_columns =
        [Column ''id'' TUuid False, Column ''email'' (TString 255) False, Column ''hashed_password'' (TString 255) False,
         Column ''is_active'' TBoolean False, Column ''created_at'' (TDateTime True) False],
      tab_constraints = [PrimaryKeyConstraint [lit ''id'']]\<rparr>"

definition create_password_reset_tokens :: table_def where
  "create_password_reset_tokens =
     \<lparr>tab_name = lit ''password_reset_tokens'',
      tab_columns =
        [Column ''id'' TUuid False, Column ''user_id'' TUuid False, Column ''token'' (TString 255) False,
         Column ''expires_at'' (TDateTime True) False, Column ''used'' TBoolean False],
      tab_constraints =
        [ForeignKeyConstraint (lit ''user_id'') (lit ''users'') (lit ''id'') Cascade, PrimaryKeyConstraint [lit ''id'']]\<rparr>"

definition upgrade_0001 :: "'c ddl_exec \<Rightarrow> ('c, unit) act" where
  "upgrade_0001 ddl = in_order ddl
     [CreateTable create_users,
      CreateIndex (index_on ''ix_users_email'' ''users'' ''email'' True),
      CreateTable create_password_reset_tokens,
      CreateIndex (index_on ''ix_password_reset_tokens_token'' ''password_reset_tokens'' ''token'' True),
      CreateIndex (index_on ''ix_password_reset_tokens_user_id'' ''password_reset_tokens'' ''user_id'' False)]"

definition downgrade_0001 :: "'c ddl_exec \<Rightarrow> ('c, unit) act" where
  "downgrade_0001 ddl = in_order ddl
     [DropIndex (lit ''ix_password_reset_tokens_user_id'') (lit ''password_reset_tokens''),
      DropIndex (lit ''ix_password_reset_tokens_token'') (lit ''password_reset_tokens''),
      DropTable (lit ''password_reset_tokens''),
      DropIndex (lit ''ix_users_email'') (lit ''users''),
      DropTable (lit ''users'')]"

definition create_auth_events :: table_def where
  "create_auth_events =
     \<lparr>tab_name = lit ''auth_events'',
      tab_columns =
        [Column ''id'' TUuid False, Column ''user_id'' TUuid True, Column ''event_type'' (TString 50) False,
         Column ''session_id'' TUuid True, Column ''ip_address'' TInet True, Column ''occurred_at'' (TDateTime True) False,
         (Column ''metadata'' TJsonb False)\<lparr>col_server_default := Some (lit ''{}'')\<rparr>],
      tab_constraints =
        [ForeignKeyConstraint (lit ''user_id'') (lit ''users'') (lit ''id'') SetNull, PrimaryKeyConstraint [lit ''id'']]\<rparr>"

definition upgrade_0002 :: "'c ddl_exec \<Rightarrow> ('c, unit) act" where
  "upgrade_0002 ddl = in_order ddl
     [CreateTable create_auth_events,
      CreateIndex (index_on ''idx_auth_events_user_id'' ''auth_events'' ''user_id'' False),
      CreateIndex (index_on ''idx_auth_events_occurred_at'' ''auth_events'' ''occurred_at'' False),
      CreateIndex (index_on ''idx_auth_events_event_type'' ''auth_events'' ''event_type'' False)]"

definition downgrade_0002 :: "'c ddl_exec \<Rightarrow> ('c, unit) act" where
  "downgrade_0002 ddl = in_order ddl
     [DropIndex (lit ''idx_auth_events_event_type'') (lit ''auth_events''),
      DropIndex (lit ''idx_auth_events_occurred_at'') (lit ''auth_events''),
      DropIndex (lit ''idx_auth_events_user_id'') (lit ''auth_events''),
      DropTable (lit ''auth_events'')]"

section \<open>Models\<close>

record mapped_column =
  mc_column :: column
  mc_primary :: bool
  mc_unique :: bool
  mc_index :: bool
  mc_foreign :: "(pystr \<times> pystr \<times> on_delete) option"

definition mapped :: "string \<Rightarrow> col_type \<Rightarrow> bool \<Rightarrow> mapped_column" where
  "mapped n ty nullable =
     \<lparr>mc_column = Column n ty nullable, mc_primary = False, mc_unique = False, mc_index = False, mc_foreign = None\<rparr>"

text \<open>A declarative class: its table name, its columns and the indexes of \<open>__table_args__\<close>.\<close>

record declared =
  dc_tablename :: pystr
  dc_columns :: "mapped_column list"
  dc_indexes :: "(pystr \<times> pystr) list"

definition UserModel_class :: declared where
  "UserModel_class =
     \<lparr>dc_tablename = lit ''users'',
      dc_columns =
        [(mapped ''id'' TUuid False)\<lparr>mc_primary := True\<rparr>,
         (mapped ''email'' (TString 255) False)\<lparr>mc_unique := True, mc_index := True\<rparr>,
         mapped ''hashed_password'' (TString 255) False,
         mapped ''is_active'' TBoolean False,
         mapped ''created_at'' (TDateTime True) False],
      dc_indexes = []\<rparr>"

definition PasswordResetTokenModel_class :: declared where
  "PasswordResetTokenModel_class =
     \<lparr>dc_tablename = lit ''password_reset_tokens'',
      dc_columns =
        [(mapped ''id'' TUuid False)\<lparr>mc_primary := True\<rparr>,
         (mapped ''user_id'' TUuid False)\<lparr>mc_foreign := Some (lit ''users'', lit ''id'', Cascade), mc_index := True\<rparr>,
         (mapped ''token'' (TString 255) False)\<lparr>mc_unique := True, mc_index := True\<rparr>,
         mapped ''expires_at'' (TDateTime True) False,
         mapped ''used'' TBoolean False],
      dc_indexes = []\<rparr>"

definition AuthEventModel_class :: declared where
  "AuthEventModel_class =
     \<lparr>dc_tablename = lit ''auth_events'',
      dc_columns =
        [(mapped ''id'' TUuid False)\<lparr>mc_primary := True\<rparr>,
         (mapped ''user_id'' TUuid True)\<lparr>mc_foreign := Some (lit ''users'', lit ''id'', SetNull)\<rparr>,
         mapped ''event_type'' (TString 50) False,
         mapped ''session_id'' TUuid True,
         mapped ''ip_address'' TInet True,
         mapped ''occurred_at'' (TDateTime True) False,
         (mapped ''metadata'' TJsonb False)\<lparr>mc_column := (Column ''metadata'' TJsonb False)\<lparr>col_server_default := Some (lit ''{}'')\<rparr>\<rparr>],
      dc_indexes =
        [(lit ''idx_auth_events_user_id'', lit ''user_id''), (lit ''idx_auth_events_occurred_at'', lit ''occurred_at''),
         (lit ''idx_auth_events_event_type'', lit ''event_type'')]\<rparr>"

text \<open>
  The table and the indexes a class stands for, as SQLAlchemy documents them; the name of an
  index made by \<open>index=True\<close> is a parameter, a naming convention.
\<close>

definition class_table :: "declared \<Rightarrow> table_def" where
  "class_table d =
     \<lparr>tab_name = dc_tablename d, tab_columns = map mc_column (dc_columns d),
      tab_constraints =
        concat (map (\<lambda>c. case mc_foreign c of
            Some (t, k, del) \<Rightarrow> [ForeignKeyConstraint (col_name (mc_column c)) t k del] | None \<Rightarrow> []) (dc_columns d)) @
        [PrimaryKeyConstraint (map (col_name \<circ> mc_column) (filter mc_primary (dc_columns d)))]\<rparr>"

definition class_indexes :: "(pystr \<Rightarrow> pystr \<Rightarrow> pystr) \<Rightarrow> declared \<Rightarrow> index_def list" where
  "class_indexes name d =
     map (\<lambda>c. \<lparr>ix_name = name (dc_tablename d) (col_name (mc_column c)), ix_table = dc_tablename d,
               ix_columns = [col_name (mc_column c)], ix_unique = mc_unique c\<rparr>) (filter mc_index (dc_columns d)) @
     map (\<lambda>(n, c). \<lparr>ix_name = n, ix_table = dc_tablename d, ix_columns = [c], ix_unique = False\<rparr>) (dc_indexes d)"

definition ix_convention :: "(pystr \<Rightarrow> pystr \<Rightarrow> pystr) \<Rightarrow> bool" where
  "ix_convention name \<longleftrightarrow> (\<forall>t c. name t c = lit ''ix_'' @ t @ lit ''_'' @ c)"

definition Base_classes :: "declared list" where
  "Base_classes = [UserModel_class, PasswordResetTokenModel_class, AuthEventModel_class]"

section \<open>Commands in order\<close>

fun effects :: "ddl list \<Rightarrow> catalogue \<Rightarrow> catalogue option" where
  "effects [] C = Some C"
| "effects (c # cs) C = Option.bind (ddl_effect c C) (effects cs)"

lemma effects_append: "effects (cs @ ds) C = Option.bind (effects cs C) (effects ds)"
  by (induction cs arbitrary: C) (simp_all add: bind_eq_Some_conv split: bind_split)

text \<open>Every index is on a table of the catalogue, every reference to one.\<close>

definition cat_ok :: "catalogue \<Rightarrow> bool" where
  "cat_ok C \<longleftrightarrow>
     (let names = tab_name ` set (cat_tables C) in
      list_all (\<lambda>i. ix_table i \<in> names) (cat_indexes C) \<and> list_all (\<lambda>t. references t \<subseteq> names) (cat_tables C))"

fun creates :: "ddl \<Rightarrow> bool" where
  "creates (CreateTable _) = True"
| "creates (CreateIndex _) = True"
| "creates _ = False"

fun undo :: "ddl \<Rightarrow> ddl" where
  "undo (CreateTable t) = DropTable (tab_name t)"
| "undo (CreateIndex i) = DropIndex (ix_name i) (ix_table i)"
| "undo c = c"

lemma create_ok: "creates c \<Longrightarrow> ddl_effect c C = Some C' \<Longrightarrow> cat_ok C \<Longrightarrow> cat_ok C'"
proof (cases c)
  case (CreateTable t)
  assume "ddl_effect c C = Some C'" "cat_ok C"
  then show ?thesis using CreateTable by (clarsimp simp: cat_ok_def list_all_iff Let_def split: if_splits) blast
next
  case (CreateIndex i)
  assume a: "ddl_effect c C = Some C'" "cat_ok C"
  then obtain t where "t \<in> set (cat_tables C)" "tab_name t = ix_table i" "C' = C\<lparr>cat_indexes := cat_indexes C @ [i]\<rparr>"
    using CreateIndex by (auto simp: list_ex_iff split: if_splits)
  then have "ix_table i \<in> tab_name ` set (cat_tables C)" "C' = C\<lparr>cat_indexes := cat_indexes C @ [i]\<rparr>"
    by (metis imageI, simp)
  then show ?thesis using a(2) by (simp add: cat_ok_def Let_def)
qed simp_all

lemma filter_other: "x \<notin> f ` set xs \<Longrightarrow> filter (\<lambda>y. f y \<noteq> x) xs = xs"
  by (induction xs) auto

lemma undo_effect:
  assumes "creates c" and "ddl_effect c C = Some C'" and "cat_ok C" and "case c of CreateTable t \<Rightarrow> tab_name t \<notin> references t | _ \<Rightarrow> True"
  shows "ddl_effect (undo c) C' = Some C"
proof (cases c)
  case (CreateTable t)
  then have n: "tab_name t \<notin> tab_name ` set (cat_tables C)" "C' = C\<lparr>cat_tables := cat_tables C @ [t]\<rparr>"
    using assms(2) by (auto simp: taken_def split: if_splits)
  moreover have "tab_name t \<notin> ix_table ` set (cat_indexes C)" "\<forall>t'\<in>set (cat_tables C). tab_name t \<notin> references t'"
    using assms(3) n(1) by (auto simp: cat_ok_def Let_def list_all_iff)
  ultimately show ?thesis using CreateTable by (auto simp: list_ex_iff filter_other)
next
  case (CreateIndex i)
  then have "ix_name i \<notin> ix_name ` set (cat_indexes C)" "C' = C\<lparr>cat_indexes := cat_indexes C @ [i]\<rparr>"
    using assms(2) by (auto simp: taken_def split: if_splits)
  then show ?thesis using CreateIndex by (simp add: filter_other)
qed (use assms(1) in simp_all)

lemma undo_effects:
  assumes "list_all creates cs" and "effects cs C = Some C'" and "cat_ok C"
  shows "effects (rev (map undo cs)) C' = Some C"
  using assms
proof (induction cs arbitrary: C)
  case (Cons c cs)
  then obtain D where D: "ddl_effect c C = Some D" "effects cs D = Some C'" by (auto simp: bind_eq_Some_conv)
  have "case c of CreateTable t \<Rightarrow> tab_name t \<notin> references t | _ \<Rightarrow> True"
    using D(1) by (auto simp: taken_def split: ddl.splits if_splits)
  then have "ddl_effect (undo c) D = Some C" using undo_effect[OF _ D(1) Cons.prems(3)] Cons.prems(1) by simp
  moreover have "effects (rev (map undo cs)) C' = Some D"
    by (rule Cons.IH) (use Cons.prems D create_ok[OF _ D(1)] in simp_all)
  ultimately show ?case by (simp add: effects_append)
qed simp

context schema_server
begin

lemma in_order_run: "effects cs (cview s) = Some C \<Longrightarrow> \<exists>s'. in_order ddl cs s = (Inr (), s') \<and> cview s' = C"
proof (induction cs arbitrary: s)
  case (Cons c cs)
  then obtain D where D: "ddl_effect c (cview s) = Some D" "effects cs D = Some C" by (auto simp: bind_eq_Some_conv)
  then obtain s1 where "ddl c s = (Inr (), s1)" "cview s1 = D" using ddl_ok by blast
  then show ?case using Cons.IH[of s1] D(2) by (auto simp: bnd_def)
qed (simp add: ret_def)

lemma in_order_done: "in_order ddl cs s = (Inr (), s') \<Longrightarrow> effects cs (cview s) = Some (cview s')"
proof (induction cs arbitrary: s)
  case (Cons c cs)
  then obtain s1 where s1: "ddl c s = (Inr (), s1)" "in_order ddl cs s1 = (Inr (), s')"
    by (auto simp: bnd_def split: prod.splits sum.splits)
  then show ?case using Cons.IH[of s1] ddl_ok[of c s] ddl_fails[of c s] by (cases "ddl_effect c (cview s)") auto
qed (simp add: ret_def)

lemma undone:
  assumes "list_all creates cs" and "in_order ddl cs s = (Inr (), s1)" and "cat_ok (cview s)"
  shows "\<exists>s2. in_order ddl (rev (map undo cs)) s1 = (Inr (), s2) \<and> cview s2 = cview s"
  using in_order_run undo_effects[OF assms(1) in_order_done[OF assms(2)] assms(3)] by blast

end

section \<open>Properties\<close>

text \<open>The schema after each revision.\<close>

definition first_schema :: catalogue where
  "first_schema =
     \<lparr>cat_tables = [create_users, create_password_reset_tokens],
      cat_indexes =
        [index_on ''ix_users_email'' ''users'' ''email'' True,
         index_on ''ix_password_reset_tokens_token'' ''password_reset_tokens'' ''token'' True,
         index_on ''ix_password_reset_tokens_user_id'' ''password_reset_tokens'' ''user_id'' False]\<rparr>"

definition head_schema :: catalogue where
  "head_schema =
     \<lparr>cat_tables = cat_tables first_schema @ [create_auth_events],
      cat_indexes = cat_indexes first_schema @
        [index_on ''idx_auth_events_user_id'' ''auth_events'' ''user_id'' False,
         index_on ''idx_auth_events_occurred_at'' ''auth_events'' ''occurred_at'' False,
         index_on ''idx_auth_events_event_type'' ''auth_events'' ''event_type'' False]\<rparr>"

lemmas schema_defs = create_users_def create_password_reset_tokens_def create_auth_events_def index_on_def Column_def
  taken_def references_def

lemma first_effect:
  "effects [CreateTable create_users,
      CreateIndex (index_on ''ix_users_email'' ''users'' ''email'' True),
      CreateTable create_password_reset_tokens,
      CreateIndex (index_on ''ix_password_reset_tokens_token'' ''password_reset_tokens'' ''token'' True),
      CreateIndex (index_on ''ix_password_reset_tokens_user_id'' ''password_reset_tokens'' ''user_id'' False)]
    \<lparr>cat_tables = [], cat_indexes = []\<rparr> = Some first_schema"
  by (simp add: schema_defs first_schema_def lit_def)

lemma second_effect:
  "effects [CreateTable create_auth_events,
      CreateIndex (index_on ''idx_auth_events_user_id'' ''auth_events'' ''user_id'' False),
      CreateIndex (index_on ''idx_auth_events_occurred_at'' ''auth_events'' ''occurred_at'' False),
      CreateIndex (index_on ''idx_auth_events_event_type'' ''auth_events'' ''event_type'' False)]
    first_schema = Some head_schema"
  by (simp add: schema_defs first_schema_def head_schema_def lit_def)

lemma head_declared:
  assumes "ix_convention name"
  shows "cat_tables head_schema = map class_table Base_classes"
    and "set (cat_indexes head_schema) = set (concat (map (class_indexes name) Base_classes))"
proof -
  note classes = Base_classes_def UserModel_class_def PasswordResetTokenModel_class_def AuthEventModel_class_def mapped_def
  show "cat_tables head_schema = map class_table Base_classes"
    by (simp add: head_schema_def first_schema_def schema_defs classes class_table_def lit_def)
  have n: "name t c = lit ''ix_'' @ t @ lit ''_'' @ c" for t c using assms by (simp add: ix_convention_def)
  show "set (cat_indexes head_schema) = set (concat (map (class_indexes name) Base_classes))"
    by (simp add: head_schema_def first_schema_def schema_defs classes class_indexes_def n lit_def insert_commute)
qed

text \<open>
  Claim C39. The migrations and the models agree: upgrading an empty database to the head
  succeeds and leaves exactly the tables that the classes of \<open>models.py\<close> declare, column
  for column with types, lengths, nullability and defaults, with their keys and references,
  and exactly the indexes they declare, unique where a column is unique.
\<close>

theorem migrations_build_models:
  assumes "schema_server ddl cview" and "ix_convention name" and "cview s = \<lparr>cat_tables = [], cat_indexes = []\<rparr>"
  shows "\<exists>s'. bnd (upgrade_0001 ddl) (\<lambda>_. upgrade_0002 ddl) s = (Inr (), s') \<and>
    cat_tables (cview s') = map class_table Base_classes \<and>
    set (cat_indexes (cview s')) = set (concat (map (class_indexes name) Base_classes))"
proof -
  obtain s1 where s1: "upgrade_0001 ddl s = (Inr (), s1)" "cview s1 = first_schema"
    using schema_server.in_order_run[OF assms(1), of _ s] first_effect assms(3) unfolding upgrade_0001_def by metis
  obtain s' where s': "upgrade_0002 ddl s1 = (Inr (), s')" "cview s' = head_schema"
    using schema_server.in_order_run[OF assms(1), of _ s1] second_effect s1(2) unfolding upgrade_0002_def by metis
  show ?thesis using s1(1) s' head_declared[OF assms(2)] by (auto simp: bnd_def)
qed

text \<open>
  Claim C40. A downgrade undoes its upgrade: on a database whose indexes and references are
  in order, whatever else it holds, running \<open>downgrade\<close> after an \<open>upgrade\<close> that went through
  succeeds and leaves the schema as it was.
\<close>

theorem downgrade_undoes_upgrade:
  assumes "schema_server ddl cview" and "cat_ok (cview s)"
  shows "(upgrade_0001 ddl s = (Inr (), s1) \<longrightarrow> (\<exists>s2. downgrade_0001 ddl s1 = (Inr (), s2) \<and> cview s2 = cview s)) \<and>
    (upgrade_0002 ddl s = (Inr (), s1) \<longrightarrow> (\<exists>s2. downgrade_0002 ddl s1 = (Inr (), s2) \<and> cview s2 = cview s))"
proof (intro conjI impI)
  note undone = schema_server.undone[OF assms(1) _ _ assms(2), where ?s1.0 = s1]
  show "\<exists>s2. downgrade_0001 ddl s1 = (Inr (), s2) \<and> cview s2 = cview s" if "upgrade_0001 ddl s = (Inr (), s1)"
    using undone[OF _ that[unfolded upgrade_0001_def]]
    by (simp add: downgrade_0001_def create_users_def create_password_reset_tokens_def index_on_def)
  show "\<exists>s2. downgrade_0002 ddl s1 = (Inr (), s2) \<and> cview s2 = cview s" if "upgrade_0002 ddl s = (Inr (), s1)"
    using undone[OF _ that[unfolded upgrade_0002_def]]
    by (simp add: downgrade_0002_def create_auth_events_def index_on_def)
qed

text \<open>A server that does what the commands say.\<close>

definition ref_ddl :: "catalogue ddl_exec" where
  "ref_ddl c C = (case ddl_effect c C of Some C' \<Rightarrow> (Inr (), C') | None \<Rightarrow> (Inl (ExternalError []), C))"

interpretation refddl: schema_server ref_ddl "\<lambda>C. C"
  by unfold_locales (auto simp: ref_ddl_def)

definition default_name :: "pystr \<Rightarrow> pystr \<Rightarrow> pystr" where
  "default_name t c = lit ''ix_'' @ t @ lit ''_'' @ c"

theorem migrations_build_models_witness:
  "\<exists>C. bnd (upgrade_0001 ref_ddl) (\<lambda>_. upgrade_0002 ref_ddl) \<lparr>cat_tables = [], cat_indexes = []\<rparr> = (Inr (), C) \<and>
     cat_tables C = map class_table Base_classes \<and>
     set (cat_indexes C) = set (concat (map (class_indexes default_name) Base_classes))"
proof -
  have "ix_convention default_name" by (simp add: ix_convention_def default_name_def)
  from migrations_build_models[OF refddl.schema_server_axioms this refl] show ?thesis .
qed

theorem downgrade_undoes_upgrade_witness:
  "\<exists>C. upgrade_0001 ref_ddl \<lparr>cat_tables = [], cat_indexes = []\<rparr> = (Inr (), C) \<and>
     downgrade_0001 ref_ddl C = (Inr (), \<lparr>cat_tables = [], cat_indexes = []\<rparr>)"
proof -
  have ok: "cat_ok \<lparr>cat_tables = [], cat_indexes = []\<rparr>" by (simp add: cat_ok_def)
  obtain C where C: "upgrade_0001 ref_ddl \<lparr>cat_tables = [], cat_indexes = []\<rparr> = (Inr (), C)"
    using schema_server.in_order_run[OF refddl.schema_server_axioms first_effect] unfolding upgrade_0001_def by blast
  then show ?thesis using downgrade_undoes_upgrade[OF refddl.schema_server_axioms ok] by blast
qed

end
