(* ===== verification/Spec2Isabelle.thy ===== *)
theory Spec2Isabelle
  imports Application NamedOperation StoreRefinement Migrations
begin

text \<open>
  \<^bold>\<open>A verified model of the authentication service.\<close>

  The service (\<open>src/auth_service\<close>) registers users, logs them in with a pair of tokens, rotates
  and revokes sessions and resets passwords by mail, over GraphQL. A request passes the
  rate-limit middleware (\<open>main.py\<close>), then the idempotency extension
  (\<open>presentation/graphql/idempotency.py\<close>), then a resolver (\<open>mutations.py\<close>, \<open>queries.py\<close>), which
  calls a command handler (\<open>application/commands\<close>). Handlers work on value objects and
  entities (\<open>domain\<close>), on repositories in one database transaction per request
  (\<open>container.py\<close>, \<open>infrastructure/db\<close>) and on the token store in Redis
  (\<open>infrastructure/redis\<close>). Redis is shared with the limiter's counters and the idempotency
  records.

  \<^bold>\<open>How code is modelled.\<close> A method that touches state is an action, a function from a state to an
  exception or a value and the next state (\<open>act\<close>, with \<open>ret\<close>, \<open>raise_exn\<close>, \<open>bnd\<close> and \<open>catch\<close>, in
  \<open>PyBase\<close>); every \<open>raise\<close> and \<open>except\<close> of the source is a branch. The state of a handler is the
  record \<open>world\<close>: Redis, the database session, the mails sent, the cached dummy hash. Python
  strings are lists of code points, identifiers are 128-bit words, the 32-bit words of SHA-256
  wrap. Random values and clock readings of a request are the record \<open>draws\<close>; that drawn tokens
  are new is a hypothesis where it matters (\<open>fresh_pair\<close>, \<open>fresh_session\<close>).

  \<^bold>\<open>Parameters.\<close> What is not in the repository is an argument, with its documented behaviour in
  a locale or a named predicate, and a reference instance that shows the hypotheses can hold:
  the Redis server (locale \<open>redis_server\<close>, commands with their effect on a view of the keys and
  their remaining life; instance \<open>ref_exec\<close>), the SQL session over PostgreSQL (\<open>sql_session\<close>;
  \<open>ref_sql\<close>), the server that runs migrations (\<open>schema_server\<close>; \<open>ref_ddl\<close>), bcrypt and PyJWT
  (record \<open>crypto\<close>), the Unicode tables (record \<open>unicode\<close>, \<open>unicode_ok\<close>; \<open>latin_unicode\<close>), the
  executor of GraphQL documents (\<open>graphql_executor\<close>; \<open>plain_executor\<close>) and its rendering of
  results and errors (record \<open>engine\<close>, \<open>engine_ok\<close>; \<open>ref_engine\<close>), floating-point numbers in JSON (record \<open>floats\<close>, \<open>floats_ok\<close>; \<open>ref_floats\<close>).

  \<^bold>\<open>The theories.\<close>

  \<^item> \<open>PyBase\<close>, \<open>PyRegex\<close>, \<open>PySha256\<close>, \<open>PyUuid\<close>: the language and the standard library as the code
    uses them: strings, exceptions and actions, regular expressions with the backtracking
    order of \<open>re\<close>, SHA-256, UUIDs with their parser.
  \<^item> \<open>Domain\<close>: \<open>domain/\<close>. Which addresses and passwords are accepted, exactly; reset tokens are
    consumed once.
  \<^item> \<open>Redis\<close>, \<open>TokenStore\<close>, \<open>TokenStoreInv\<close>, \<open>SessionStore\<close>, \<open>RedisSessions\<close>, \<open>StoreSystem\<close>,
    \<open>StoreRefinement\<close>: \<open>redis_token_store.py\<close> as sequences of commands; its invariant; the port
    \<open>TokenStore\<close> as the locale \<open>session_store\<close>, which \<open>redis_sessions\<close> implements; the states
    reached when operations, crashes, waits and other traffic interleave, with the invariant by
    rule induction; and the refinement of an abstract machine of sessions.
  \<^item> \<open>RateLimiter\<close>: \<open>rate_limiter.py\<close>. A window admits exactly the limit and ends; what happens
    when a counter expires between two commands of a check.
  \<^item> \<open>Database\<close>, \<open>Repositories\<close>, \<open>Migrations\<close>: the models, the three repositories and the
    migrations. The repositories implement the locale \<open>repositories\<close> over accounts and reset
    tokens by id; the migrations build what the models declare and are undone by their
    downgrades.
  \<^item> \<open>Security\<close>: \<open>bcrypt_hasher.py\<close> and \<open>jwt_token_service.py\<close>.
  \<^item> \<open>Handlers\<close>, \<open>HandlerRuns\<close>, \<open>HandlerProps\<close>: the six handlers of \<open>application/commands\<close>, what each
    of them does in a deployment (locale \<open>auth_service\<close>, which joins the token store and the
    repositories), and what a client may rely on: login, refresh, logout and the reset flow,
    every error included.
  \<^item> \<open>Scope\<close>, \<open>Presentation\<close>, \<open>Container\<close>: the operations a request scope offers (\<open>RequestScope\<close>),
    the GraphQL types and the resolvers, which call them, the container built from the
    environment, the transaction of a request.
  \<^item> \<open>ServiceInv\<close>, \<open>Service\<close>, \<open>Requests\<close>: the invariant of database and token store under every
    request with any input; a request is one transaction.
  \<^item> \<open>PyJson\<close>, \<open>JsonRoundtrip\<close>: \<open>json.loads\<close> and \<open>json.dumps\<close>, that reading gives back
    what was written, and that sorted text identifies a value up to the order of keys.
  \<^item> \<open>Idempotency\<close>: \<open>idempotency_store.py\<close> and \<open>idempotency.py\<close>. A retry is answered without
    executing anything; what the hash of a request leaves out.
  \<^item> \<open>Middleware\<close>: \<open>GraphQLRateLimitMiddleware\<close> of \<open>main.py\<close>, from the bytes of a body to the
    response. An exhausted limit is refused; which field of a document is counted.
  \<^item> \<open>RateBound\<close>: the middleware and the service behind it. No resolver touches a counter, and a
    sequence of requests cannot exceed a limit.
  \<^item> \<open>NamedOperation\<close>: what the middleware counts when a request names its operation: the field
    of the first header of that name in the text, under the conditions the theorem states; and
    that a header with a brace of its own, such as an object as a default value, escapes.
  \<^item> \<open>Application\<close>: the stack \<open>main.py\<close> and \<open>schema.py\<close> assemble, middleware, context getter,
    extension and resolver. A retry under an idempotency key commits nothing, mails nothing
    and changes no key but the limiter's, after any requests in between. A request there
    (\<open>call\<close>) holds its bytes, its parsed document and the operation the document asks for side
    by side, since the parser is outside; the theorem holds for every combination.

  \<^bold>\<open>Bounds and fuel.\<close> The only definition with fuel is the JSON scanner, which gets twice the length
  of the text and two; \<open>scan_fuel\<close> shows that this is enough for every text, well-formed or not.
  All other recursion is structural or has a measure. The counters of the limiter are assumed
  below \<open>2 ^ 63\<close>, where the increment of Redis ends.

  \<^bold>\<open>Concurrency.\<close> Redis commands of a pipeline in a transaction are atomic; between the operations of
  the store any other operation may run (\<open>store_reach\<close>, \<open>service_reach\<close>). A request of the service
  runs to its end against the database; two transactions that overlap are not modelled.

  \<^bold>\<open>Not modelled.\<close> Logging (\<open>infrastructure/logging.py\<close> and the log calls), which has no effect on
  the state; the SQLAlchemy engine and the migration runner (\<open>infrastructure/db/session.py\<close>,
  \<open>alembic/env.py\<close>), which only configure libraries; the class factory \<open>with_store\<close>, which binds a
  store that is an argument of \<open>resolve_store\<close> here; the parser and the executor of GraphQL
  documents; the limit on the nesting of JSON that CPython's stack imposes.
\<close>

end
